(* ===== verification/Prelude.thy ===== *)
theory Prelude
  imports Main "HOL-Library.Word" "HOL-Library.Monad_Syntax"
begin

text \<open>
  What every component shares: the machine types of the code, the fault monad, raw reads and
  writes of a byte buffer, and the generic lemmas about them.

  \<^item> \<open>u8\<close>, \<open>u16\<close>, \<open>u32\<close> are \<open>uint8_t\<close>, \<open>uint16_t\<close>, \<open>uint32_t\<close>. \<open>size_t\<close> has 32 bits, as on the
    ESP8266 and the ESP32, the targets of the library.
  \<^item> A function that can run into undefined behaviour (a read or write outside a buffer, a
    dereference of a pointer to no object) returns an option; \<open>None\<close> is that fault. Every
    error the code itself handles is a value inside \<open>Some\<close>.
  \<^item> A C string is the list of its bytes without the terminating zero; a nullable pointer is an
    option.
\<close>

unbundle bit_operations_syntax

type_synonym u8 = "8 word"
type_synonym u16 = "16 word"
type_synonym u32 = "32 word"
type_synonym size_t = "32 word"
type_synonym cstring = "u8 list"

named_theorems buffer_simps
named_theorems fault_simps

subsection \<open>Raw buffers\<close>

text \<open>\<open>peek buf i\<close> is \<open>buf[i]\<close>, \<open>poke buf i b\<close> is \<open>buf[i] = b\<close>: both fault outside the buffer.\<close>

definition peek :: "'a list \<Rightarrow> nat \<Rightarrow> 'a option" where
  "peek buf i = (if i < length buf then Some (buf ! i) else None)"

definition poke :: "'a list \<Rightarrow> nat \<Rightarrow> 'a \<Rightarrow> 'a list option" where
  "poke buf i b = (if i < length buf then Some (buf[i := b]) else None)"

text \<open>\<open>region buf i n\<close> is what a read of \<open>n\<close> bytes from \<open>&buf[i]\<close> gives.\<close>

definition region :: "'a list \<Rightarrow> nat \<Rightarrow> nat \<Rightarrow> 'a list option" where
  "region buf i n = (if i + n \<le> length buf then Some (take n (drop i buf)) else None)"

text \<open>
  \<open>put bs (buf, pos)\<close> stores the bytes \<open>bs\<close> from \<open>&buf[pos]\<close> on and advances \<open>pos\<close> past them:
  \<open>buf[pos++] = b\<close> is \<open>put [b]\<close>, a \<open>memcpy\<close> followed by \<open>pos += n\<close> is \<open>put\<close> of the copied bytes.
\<close>

definition put :: "'a list \<Rightarrow> 'a list \<times> nat \<Rightarrow> ('a list \<times> nat) option" where
  "put bs = (\<lambda>(buf, pos).
     if pos + length bs \<le> length buf
     then Some (take pos buf @ bs @ drop (pos + length bs) buf, pos + length bs)
     else None)"

text \<open>A zeroed buffer whose first bytes have been filled: the shape every serialiser keeps.\<close>

definition filled :: "u8 list \<Rightarrow> nat \<Rightarrow> u8 list \<times> nat" where
  "filled done room = (done @ replicate room 0, length done)"

lemma peek_Some [simp]: "i < length buf \<Longrightarrow> peek buf i = Some (buf ! i)"
  by (simp add: peek_def)

lemma poke_Some [simp]: "i < length buf \<Longrightarrow> poke buf i b = Some (buf[i := b])"
  by (simp add: poke_def)

lemma region_Some [simp]: "i + n \<le> length buf \<Longrightarrow> region buf i n = Some (take n (drop i buf))"
  by (simp add: region_def)

lemma put_filled [buffer_simps]:
  "put bs (filled done room) =
     (if length bs \<le> room then Some (filled (done @ bs) (room - length bs)) else None)"
  by (simp add: put_def filled_def)

lemma filled_start: "(replicate n 0, 0) = filled [] n"
  by (simp add: filled_def)

lemma put_length:
  "put bs (buf, pos) = Some (buf', pos') \<Longrightarrow> length buf' = length buf \<and> pos' = pos + length bs"
  by (auto simp: put_def split: if_splits)

subsection \<open>Options as faults\<close>

lemma bind_eq_Some [fault_simps]:
  "(Option.bind m f = Some y) = (\<exists>x. m = Some x \<and> f x = Some y)"
  by (cases m) auto

text \<open>
  A small calculus over faulting computations: \<open>ok m P\<close> says that \<open>m\<close> does not fault and its result
  satisfies \<open>P\<close>, \<open>post m P\<close> that its result satisfies \<open>P\<close> if it has one.
\<close>

definition ok :: "'a option \<Rightarrow> ('a \<Rightarrow> bool) \<Rightarrow> bool" where
  "ok m P \<longleftrightarrow> (\<exists>x. m = Some x \<and> P x)"

definition post :: "'a option \<Rightarrow> ('a \<Rightarrow> bool) \<Rightarrow> bool" where
  "post m P \<longleftrightarrow> (\<forall>x. m = Some x \<longrightarrow> P x)"

named_theorems wp

lemma ok_Some [wp]: "ok (Some x) P = P x"
  and ok_None [wp]: "ok None P = False"
  and ok_if [wp]: "ok (if b then m else n) P = ((b \<longrightarrow> ok m P) \<and> (\<not> b \<longrightarrow> ok n P))"
  by (auto simp: ok_def bind_eq_Some)

lemma ok_peek [wp]: "ok (peek buf i) P = (i < length buf \<and> P (buf ! i))"
  by (auto simp: ok_def peek_def)

lemma ok_poke [wp]: "ok (poke buf i b) P = (i < length buf \<and> P (buf[i := b]))"
  by (auto simp: ok_def poke_def)

lemma ok_region [wp]: "ok (region buf i n) P = (i + n \<le> length buf \<and> P (take n (drop i buf)))"
  by (auto simp: ok_def bind_eq_Some peek_def poke_def region_def)

lemma post_Some [wp]: "post (Some x) P = P x"
  and post_None [wp]: "post None P = True"
  and post_if [wp]: "post (if b then m else n) P = ((b \<longrightarrow> post m P) \<and> (\<not> b \<longrightarrow> post n P))"
  by (auto simp: post_def bind_eq_Some)

lemma ok_bind [wp]: "ok (Option.bind m f) P = ok m (\<lambda>x. ok (f x) P)"
  by (auto simp: ok_def bind_eq_Some)

lemma post_bind [wp]: "post (Option.bind m f) P = post m (\<lambda>x. post (f x) P)"
  by (auto simp: post_def bind_eq_Some)

lemma post_trivial: "(\<And>x. P x) \<Longrightarrow> post m P"
  by (simp add: post_def)

lemma ok_mono: "ok m P \<Longrightarrow> (\<And>x. m = Some x \<Longrightarrow> P x \<Longrightarrow> Q x) \<Longrightarrow> ok m Q"
  by (auto simp: ok_def)

lemma post_mono: "post m P \<Longrightarrow> (\<And>x. P x \<Longrightarrow> Q x) \<Longrightarrow> post m Q"
  by (auto simp: post_def)

lemma post_first: "(\<And>x. post (f x) P) \<Longrightarrow> post m (\<lambda>x. post (f x) P)"
  by (simp add: post_def)

lemma post_snd [wp]: "post (map_option snd m) P = post m (\<lambda>(x, c). P c)"
  by (cases m) (auto simp: post_def)

lemma post_pair [wp]: "post (map_option (Pair b) m) P = post m (\<lambda>c. P (b, c))"
  by (cases m) (auto simp: post_def)

lemma ok_post: "ok m P \<Longrightarrow> post m P"
  by (auto simp: ok_def post_def)

subsection \<open>Words\<close>

definition hi8 :: "u16 \<Rightarrow> u8" where
  "hi8 w = ucast (drop_bit 8 w)"

definition lo8 :: "u16 \<Rightarrow> u8" where
  "lo8 w = ucast (w AND 0xFF)"

text \<open>The two bytes of a 16-bit value put together again, as the receiving side does it.\<close>

definition be16 :: "u8 \<Rightarrow> u8 \<Rightarrow> u16" where
  "be16 h l = push_bit 8 (ucast h) OR ucast l"

lemma mask8: "(0xFF :: 'a::len word) = mask 8"
  by (simp add: mask_eq_exp_minus_1)

lemma be16_hi_lo [simp]: "be16 (hi8 w) (lo8 w) = w"
proof (rule bit_word_eqI)
  fix n assume "n < LENGTH(16)"
  then show "bit (be16 (hi8 w) (lo8 w)) n = bit w n"
    by (auto simp: be16_def hi8_def lo8_def mask8 bit_simps)
qed

lemma lo8_be16 [simp]: "lo8 (be16 h l) = l"
  by (rule bit_word_eqI) (auto simp: be16_def lo8_def mask8 bit_simps)

lemma hi8_be16 [simp]: "hi8 (be16 h l) = h"
  by (rule bit_word_eqI) (auto simp: be16_def hi8_def bit_simps dest: bit_imp_le_length)

lemma unat_of_nat32: "n < 2 ^ 32 \<Longrightarrow> unat (of_nat n :: u32) = n"
  by (simp add: unat_of_nat)

lemma unat_of_nat16: "n < 2 ^ 16 \<Longrightarrow> unat (of_nat n :: u16) = n"
  by (simp add: unat_of_nat)

lemma u32_bound: "unat (w :: u32) < 4294967296"
  using unsigned_less [of w, where ?'a = nat] by simp

lemma u16_bound: "unat (w :: u16) < 65536"
  using unsigned_less [of w, where ?'a = nat] by simp

lemma u8_bound: "unat (w :: u8) < 256"
  using unsigned_less [of w, where ?'a = nat] by simp

text \<open>Widening keeps the value: the implicit promotions of the code.\<close>

lemma unat_ucast_8_32 [simp]: "unat (ucast (w :: u8) :: u32) = unat w"
  using u8_bound [of w] by (simp add: unsigned_ucast_eq take_bit_nat_eq_self)

lemma unat_ucast_16_32 [simp]: "unat (ucast (w :: u16) :: u32) = unat w"
  using u16_bound [of w] by (simp add: unsigned_ucast_eq take_bit_nat_eq_self)

lemma unat_ucast_8_16 [simp]: "unat (ucast (w :: u8) :: u16) = unat w"
  using u8_bound [of w] by (simp add: unsigned_ucast_eq take_bit_nat_eq_self)

end
