(* ===== verification/Constants.thy ===== *)
theory Constants
  imports Prelude
begin

text \<open>
  The protocol constants (\<open>src/src/Packets/Constants.h\<close>), the compile-time configuration
  (\<open>src/src/Config.h\<close>, default values) and the enumerations of the API
  (\<open>src/src/TypeDefs.h\<close>, \<open>src/src/TypeDefs.cpp\<close>). The constants are abbreviations, so that
  terms that mention them compute.
\<close>

subsection \<open>Protocol\<close>

abbreviation (input) PROTOCOL :: cstring where
  "PROTOCOL \<equiv> [0x4D, 0x51, 0x54, 0x54]"

abbreviation (input) PROTOCOL_LEVEL :: u8 where
  "PROTOCOL_LEVEL \<equiv> 0x04"

abbreviation (input) CONNECT :: u8 where "CONNECT \<equiv> 0x10"
abbreviation (input) CONNACK :: u8 where "CONNACK \<equiv> 0x20"
abbreviation (input) PUBLISH :: u8 where "PUBLISH \<equiv> 0x30"
abbreviation (input) PUBACK :: u8 where "PUBACK \<equiv> 0x40"
abbreviation (input) PUBREC :: u8 where "PUBREC \<equiv> 0x50"
abbreviation (input) PUBREL :: u8 where "PUBREL \<equiv> 0x60"
abbreviation (input) PUBCOMP :: u8 where "PUBCOMP \<equiv> 0x70"
abbreviation (input) SUBSCRIBE :: u8 where "SUBSCRIBE \<equiv> 0x80"
abbreviation (input) SUBACK :: u8 where "SUBACK \<equiv> 0x90"
abbreviation (input) UNSUBSCRIBE :: u8 where "UNSUBSCRIBE \<equiv> 0xA0"
abbreviation (input) UNSUBACK :: u8 where "UNSUBACK \<equiv> 0xB0"
abbreviation (input) PINGREQ :: u8 where "PINGREQ \<equiv> 0xC0"
abbreviation (input) PINGRESP :: u8 where "PINGRESP \<equiv> 0xD0"
abbreviation (input) DISCONNECT :: u8 where "DISCONNECT \<equiv> 0xE0"

abbreviation (input) PUBLISH_DUP :: u8 where "PUBLISH_DUP \<equiv> 0x08"
abbreviation (input) PUBLISH_QOS0 :: u8 where "PUBLISH_QOS0 \<equiv> 0x00"
abbreviation (input) PUBLISH_QOS1 :: u8 where "PUBLISH_QOS1 \<equiv> 0x02"
abbreviation (input) PUBLISH_QOS2 :: u8 where "PUBLISH_QOS2 \<equiv> 0x04"
abbreviation (input) PUBLISH_RETAIN :: u8 where "PUBLISH_RETAIN \<equiv> 0x01"
abbreviation (input) PUBREL_RESERVED :: u8 where "PUBREL_RESERVED \<equiv> 0x02"
abbreviation (input) SUBSCRIBE_RESERVED :: u8 where "SUBSCRIBE_RESERVED \<equiv> 0x02"
abbreviation (input) UNSUBSCRIBE_RESERVED :: u8 where "UNSUBSCRIBE_RESERVED \<equiv> 0x02"

abbreviation (input) FLAG_USERNAME :: u8 where "FLAG_USERNAME \<equiv> 0x80"
abbreviation (input) FLAG_PASSWORD :: u8 where "FLAG_PASSWORD \<equiv> 0x40"
abbreviation (input) FLAG_WILL_RETAIN :: u8 where "FLAG_WILL_RETAIN \<equiv> 0x20"
abbreviation (input) FLAG_WILL_QOS0 :: u8 where "FLAG_WILL_QOS0 \<equiv> 0x00"
abbreviation (input) FLAG_WILL_QOS1 :: u8 where "FLAG_WILL_QOS1 \<equiv> 0x08"
abbreviation (input) FLAG_WILL_QOS2 :: u8 where "FLAG_WILL_QOS2 \<equiv> 0x10"
abbreviation (input) FLAG_WILL :: u8 where "FLAG_WILL \<equiv> 0x04"
abbreviation (input) FLAG_CLEAN_SESSION :: u8 where "FLAG_CLEAN_SESSION \<equiv> 0x02"

subsection \<open>Configuration\<close>

abbreviation (input) EMC_TX_TIMEOUT :: u32 where "EMC_TX_TIMEOUT \<equiv> 10000"
abbreviation (input) EMC_RX_BUFFER_SIZE :: size_t where "EMC_RX_BUFFER_SIZE \<equiv> 1440"
abbreviation (input) EMC_TX_BUFFER_SIZE :: size_t where "EMC_TX_BUFFER_SIZE \<equiv> 1440"
abbreviation (input) EMC_MAX_TOPIC_LENGTH :: size_t where "EMC_MAX_TOPIC_LENGTH \<equiv> 128"
abbreviation (input) EMC_PAYLOAD_BUFFER_SIZE :: "32 word" where "EMC_PAYLOAD_BUFFER_SIZE \<equiv> 32"
abbreviation (input) EMC_MIN_FREE_MEMORY :: u32 where "EMC_MIN_FREE_MEMORY \<equiv> 16384"

subsection \<open>Enumerations of the API\<close>

datatype Error = SUCCESS | OUT_OF_MEMORY | MAX_RETRIES | MALFORMED_PARAMETER | MISC_ERROR

datatype DisconnectReason =
    USER_OK
  | MQTT_UNACCEPTABLE_PROTOCOL_VERSION
  | MQTT_IDENTIFIER_REJECTED
  | MQTT_SERVER_UNAVAILABLE
  | MQTT_MALFORMED_CREDENTIALS
  | MQTT_NOT_AUTHORIZED
  | TLS_BAD_FINGERPRINT
  | TCP_DISCONNECTED

text \<open>The underlying value of a reason, and the cast from a CONNACK return code.\<close>

fun DisconnectReason_value :: "DisconnectReason \<Rightarrow> u8" where
  "DisconnectReason_value USER_OK = 0"
| "DisconnectReason_value MQTT_UNACCEPTABLE_PROTOCOL_VERSION = 1"
| "DisconnectReason_value MQTT_IDENTIFIER_REJECTED = 2"
| "DisconnectReason_value MQTT_SERVER_UNAVAILABLE = 3"
| "DisconnectReason_value MQTT_MALFORMED_CREDENTIALS = 4"
| "DisconnectReason_value MQTT_NOT_AUTHORIZED = 5"
| "DisconnectReason_value TLS_BAD_FINGERPRINT = 6"
| "DisconnectReason_value TCP_DISCONNECTED = 7"

text \<open>
  \<open>static_cast<DisconnectReason>(code)\<close>. A value that names no enumerator is represented by
  \<open>None\<close>; the parser lets no such return code through.
\<close>

definition DisconnectReason_cast :: "u8 \<Rightarrow> DisconnectReason option" where
  "DisconnectReason_cast c =
     (if c = 0 then Some USER_OK
      else if c = 1 then Some MQTT_UNACCEPTABLE_PROTOCOL_VERSION
      else if c = 2 then Some MQTT_IDENTIFIER_REJECTED
      else if c = 3 then Some MQTT_SERVER_UNAVAILABLE
      else if c = 4 then Some MQTT_MALFORMED_CREDENTIALS
      else if c = 5 then Some MQTT_NOT_AUTHORIZED
      else if c = 6 then Some TLS_BAD_FINGERPRINT
      else if c = 7 then Some TCP_DISCONNECTED
      else None)"

fun disconnectReasonToString :: "DisconnectReason \<Rightarrow> string" where
  "disconnectReasonToString USER_OK = ''No error''"
| "disconnectReasonToString MQTT_UNACCEPTABLE_PROTOCOL_VERSION = ''Unacceptable protocol version''"
| "disconnectReasonToString MQTT_IDENTIFIER_REJECTED = ''Identified rejected''"
| "disconnectReasonToString MQTT_SERVER_UNAVAILABLE = ''Server unavailable''"
| "disconnectReasonToString MQTT_MALFORMED_CREDENTIALS = ''Malformed credentials''"
| "disconnectReasonToString MQTT_NOT_AUTHORIZED = ''Not authorized''"
| "disconnectReasonToString TLS_BAD_FINGERPRINT = ''Bad fingerprint''"
| "disconnectReasonToString TCP_DISCONNECTED = ''TCP disconnected''"

text \<open>A \<open>SubscribeReturncode\<close> is one of four bytes; any other byte falls to the default branch.\<close>

definition subscribeReturncodeToString :: "u8 \<Rightarrow> string" where
  "subscribeReturncodeToString c =
     (if c = 0x00 then ''QoS 0''
      else if c = 0x01 then ''QoS 1''
      else if c = 0x02 then ''QoS 2''
      else if c = 0x80 then ''Failed''
      else [])"

fun errorToString :: "Error \<Rightarrow> string" where
  "errorToString SUCCESS = ''Success''"
| "errorToString OUT_OF_MEMORY = ''Out of memory''"
| "errorToString MAX_RETRIES = ''Maximum retries exceeded''"
| "errorToString MALFORMED_PARAMETER = ''Malformed parameters''"
| "errorToString MISC_ERROR = ''Misc error''"

lemma DisconnectReason_cast_value [simp]:
  "DisconnectReason_cast (DisconnectReason_value r) = Some r"
  by (cases r) (simp_all add: DisconnectReason_cast_def)

lemma DisconnectReason_cast_connack:
  assumes "c \<le> 5"
  shows "\<exists>r. DisconnectReason_cast c = Some r \<and> r \<noteq> TLS_BAD_FINGERPRINT \<and> r \<noteq> TCP_DISCONNECTED"
proof -
  from assms have "c = 0 \<or> c = 1 \<or> c = 2 \<or> c = 3 \<or> c = 4 \<or> c = 5"
    by unat_arith
  then show ?thesis
    by (auto simp: DisconnectReason_cast_def)
qed

end
