(* ===== verification/RemainingLength.thy ===== *)
theory RemainingLength
  imports Prelude
begin

text \<open>
  \<open>src/src/Packets/RemainingLength.cpp\<close>: the variable-length integer of the fixed header. The
  decoder reads a byte stream from a pointer, so it faults when the stream ends before the
  integer does; \<open>-1\<close> is its own error value. The encoder's destination pointer is the list of
  bytes it stores there, whose length is its return value.
\<close>

subsection \<open>Operations\<close>

text \<open>
  One iteration of the decoder adds the seven value bits, then refuses a multiplier that has
  grown past \<open>128 ^ 3\<close>. The sum is computed unsigned and stored in an \<open>int32_t\<close>.
\<close>

fun decodeRemainingLengthLoop :: "u8 list \<Rightarrow> u32 \<Rightarrow> u32 \<Rightarrow> int option" where
  "decodeRemainingLengthLoop [] multiplier remaining = None"
| "decodeRemainingLengthLoop (encodedByte # stream) multiplier remaining =
     (let remaining' = remaining + ucast (encodedByte AND 127) * multiplier
      in if multiplier > 128 * 128 * 128 then Some (-1)
         else if encodedByte AND 128 \<noteq> 0
              then decodeRemainingLengthLoop stream (multiplier * 128) remaining'
              else Some (sint remaining'))"

definition decodeRemainingLength :: "u8 list \<Rightarrow> int option" where
  "decodeRemainingLength stream = decodeRemainingLengthLoop stream 1 0"

definition remainingLengthLength :: "u32 \<Rightarrow> u8" where
  "remainingLengthLength n =
     (if n < 128 then 1
      else if n < 16384 then 2
      else if n < 2097152 then 3
      else if n > 268435455 then 0
      else 4)"

function encodeRemainingLength :: "u32 \<Rightarrow> u8 list" where
  "encodeRemainingLength n =
     (let encodedByte = ucast (n mod 128) :: u8;
          n' = n div 128
      in if n' > 0 then (encodedByte OR 128) # encodeRemainingLength n' else [encodedByte])"
  by pat_completeness auto
termination
proof (relation "measure unat")
  fix n :: u32 and b n'
  assume "n' = n div 128" and "0 < n'"
  then have "0 < unat n div 128"
    by (simp add: word_less_nat_alt unat_div)
  with \<open>n' = n div 128\<close> show "(n', n) \<in> measure unat"
    by (simp add: unat_div)
qed simp

declare encodeRemainingLength.simps [simp del]

subsection \<open>The encoder\<close>

lemma mask7: "(127 :: 'a::len word) = mask 7"
  by (simp add: mask_eq_exp_minus_1)

lemma bit128: "bit (128 :: 'a::len word) n \<longleftrightarrow> n = 7 \<and> 7 < LENGTH('a)"
proof -
  have "(128 :: 'a word) = 2 ^ 7" by simp
  then show ?thesis by (auto simp only: bit_exp_iff possible_bit_word)
qed

lemma bit128_int: "bit (128 :: int) n \<longleftrightarrow> n = 7"
proof -
  have "(128 :: int) = 2 ^ 7" by simp
  then show ?thesis by (auto simp only: bit_exp_iff possible_bit_int)
qed

lemma div128_pos: "(0 < n div 128) = (\<not> n < (128 :: u32))"
  by (simp add: word_less_nat_alt unat_div word_gt_0 flip: unat_eq_zero) arith

lemma mod128_small: "n < 128 \<Longrightarrow> n mod 128 = (n :: u32)"
  by (simp add: word_unat_eq_iff unat_mod word_less_nat_alt)

lemma encode_last: "n < 128 \<Longrightarrow> encodeRemainingLength n = [ucast n]"
  by (subst encodeRemainingLength.simps) (simp add: Let_def div128_pos mod128_small)

lemma encode_more:
  "\<not> n < 128 \<Longrightarrow>
     encodeRemainingLength n = (ucast (n mod 128) OR 128) # encodeRemainingLength (n div 128)"
  by (subst encodeRemainingLength.simps) (simp add: Let_def div128_pos)

text \<open>The two halves of a byte: the value bits and the continuation bit.\<close>

lemma value_bits_last: "n < 128 \<Longrightarrow> ucast ((ucast n :: u8) AND 127) = (n :: u32)"
proof -
  assume "n < 128"
  then have "n = take_bit 7 n"
    by (simp add: take_bit_eq_mod mod128_small)
  moreover have "ucast ((ucast n :: u8) AND 127) = take_bit 7 n"
    by (rule bit_word_eqI) (auto simp: bit_simps mask7)
  ultimately show ?thesis by simp
qed

lemma value_bits_more: "ucast (((ucast n :: u8) OR 128) AND 127) = (n mod 128 :: u32)"
proof -
  have "ucast (((ucast n :: u8) OR 128) AND 127) = take_bit 7 n"
    by (rule bit_word_eqI) (auto simp: bit_simps mask7 bit128_int)
  then show ?thesis by (simp add: take_bit_eq_mod)
qed

lemma continuation_last: "n < 128 \<Longrightarrow> (ucast n :: u8) AND 128 = 0" for n :: u32
proof -
  assume "n < 128"
  then have n: "n = take_bit 7 n"
    by (simp add: take_bit_eq_mod mod128_small)
  have "\<not> bit n 7"
    by (subst n) (simp add: bit_take_bit_iff)
  then show ?thesis
    by (intro bit_word_eqI) (auto simp: bit_simps bit128_int)
qed

lemma continuation_more: "(b OR 128) AND 128 \<noteq> (0 :: u8)"
proof
  assume "(b OR 128) AND 128 = 0"
  then have "bit ((b OR 128) AND 128) 7 = bit (0 :: u8) 7" by simp
  then show False by (simp add: bit_simps bit128_int)
qed

lemma mod128_idem: "(n mod 128) mod 128 = (n mod 128 :: u32)"
  by (simp add: word_unat_eq_iff unat_mod)

subsection \<open>Decoding what was encoded\<close>

lemma decode_last:
  assumes "n < 128" and "m \<le> 2097152"
  shows "decodeRemainingLengthLoop (encodeRemainingLength n @ rest) m r = Some (sint (r + n * m))"
proof -
  have "\<not> 128 * 128 * 128 < m"
    using assms(2) by (simp add: linorder_not_less)
  then show ?thesis
    by (simp only: encode_last [OF assms(1)] append_Cons append_Nil decodeRemainingLengthLoop.simps
        Let_def value_bits_last [OF assms(1)] continuation_last [OF assms(1)] if_False simp_thms)
qed

lemma decode_more:
  assumes n: "\<not> n < 128" and m: "m \<le> 2097152"
  shows "decodeRemainingLengthLoop (encodeRemainingLength n @ rest) m r =
     decodeRemainingLengthLoop (encodeRemainingLength (n div 128) @ rest) (m * 128)
       (r + (n mod 128) * m)"
proof -
  have "\<not> 128 * 128 * 128 < m"
    using m by (simp add: linorder_not_less)
  then show ?thesis
    by (simp only: encode_more [OF n] append_Cons decodeRemainingLengthLoop.simps Let_def
        value_bits_more mod128_idem continuation_more if_False if_True not_False_eq_True)
qed

lemma decode_chain:
  assumes next_byte: "\<And>r'. decodeRemainingLengthLoop (encodeRemainingLength (n div 128) @ rest) (m * 128) r' =
      Some (sint (r' + (n div 128) * (m * 128)))"
    and m: "m \<le> 2097152"
  shows "decodeRemainingLengthLoop (encodeRemainingLength n @ rest) m r = Some (sint (r + n * m))"
proof (cases "n < 128")
  case True
  then show ?thesis using m by (rule decode_last)
next
  case False
  have "(n mod 128) * m + (n div 128) * (m * 128) = (n div 128 * 128 + n mod 128) * m"
    by (simp add: algebra_simps)
  also have "\<dots> = n * m"
    by (simp only: div_mult_mod_eq)
  finally have "r + (n mod 128) * m + (n div 128) * (m * 128) = r + n * m"
    by (simp only: add.assoc)
  then show ?thesis
    by (simp only: decode_more [OF False m] next_byte)
qed

lemma div128_bound: "unat n < 128 * b \<Longrightarrow> unat (n div 128 :: u32) < b"
  by (simp add: unat_div less_mult_imp_div_less mult.commute)

text \<open>The multiplier is one of the four that the decoder accepts; the value fits what is left of it.\<close>

lemma decode_encode_loop:
  shows decode1: "unat n < 128 \<Longrightarrow> decodeRemainingLengthLoop (encodeRemainingLength n @ rest) 2097152 r =
      Some (sint (r + n * 2097152))"
    and decode2: "unat n < 16384 \<Longrightarrow> decodeRemainingLengthLoop (encodeRemainingLength n @ rest) 16384 r =
      Some (sint (r + n * 16384))"
    and decode3: "unat n < 2097152 \<Longrightarrow> decodeRemainingLengthLoop (encodeRemainingLength n @ rest) 128 r =
      Some (sint (r + n * 128))"
    and decode4: "unat n < 268435456 \<Longrightarrow> decodeRemainingLengthLoop (encodeRemainingLength n @ rest) 1 r =
      Some (sint (r + n * 1))"
proof -
  have 1: "decodeRemainingLengthLoop (encodeRemainingLength n @ rest) 2097152 r =
      Some (sint (r + n * 2097152))" if "unat n < 128" for n r
    using that by (intro decode_last) (simp_all add: word_less_nat_alt)
  have 2: "decodeRemainingLengthLoop (encodeRemainingLength n @ rest) 16384 r =
      Some (sint (r + n * 16384))" if "unat n < 16384" for n r
  proof (rule decode_chain)
    fix r'
    show "decodeRemainingLengthLoop (encodeRemainingLength (n div 128) @ rest) (16384 * 128) r' =
        Some (sint (r' + n div 128 * (16384 * 128)))"
      using 1 [of "n div 128" r'] div128_bound [of n 128] that by simp
  qed simp
  have 3: "decodeRemainingLengthLoop (encodeRemainingLength n @ rest) 128 r =
      Some (sint (r + n * 128))" if "unat n < 2097152" for n r
  proof (rule decode_chain)
    fix r'
    show "decodeRemainingLengthLoop (encodeRemainingLength (n div 128) @ rest) (128 * 128) r' =
        Some (sint (r' + n div 128 * (128 * 128)))"
      using 2 [of "n div 128" r'] div128_bound [of n 16384] that by simp
  qed simp
  have 4: "decodeRemainingLengthLoop (encodeRemainingLength n @ rest) 1 r =
      Some (sint (r + n * 1))" if "unat n < 268435456" for n r
  proof (rule decode_chain)
    fix r'
    show "decodeRemainingLengthLoop (encodeRemainingLength (n div 128) @ rest) (1 * 128) r' =
        Some (sint (r' + n div 128 * (1 * 128)))"
      using 3 [of "n div 128" r'] div128_bound [of n 2097152] that by simp
  qed simp
  from 1 show "unat n < 128 \<Longrightarrow> decodeRemainingLengthLoop (encodeRemainingLength n @ rest) 2097152 r =
      Some (sint (r + n * 2097152))" .
  from 2 show "unat n < 16384 \<Longrightarrow> decodeRemainingLengthLoop (encodeRemainingLength n @ rest) 16384 r =
      Some (sint (r + n * 16384))" .
  from 3 show "unat n < 2097152 \<Longrightarrow> decodeRemainingLengthLoop (encodeRemainingLength n @ rest) 128 r =
      Some (sint (r + n * 128))" .
  from 4 show "unat n < 268435456 \<Longrightarrow> decodeRemainingLengthLoop (encodeRemainingLength n @ rest) 1 r =
      Some (sint (r + n * 1))" .
qed

lemma sint_small:
  assumes "unat (n :: u32) < 2147483648"
  shows "sint n = int (unat n)"
proof -
  have n: "int (unat n) = uint n" by simp
  from assms have "int (unat n) < 2147483648" by linarith
  then have "uint n < 2 ^ 31" by (simp add: n)
  moreover have "- (2 ^ 31) \<le> uint n"
    by (rule order_trans [OF _ uint_ge_0]) simp
  ultimately have "signed_take_bit 31 (uint n) = uint n"
    by (rule signed_take_bit_int_eq_self [rotated])
  then show ?thesis
    by (simp add: sint_uint n)
qed

lemma decode_encode:
  assumes "n \<le> 268435455"
  shows "decodeRemainingLength (encodeRemainingLength n @ rest) = Some (int (unat n))"
proof -
  from assms have "unat n < 268435456"
    by (simp add: word_le_nat_alt)
  then show ?thesis
    by (simp add: decodeRemainingLength_def decode4 [where n = n and r = 0, simplified] sint_small)
qed

lemma length_encode:
  shows "unat n < 128 \<Longrightarrow> length (encodeRemainingLength n) = 1"
    and "128 \<le> unat n \<Longrightarrow> length (encodeRemainingLength n) = Suc (length (encodeRemainingLength (n div 128)))"
  by (simp_all add: encode_last encode_more word_less_nat_alt)

lemma length_encode_cases:
  "length (encodeRemainingLength n) =
     (if unat n < 128 then 1 else if unat n < 16384 then 2 else if unat n < 2097152 then 3
      else if unat n < 268435456 then 4 else 5)"
proof -
  have 2: "length (encodeRemainingLength n) = 2" if "128 \<le> unat n" "unat n < 16384" for n
    using that div128_bound [of n 128] by (simp add: length_encode)
  have 3: "length (encodeRemainingLength n) = 3" if "16384 \<le> unat n" "unat n < 2097152" for n
    using that div128_bound [of n 16384] 2 [of "n div 128"] by (simp add: length_encode unat_div)
  have 4: "length (encodeRemainingLength n) = 4" if "2097152 \<le> unat n" "unat n < 268435456" for n
    using that div128_bound [of n 2097152] 3 [of "n div 128"] by (simp add: length_encode unat_div)
  have "length (encodeRemainingLength n) = 5" if "268435456 \<le> unat n"
  proof -
    have "2097152 \<le> unat (n div 128)" and "unat (n div 128) < 268435456"
      using that u32_bound [of n] by (simp_all add: unat_div)
    then show ?thesis using 4 [of "n div 128"] that by (simp add: length_encode)
  qed
  with 2 [of n] 3 [of n] 4 [of n] show ?thesis
    by (auto simp: length_encode)
qed

lemma length_encode_eq:
  "n \<le> 268435455 \<Longrightarrow> length (encodeRemainingLength n) = unat (remainingLengthLength n)"
  by (auto simp: length_encode_cases remainingLengthLength_def word_less_nat_alt word_le_nat_alt)

subsection \<open>What the decoder can return\<close>

lemma decode_step_bound:
  fixes b :: u8 and r :: u32
  assumes "unat r < M" and "128 * M \<le> 268435456" and "m = of_nat M"
  shows "unat (r + ucast (b AND 127) * m) < 128 * M"
proof -
  have "b AND 127 \<le> 127"
    by (rule word_and_le1)
  then have b: "unat (b AND 127) \<le> 127"
    by (simp add: word_le_nat_alt)
  let ?b = "ucast (b AND 127) :: u32"
  have ub: "unat ?b = unat (b AND 127)"
    by simp
  have m: "unat m = M"
    using assms by (simp add: unat_of_nat)
  have prod: "unat ?b * M \<le> 127 * M"
    using b by (simp add: ub)
  then have "unat ?b * M < 4294967296"
    using assms(2) by linarith
  then have pm: "unat (?b * m) = unat ?b * M"
    by (simp add: unat_word_ariths m del: unat_ucast_8_32)
  have "unat r + unat (?b * m) < 128 * M"
    using prod assms(1) pm by linarith
  moreover have "unat (r + ?b * m) \<le> unat r + unat (?b * m)"
    by (simp only: unat_word_ariths(1) mod_less_eq_dividend)
  ultimately show ?thesis
    by (rule le_less_trans [rotated])
qed


definition length_or_error :: "int \<Rightarrow> bool" where
  "length_or_error v \<longleftrightarrow> v = -1 \<or> 0 \<le> v \<and> v \<le> 268435455"

lemma length_or_error_sint: "unat (x :: u32) < 268435456 \<Longrightarrow> length_or_error (sint x)"
proof -
  assume x: "unat x < 268435456"
  then have "int (unat x) \<le> 268435455" by linarith
  with x show ?thesis
    by (simp only: sint_small length_or_error_def) simp
qed

lemma decode_loop_range:
  "unat r < 1 \<Longrightarrow> decodeRemainingLengthLoop s 1 r = Some v \<Longrightarrow> length_or_error v"
proof -
  have 5: "length_or_error v" if "decodeRemainingLengthLoop s 268435456 r = Some v" for s r v
    using that by (cases s) (simp_all add: Let_def length_or_error_def)
  have 4: "length_or_error v"
    if "unat r < 2097152" "decodeRemainingLengthLoop s 2097152 r = Some v" for s r v
    using that decode_step_bound [of r 2097152 _ "hd s"]
    by (cases s) (auto simp: Let_def split: if_splits intro: 5 length_or_error_sint)
  have 3: "length_or_error v"
    if "unat r < 16384" "decodeRemainingLengthLoop s 16384 r = Some v" for s r v
    using that decode_step_bound [of r 16384 _ "hd s"]
    by (cases s) (auto simp: Let_def split: if_splits intro: 4 length_or_error_sint)
  have 2: "length_or_error v"
    if "unat r < 128" "decodeRemainingLengthLoop s 128 r = Some v" for s r v
    using that decode_step_bound [of r 128 _ "hd s"]
    by (cases s) (auto simp: Let_def split: if_splits intro: 3 length_or_error_sint)
  show "length_or_error v" if "unat r < 1" "decodeRemainingLengthLoop s 1 r = Some v"
    using that decode_step_bound [of r 1 _ "hd s"]
    by (cases s) (auto simp: Let_def split: if_splits intro: 2 length_or_error_sint)
qed

lemma decode_range: "decodeRemainingLength s = Some v \<Longrightarrow> length_or_error v"
  unfolding decodeRemainingLength_def by (rule decode_loop_range) simp_all

subsection \<open>When the decoder gives up\<close>

definition continues :: "u8 \<Rightarrow> bool" where
  "continues b \<longleftrightarrow> b AND 128 \<noteq> 0"

lemma sint_not_error: "unat (x :: u32) < 268435456 \<Longrightarrow> sint x \<noteq> -1"
proof -
  assume x: "unat x < 268435456"
  have "0 \<le> uint x" by simp
  then have "uint x \<noteq> -1" by linarith
  with x show ?thesis by (subst sint_small) simp_all
qed

lemma decode_loop_error:
  "unat r < 1 \<Longrightarrow> decodeRemainingLengthLoop s 1 r = Some (-1) \<longleftrightarrow>
     5 \<le> length s \<and> (\<forall>b \<in> set (take 4 s). continues b)"
proof -
  have 5: "decodeRemainingLengthLoop s 268435456 r = Some (-1) \<longleftrightarrow> 1 \<le> length s" for s r
    by (cases s) (simp_all add: Let_def)
  have 4: "decodeRemainingLengthLoop s 2097152 r = Some (-1) \<longleftrightarrow>
      2 \<le> length s \<and> (\<forall>b \<in> set (take 1 s). continues b)" if "unat r < 2097152" for s r
    using that decode_step_bound [of r 2097152 _ "hd s"]
    by (cases s) (auto simp: Let_def 5 continues_def sint_not_error)
  have 3: "decodeRemainingLengthLoop s 16384 r = Some (-1) \<longleftrightarrow>
      3 \<le> length s \<and> (\<forall>b \<in> set (take 2 s). continues b)" if "unat r < 16384" for s r
    using that decode_step_bound [of r 16384 _ "hd s"]
    by (cases s) (auto simp: Let_def 4 continues_def sint_not_error)
  have 2: "decodeRemainingLengthLoop s 128 r = Some (-1) \<longleftrightarrow>
      4 \<le> length s \<and> (\<forall>b \<in> set (take 3 s). continues b)" if "unat r < 128" for s r
    using that decode_step_bound [of r 128 _ "hd s"]
    by (cases s) (auto simp: Let_def 3 continues_def sint_not_error)
  show "decodeRemainingLengthLoop s 1 r = Some (-1) \<longleftrightarrow>
      5 \<le> length s \<and> (\<forall>b \<in> set (take 4 s). continues b)" if "unat r < 1"
    using that decode_step_bound [of r 1 _ "hd s"]
    by (cases s) (auto simp: Let_def 2 continues_def sint_not_error)
qed

lemma decode_total:
  assumes "5 \<le> length s \<or> (\<exists>b \<in> set s. \<not> continues b)"
  shows "\<exists>v. decodeRemainingLength s = Some v"
proof -
  have "\<exists>v. decodeRemainingLengthLoop s (128 ^ k) r = Some v"
    if "5 - k \<le> length s \<or> (\<exists>b \<in> set s. \<not> continues b)" and "k \<le> 4" for k r
    using that
  proof (induction s arbitrary: k r)
    case Nil
    then show ?case by simp
  next
    case (Cons b s)
    show ?case
    proof (cases "k = 4")
      case True
      then show ?thesis by (simp add: Let_def)
    next
      case False
      with Cons.prems have "5 - Suc k \<le> length s \<or> (\<exists>b \<in> set s. \<not> continues b)" if "continues b"
        using that by auto
      with Cons.IH [of "Suc k"] Cons.prems False show ?thesis
        by (auto simp: Let_def continues_def mult.commute)
    qed
  qed
  from this [of 0 0] assms show ?thesis
    by (auto simp: decodeRemainingLength_def)
qed

subsection \<open>Properties\<close>

text \<open>C18: Encoding a length of at most 268435455 (what MQTT allows) and decoding it again gives the
  length back, whatever bytes follow, and the encoder stores exactly the number of bytes that
  \<open>remainingLengthLength\<close> announces for the buffer size.\<close>

theorem remaining_length_roundtrip:
  assumes "n \<le> 268435455"
  shows "decodeRemainingLength (encodeRemainingLength n @ rest) = Some (int (unat n)) \<and>
    length (encodeRemainingLength n) = unat (remainingLengthLength n)"
  using assms by (simp add: decode_encode length_encode_eq)

theorem remaining_length_roundtrip_witness:
  "decodeRemainingLength (encodeRemainingLength 321 @ [7]) = Some 321 \<and>
    length (encodeRemainingLength 321) = 2"
  using remaining_length_roundtrip [of 321 "[7]"]
  by (simp add: remainingLengthLength_def)

text \<open>The decoder is total on any stream that holds a complete length (five bytes, or one byte
  without the continuation bit): it returns a value between 0 and 268435455, or \<open>-1\<close>, and
  \<open>-1\<close> exactly when the first four bytes all ask for a continuation.\<close>

lemma remaining_length_decoder_total:
  assumes "5 \<le> length s \<or> (\<exists>b \<in> set s. \<not> continues b)"
  shows "\<exists>v. decodeRemainingLength s = Some v \<and> length_or_error v \<and>
    (v = -1 \<longleftrightarrow> 5 \<le> length s \<and> (\<forall>b \<in> set (take 4 s). continues b))"
  using decode_total [OF assms] decode_loop_error [of 0 s] decode_range [of s]
  by (auto simp: decodeRemainingLength_def)

lemma remaining_length_decoder_total_witness:
  "decodeRemainingLength [0x80, 0x80, 0x80, 0x80, 1] = Some (-1)"
  using remaining_length_decoder_total [of "[0x80, 0x80, 0x80, 0x80, 1]"]
  by (auto simp: continues_def)

end
