(* ===== verification/Parser.thy ===== *)
theory Parser
  imports Constants RemainingLength
begin

text \<open>
  \<open>src/src/Packets/Parser.h\<close> and \<open>src/src/Packets/Parser.cpp\<close>: the incremental parser of incoming
  packets, a state machine that a pointer to a member function drives byte by byte.

  The unions are modelled as the bytes they share on the little-endian targets of the library:
  \<open>remainingLengthRaw[i]\<close> is byte \<open>i\<close> of \<open>remainingLength\<close>, and \<open>sessionPresent\<close> and \<open>returnCode\<close>
  are the low and the high byte of \<open>packetId\<close>. A handler faults when it reads outside the input
  or leaves the topic, raw length or payload buffer.
\<close>

subsection \<open>State\<close>

text \<open>Where \<open>payload.data\<close> points: nowhere yet, to the parser's own buffer, or into the input.\<close>

datatype DataPtr = NullPtr | PayloadBuffer | Input size_t

record IncomingPacket =
  i_packetType :: u8
  i_remainingLength :: size_t
  i_topicLength :: u16
  i_topic :: "u8 list"
  i_packetId :: u16
  i_data :: DataPtr
  i_length :: size_t
  i_index :: size_t
  i_total :: size_t

datatype ParserResult = awaitData | packet | protocolError

text \<open>The values of the function pointer \<open>_parse\<close>.\<close>

datatype ParserFunc =
    fixedHeader
  | remainingLengthFixed
  | remainingLengthNone
  | remainingLengthVariable
  | varHeaderConnack1
  | varHeaderConnack2
  | varHeaderPacketId1
  | varHeaderPacketId2
  | varHeaderTopicLength1
  | varHeaderTopicLength2
  | varHeaderTopic
  | payloadSuback
  | payloadPublish

record Parser =
  r_data :: "u8 list"
  r_len :: size_t
  r_bytesRead :: size_t
  r_bytePos :: size_t
  r_parse :: ParserFunc
  r_packet :: IncomingPacket
  r_payloadBuffer :: "u8 list"

subsection \<open>The incoming packet\<close>

definition IncomingPacket_qos :: "IncomingPacket \<Rightarrow> u8" where
  "IncomingPacket_qos i =
     (if i_packetType i AND 0xF0 \<noteq> PUBLISH then 0 else drop_bit 1 (i_packetType i AND 0x06))"

definition IncomingPacket_retain :: "IncomingPacket \<Rightarrow> bool" where
  "IncomingPacket_retain i =
     (if i_packetType i AND 0xF0 \<noteq> PUBLISH then False else i_packetType i AND 0x01 \<noteq> 0)"

definition IncomingPacket_dup :: "IncomingPacket \<Rightarrow> bool" where
  "IncomingPacket_dup i =
     (if i_packetType i AND 0xF0 \<noteq> PUBLISH then False else i_packetType i AND 0x08 \<noteq> 0)"

definition IncomingPacket_reset :: "IncomingPacket \<Rightarrow> IncomingPacket" where
  "IncomingPacket_reset i =
     i\<lparr>i_packetType := 0, i_topicLength := 0, i_packetId := 0, i_index := 0, i_length := 0\<rparr>"

text \<open>The members of the unions.\<close>

definition rawGet :: "u32 \<Rightarrow> nat \<Rightarrow> u8" where
  "rawGet w i = ucast (drop_bit (8 * i) w)"

definition rawSet :: "u32 \<Rightarrow> nat \<Rightarrow> u8 \<Rightarrow> u32 option" where
  "rawSet w i b =
     (if i < 4 then Some ((w AND NOT (push_bit (8 * i) 0xFF)) OR push_bit (8 * i) (ucast b)) else None)"

definition rawBytes :: "u32 \<Rightarrow> u8 list" where
  "rawBytes w = map (rawGet w) [0, 1, 2, 3]"

definition i_sessionPresent :: "IncomingPacket \<Rightarrow> u8" where
  "i_sessionPresent i = lo8 (i_packetId i)"

definition i_returnCode :: "IncomingPacket \<Rightarrow> u8" where
  "i_returnCode i = hi8 (i_packetId i)"

definition setSessionPresent :: "u8 \<Rightarrow> IncomingPacket \<Rightarrow> IncomingPacket" where
  "setSessionPresent b i = i\<lparr>i_packetId := be16 (hi8 (i_packetId i)) b\<rparr>"

definition setReturnCode :: "u8 \<Rightarrow> IncomingPacket \<Rightarrow> IncomingPacket" where
  "setReturnCode b i = i\<lparr>i_packetId := be16 b (lo8 (i_packetId i))\<rparr>"

subsection \<open>Handlers\<close>

type_synonym step = "(ParserResult \<times> Parser) option"

text \<open>\<open>p->_data[p->_bytesRead]\<close>, and an update of a member of \<open>p->_packet\<close>.\<close>

definition Parser_byte :: "Parser \<Rightarrow> u8 option" where
  "Parser_byte p = peek (r_data p) (unat (r_bytesRead p))"

definition upd :: "(IncomingPacket \<Rightarrow> IncomingPacket) \<Rightarrow> Parser \<Rightarrow> Parser" where
  "upd f p = p\<lparr>r_packet := f (r_packet p)\<rparr>"

abbreviation packetType :: "Parser \<Rightarrow> u8" where
  "packetType p \<equiv> i_packetType (r_packet p)"

definition Parser_fixedHeader :: "Parser \<Rightarrow> step" where
  "Parser_fixedHeader p = do {
     b \<leftarrow> Parser_byte p;
     let p = upd (\<lambda>i. IncomingPacket_reset i\<lparr>i_packetType := b\<rparr>) p;
     if packetType p AND 0xF0 = PUBLISH then
       (let headerFlags = packetType p AND 0x0F
        in if headerFlags \<le> 0x05 \<or> headerFlags \<ge> 0x0A
           then Some (awaitData, p\<lparr>r_parse := remainingLengthVariable, r_bytePos := 0\<rparr>)
           else Some (protocolError, p))
     else if packetType p \<in> {CONNACK, PUBACK, PUBREC, PUBREL OR PUBREL_RESERVED, PUBCOMP, UNSUBACK} then
       Some (awaitData, p\<lparr>r_parse := remainingLengthFixed\<rparr>)
     else if packetType p = SUBACK then
       Some (awaitData, p\<lparr>r_parse := remainingLengthVariable, r_bytePos := 0\<rparr>)
     else if packetType p = PINGRESP then
       Some (awaitData, p\<lparr>r_parse := remainingLengthNone\<rparr>)
     else Some (protocolError, p)
   }"

definition Parser_remainingLengthFixed :: "Parser \<Rightarrow> step" where
  "Parser_remainingLengthFixed p = do {
     b \<leftarrow> Parser_byte p;
     let p = upd (\<lambda>i. i\<lparr>i_remainingLength := ucast b\<rparr>) p;
     if i_remainingLength (r_packet p) = 2 then
       (if packetType p AND 0xF0 \<noteq> CONNACK
        then Some (awaitData, p\<lparr>r_parse := varHeaderPacketId1\<rparr>)
        else Some (awaitData, p\<lparr>r_parse := varHeaderConnack1\<rparr>))
     else Some (protocolError, p\<lparr>r_parse := fixedHeader\<rparr>)
   }"

definition Parser_remainingLengthVariable :: "Parser \<Rightarrow> step" where
  "Parser_remainingLengthVariable p = do {
     b \<leftarrow> Parser_byte p;
     raw \<leftarrow> rawSet (i_remainingLength (r_packet p)) (unat (r_bytePos p)) b;
     let p = upd (\<lambda>i. i\<lparr>i_remainingLength := raw\<rparr>) p;
     if rawGet (i_remainingLength (r_packet p)) (unat (r_bytePos p)) AND 0x80 \<noteq> 0 then
       (let p = p\<lparr>r_bytePos := r_bytePos p + 1\<rparr>
        in if r_bytePos p = 4 then Some (protocolError, p) else Some (awaitData, p))
     else do {
       n \<leftarrow> decodeRemainingLength (rawBytes (i_remainingLength (r_packet p)));
       let p = upd (\<lambda>i. i\<lparr>i_remainingLength := of_int n\<rparr>) p;
       if packetType p AND 0xF0 = PUBLISH
       then Some (awaitData, p\<lparr>r_parse := varHeaderTopicLength1\<rparr>)
       else
         (let payloadSize = sint (i_remainingLength (r_packet p) - 2)
          in if 0 < payloadSize \<and> payloadSize < sint EMC_PAYLOAD_BUFFER_SIZE then
               Some (awaitData,
                 (upd (\<lambda>i. i\<lparr>i_data := PayloadBuffer, i_index := 0, i_length := of_int payloadSize,
                     i_total := of_int payloadSize\<rparr>) p)
                 \<lparr>r_bytePos := 0, r_parse := varHeaderPacketId1\<rparr>)
             else Some (protocolError, p\<lparr>r_parse := fixedHeader\<rparr>))
     }
   }"

definition Parser_remainingLengthNone :: "Parser \<Rightarrow> step" where
  "Parser_remainingLengthNone p = do {
     b \<leftarrow> Parser_byte p;
     let p = (upd (\<lambda>i. i\<lparr>i_remainingLength := ucast b\<rparr>) p)\<lparr>r_parse := fixedHeader\<rparr>;
     if i_remainingLength (r_packet p) = 0 then Some (packet, p) else Some (protocolError, p)
   }"

definition Parser_varHeaderConnack1 :: "Parser \<Rightarrow> step" where
  "Parser_varHeaderConnack1 p = do {
     b \<leftarrow> Parser_byte p;
     if b < 2
     then Some (awaitData, (upd (setSessionPresent b) p)\<lparr>r_parse := varHeaderConnack2\<rparr>)
     else Some (protocolError, p\<lparr>r_parse := fixedHeader\<rparr>)
   }"

definition Parser_varHeaderConnack2 :: "Parser \<Rightarrow> step" where
  "Parser_varHeaderConnack2 p = do {
     b \<leftarrow> Parser_byte p;
     let p = p\<lparr>r_parse := fixedHeader\<rparr>;
     if b \<le> 5 then Some (packet, upd (setReturnCode b) p) else Some (protocolError, p)
   }"

definition Parser_varHeaderPacketId1 :: "Parser \<Rightarrow> step" where
  "Parser_varHeaderPacketId1 p = do {
     b \<leftarrow> Parser_byte p;
     Some (awaitData,
       (upd (\<lambda>i. i\<lparr>i_packetId := i_packetId i OR push_bit 8 (ucast b)\<rparr>) p)\<lparr>r_parse := varHeaderPacketId2\<rparr>)
   }"

definition Parser_varHeaderPacketId2 :: "Parser \<Rightarrow> step" where
  "Parser_varHeaderPacketId2 p = do {
     b \<leftarrow> Parser_byte p;
     let p = (upd (\<lambda>i. i\<lparr>i_packetId := i_packetId i OR ucast b\<rparr>) p)\<lparr>r_parse := fixedHeader\<rparr>;
     if i_packetId (r_packet p) \<noteq> 0 then
       if packetType p AND 0xF0 = SUBACK then Some (awaitData, p\<lparr>r_parse := payloadSuback\<rparr>)
       else if packetType p AND 0xF0 = PUBLISH then
         (let p = upd (\<lambda>i. i\<lparr>i_total := i_total i - 2\<rparr>) p
          in if i_total (r_packet p) = 0
             then Some (packet, p\<lparr>r_parse := fixedHeader\<rparr>)
             else Some (awaitData, p\<lparr>r_parse := payloadPublish\<rparr>))
       else Some (packet, p)
     else Some (protocolError, p)
   }"

definition Parser_varHeaderTopicLength1 :: "Parser \<Rightarrow> step" where
  "Parser_varHeaderTopicLength1 p = do {
     b \<leftarrow> Parser_byte p;
     Some (awaitData,
       (upd (\<lambda>i. i\<lparr>i_topicLength := push_bit 8 (ucast b)\<rparr>) p)\<lparr>r_parse := varHeaderTopicLength2\<rparr>)
   }"

definition Parser_varHeaderTopicLength2 :: "Parser \<Rightarrow> step" where
  "Parser_varHeaderTopicLength2 p = do {
     b \<leftarrow> Parser_byte p;
     let p = upd (\<lambda>i. i\<lparr>i_topicLength := i_topicLength i OR ucast b\<rparr>) p;
     let maxTopicLength = i_remainingLength (r_packet p) - 2
           - (if packetType p AND (PUBLISH_QOS1 OR PUBLISH_QOS2) \<noteq> 0 then 2 else 0);
     if ucast (i_topicLength (r_packet p)) \<le> maxTopicLength
     then Some (awaitData,
       (upd (\<lambda>i. i\<lparr>i_total := i_remainingLength i - 2 - ucast (i_topicLength i)\<rparr>) p)
       \<lparr>r_parse := varHeaderTopic, r_bytePos := 0\<rparr>)
     else Some (protocolError, p\<lparr>r_parse := fixedHeader\<rparr>)
   }"

definition Parser_varHeaderTopic :: "Parser \<Rightarrow> step" where
  "Parser_varHeaderTopic p = do {
     b \<leftarrow> Parser_byte p;
     topic \<leftarrow> poke (i_topic (r_packet p)) (unat (r_bytePos p)) b;
     let p = (upd (\<lambda>i. i\<lparr>i_topic := topic\<rparr>) p)\<lparr>r_bytePos := r_bytePos p + 1\<rparr>;
     if r_bytePos p = ucast (i_topicLength (r_packet p)) \<or> r_bytePos p = EMC_MAX_TOPIC_LENGTH then do {
       topic \<leftarrow> poke (i_topic (r_packet p)) (unat (r_bytePos p)) 0;
       let p = upd (\<lambda>i. i\<lparr>i_topic := topic\<rparr>) p;
       if packetType p AND (PUBLISH_QOS1 OR PUBLISH_QOS2) \<noteq> 0
       then Some (awaitData, p\<lparr>r_parse := varHeaderPacketId1\<rparr>)
       else if i_total (r_packet p) = 0
       then Some (packet, p\<lparr>r_parse := fixedHeader\<rparr>)
       else Some (awaitData, p\<lparr>r_parse := payloadPublish\<rparr>)
     }
     else Some (awaitData, p)
   }"

definition Parser_payloadSuback :: "Parser \<Rightarrow> step" where
  "Parser_payloadSuback p = do {
     b \<leftarrow> Parser_byte p;
     if b < 0x03 \<or> b = 0x80 then do {
       buffer \<leftarrow> poke (r_payloadBuffer p) (unat (r_bytePos p)) b;
       let p = p\<lparr>r_payloadBuffer := buffer, r_bytePos := r_bytePos p + 1\<rparr>;
       if r_bytePos p = i_total (r_packet p)
       then Some (packet, p\<lparr>r_parse := fixedHeader\<rparr>)
       else Some (awaitData, p)
     }
     else Some (protocolError, p\<lparr>r_parse := fixedHeader\<rparr>)
   }"

definition Parser_payloadPublish :: "Parser \<Rightarrow> step" where
  "Parser_payloadPublish p =
     (let p = upd (\<lambda>i. i\<lparr>i_index := i_index i + i_length i, i_data := Input (r_bytesRead p)\<rparr>) p;
          p = upd (\<lambda>i. i\<lparr>i_length := min (r_len p - r_bytesRead p) (i_total i - i_index i)\<rparr>) p;
          p = p\<lparr>r_bytesRead := r_bytesRead p + (i_length (r_packet p) - 1)\<rparr>
      in if i_index (r_packet p) + i_length (r_packet p) = i_total (r_packet p)
         then Some (packet, p\<lparr>r_parse := fixedHeader\<rparr>)
         else Some (packet, p))"

text \<open>The call through \<open>_parse\<close>.\<close>

fun Parser_step :: "ParserFunc \<Rightarrow> Parser \<Rightarrow> step" where
  "Parser_step fixedHeader = Parser_fixedHeader"
| "Parser_step remainingLengthFixed = Parser_remainingLengthFixed"
| "Parser_step remainingLengthNone = Parser_remainingLengthNone"
| "Parser_step remainingLengthVariable = Parser_remainingLengthVariable"
| "Parser_step varHeaderConnack1 = Parser_varHeaderConnack1"
| "Parser_step varHeaderConnack2 = Parser_varHeaderConnack2"
| "Parser_step varHeaderPacketId1 = Parser_varHeaderPacketId1"
| "Parser_step varHeaderPacketId2 = Parser_varHeaderPacketId2"
| "Parser_step varHeaderTopicLength1 = Parser_varHeaderTopicLength1"
| "Parser_step varHeaderTopicLength2 = Parser_varHeaderTopicLength2"
| "Parser_step varHeaderTopic = Parser_varHeaderTopic"
| "Parser_step payloadSuback = Parser_payloadSuback"
| "Parser_step payloadPublish = Parser_payloadPublish"


subsection \<open>The parse loop\<close>

definition Parser_init :: Parser where
  "Parser_init = \<lparr>r_data = [], r_len = 0, r_bytesRead = 0, r_bytePos = 0, r_parse = fixedHeader,
     r_packet = \<lparr>i_packetType = 0, i_remainingLength = 0, i_topicLength = 0, i_topic = replicate 129 0,
       i_packetId = 0, i_data = NullPtr, i_length = 0, i_index = 0, i_total = 0\<rparr>,
     r_payloadBuffer = replicate 32 0\<rparr>"

definition Parser_reset :: "Parser \<Rightarrow> Parser" where
  "Parser_reset p =
     upd IncomingPacket_reset (p\<lparr>r_parse := fixedHeader, r_bytesRead := 0, r_bytePos := 0\<rparr>)"

lemmas step_defs =
  Parser_fixedHeader_def Parser_remainingLengthFixed_def Parser_remainingLengthNone_def
  Parser_remainingLengthVariable_def Parser_varHeaderConnack1_def Parser_varHeaderConnack2_def
  Parser_varHeaderPacketId1_def Parser_varHeaderPacketId2_def Parser_varHeaderTopicLength1_def
  Parser_varHeaderTopicLength2_def Parser_varHeaderTopic_def Parser_payloadSuback_def
  Parser_payloadPublish_def

text \<open>Only the handler of the payload moves in the input, and it ends the loop.\<close>

lemma step_input_post:
  "f \<noteq> payloadPublish \<Longrightarrow> post (Parser_step f p) (\<lambda>(r, p').
     r_data p' = r_data p \<and> r_len p' = r_len p \<and> r_bytesRead p' = r_bytesRead p)"
  by (cases f) (simp_all add: step_defs wp upd_def Let_def post_trivial)

lemma step_input:
  assumes "Parser_step f p = Some (r, p')" and "f \<noteq> payloadPublish"
  shows "r_data p' = r_data p \<and> r_len p' = r_len p \<and> r_bytesRead p' = r_bytesRead p"
  using step_input_post [OF assms(2)] assms(1) by (simp add: post_def)

lemma step_awaitData:
  assumes "Parser_step f p = Some (awaitData, p')"
  shows "f \<noteq> payloadPublish"
  using assms by (auto simp: Parser_payloadPublish_def Let_def split: if_splits)

function Parser_loop :: "Parser \<Rightarrow> step" where
  "Parser_loop p =
     (if r_bytesRead p < r_len p then
        (case Parser_step (r_parse p) p of
           None \<Rightarrow> None
         | Some (result, p') \<Rightarrow>
             let p'' = p'\<lparr>r_bytesRead := r_bytesRead p' + 1\<rparr>
             in if result = awaitData then Parser_loop p'' else Some (result, p''))
      else Some (awaitData, p))"
  by pat_completeness auto
termination
proof (relation "measure (\<lambda>p. unat (r_len p) - unat (r_bytesRead p))")
  fix p x2 x y p''
  assume less: "r_bytesRead p < r_len p" and step: "Parser_step (r_parse p) p = Some x2"
    and x: "(x, y) = x2" and p'': "p'' = y\<lparr>r_bytesRead := r_bytesRead y + 1\<rparr>" and r: "x = awaitData"
  have "Parser_step (r_parse p) p = Some (awaitData, y)"
    using step x r by simp
  then have "r_len y = r_len p \<and> r_bytesRead y = r_bytesRead p"
    using step_input step_awaitData by blast
  moreover have "unat (r_bytesRead p + 1) = unat (r_bytesRead p) + 1"
    using less by (simp add: word_less_nat_alt unat_word_ariths)
      (metis One_nat_def Suc_leI le_less_trans mod_less unsigned_less add.commute plus_1_eq_Suc
        len_num1 less_trans_Suc u32_bound)
  ultimately show "(p'', p) \<in> measure (\<lambda>p. unat (r_len p) - unat (r_bytesRead p))"
    using less by (simp add: p'' word_less_nat_alt)
qed simp

declare Parser_loop.simps [simp del]

definition Parser_parse :: "u8 list \<Rightarrow> size_t \<Rightarrow> Parser \<Rightarrow> (ParserResult \<times> size_t \<times> Parser) option" where
  "Parser_parse data len p = do {
     (result, p) \<leftarrow> Parser_loop (p\<lparr>r_data := data, r_len := len, r_bytesRead := 0\<rparr>);
     Some (result, r_bytesRead p, p)
   }"

text \<open>What a reader of \<open>payload.length\<close> bytes from \<open>payload.data\<close> gets to see.\<close>

definition Parser_payload :: "Parser \<Rightarrow> u8 list option" where
  "Parser_payload p =
     (case i_data (r_packet p) of
        NullPtr \<Rightarrow> if i_length (r_packet p) = 0 then Some [] else None
      | PayloadBuffer \<Rightarrow> region (r_payloadBuffer p) 0 (unat (i_length (r_packet p)))
      | Input off \<Rightarrow> region (r_data p) (unat off) (unat (i_length (r_packet p))))"


subsection \<open>The parser never leaves its buffers\<close>

abbreviation typeBits :: "Parser \<Rightarrow> u8" where
  "typeBits p \<equiv> packetType p AND 0xF0"

text \<open>No payload of the current packet has been delivered yet.\<close>

definition idle :: "IncomingPacket \<Rightarrow> bool" where
  "idle i \<longleftrightarrow> i_index i = 0 \<and> i_length i = 0"

definition packet_id_inv :: "Parser \<Rightarrow> bool" where
  "packet_id_inv p \<longleftrightarrow>
     (typeBits p = SUBACK \<longrightarrow> 0 < i_total (r_packet p) \<and> i_total (r_packet p) < 32 \<and> r_bytePos p = 0) \<and>
     (typeBits p = PUBLISH \<longrightarrow> idle (r_packet p))"

fun state_inv :: "ParserFunc \<Rightarrow> Parser \<Rightarrow> bool" where
  "state_inv fixedHeader p = True"
| "state_inv remainingLengthFixed p = (typeBits p \<noteq> SUBACK \<and> typeBits p \<noteq> PUBLISH)"
| "state_inv remainingLengthNone p = (packetType p = PINGRESP)"
| "state_inv remainingLengthVariable p =
     ((typeBits p = SUBACK \<or> typeBits p = PUBLISH \<and> idle (r_packet p)) \<and> unat (r_bytePos p) < 4)"
| "state_inv varHeaderConnack1 p = (typeBits p = CONNACK)"
| "state_inv varHeaderConnack2 p = (typeBits p = CONNACK)"
| "state_inv varHeaderPacketId1 p = packet_id_inv p"
| "state_inv varHeaderPacketId2 p = packet_id_inv p"
| "state_inv varHeaderTopicLength1 p = (typeBits p = PUBLISH \<and> idle (r_packet p))"
| "state_inv varHeaderTopicLength2 p = (typeBits p = PUBLISH \<and> idle (r_packet p))"
| "state_inv varHeaderTopic p =
     (typeBits p = PUBLISH \<and> idle (r_packet p) \<and> r_bytePos p < EMC_MAX_TOPIC_LENGTH)"
| "state_inv payloadSuback p =
     (typeBits p = SUBACK \<and> r_bytePos p < i_total (r_packet p) \<and> i_total (r_packet p) < 32)"
| "state_inv payloadPublish p =
     (typeBits p = PUBLISH \<and>
      unat (i_index (r_packet p)) + unat (i_length (r_packet p)) < unat (i_total (r_packet p)))"

definition parser_wf :: "Parser \<Rightarrow> bool" where
  "parser_wf p \<longleftrightarrow> length (i_topic (r_packet p)) = 129 \<and> length (r_payloadBuffer p) = 32"

definition parser_inv :: "Parser \<Rightarrow> bool" where
  "parser_inv p \<longleftrightarrow> parser_wf p \<and> state_inv (r_parse p) p"

lemma parser_init_inv: "parser_inv Parser_init"
  by (simp add: parser_inv_def parser_wf_def Parser_init_def)

lemma parser_reset_inv: "parser_wf p \<Longrightarrow> parser_inv (Parser_reset p)"
  by (simp add: parser_inv_def parser_wf_def Parser_reset_def upd_def IncomingPacket_reset_def)

subsubsection \<open>The raw length bytes\<close>

lemma rawBytes_nth: "i < 4 \<Longrightarrow> rawBytes w ! i = rawGet w i"
  by (auto simp: rawBytes_def less_Suc_eq numeral_eq_Suc)

lemma length_rawBytes [simp]: "length (rawBytes w) = 4"
  by (simp add: rawBytes_def)

lemma rawGet_rawSet:
  assumes "i < 4" and "j < 4" and "rawSet w i b = Some w'"
  shows "rawGet w' j = (if j = i then b else rawGet w j)"
proof -
  have w': "w' = (w AND NOT (push_bit (8 * i) 0xFF)) OR push_bit (8 * i) (ucast b)"
    using assms by (simp add: rawSet_def)
  show ?thesis
  proof (rule bit_word_eqI)
    fix n assume n: "n < LENGTH(8)"
    have "i = 0 \<or> i = 1 \<or> i = 2 \<or> i = 3" and "j = 0 \<or> j = 1 \<or> j = 2 \<or> j = 3"
      using assms(1,2) by auto
    then show "bit (rawGet w' j) n = bit (if j = i then b else rawGet w j) n"
      using n by (auto simp: rawGet_def w' bit_simps mask8 dest: bit_imp_le_length)
  qed
qed

lemma rawSet_Some: "i < 4 \<Longrightarrow> \<exists>w'. rawSet w i b = Some w'"
  by (simp add: rawSet_def)

lemma decode_raw:
  assumes "i < 4" and "rawGet w i AND 0x80 = 0"
  shows "\<exists>n. decodeRemainingLength (rawBytes w) = Some n \<and> 0 \<le> n \<and> n \<le> 268435455"
proof -
  have "rawGet w i \<in> set (rawBytes w)"
    using assms(1) by (metis length_rawBytes nth_mem rawBytes_nth)
  then obtain n where n: "decodeRemainingLength (rawBytes w) = Some n"
    using decode_total [of "rawBytes w"] assms(2) by (auto simp: continues_def)
  moreover have "n \<noteq> -1"
    using n decode_loop_error [of 0 "rawBytes w"] by (auto simp: decodeRemainingLength_def)
  ultimately show ?thesis
    using decode_range [OF n] by (auto simp: length_or_error_def)
qed


subsubsection \<open>Every handler is safe\<close>

text \<open>There is a byte to read; and what a handler may do with it.\<close>

definition has_byte :: "Parser \<Rightarrow> bool" where
  "has_byte p \<longleftrightarrow> unat (r_len p) \<le> length (r_data p) \<and> r_bytesRead p < r_len p"

definition step_result :: "Parser \<Rightarrow> ParserResult \<times> Parser \<Rightarrow> bool" where
  "step_result p = (\<lambda>(r, p'). parser_wf p' \<and> (r \<noteq> protocolError \<longrightarrow> parser_inv p') \<and>
     r_data p' = r_data p \<and> r_len p' = r_len p \<and>
     r_bytesRead p \<le> r_bytesRead p' \<and> r_bytesRead p' < r_len p)"

lemma Parser_byte_has [wp]:
  "has_byte p \<Longrightarrow> ok (Parser_byte p) P = P (r_data p ! unat (r_bytesRead p))"
  by (simp add: has_byte_def Parser_byte_def wp word_less_nat_alt)

lemmas safety_defs = step_result_def parser_inv_def parser_wf_def upd_def idle_def packet_id_inv_def
  IncomingPacket_reset_def setSessionPresent_def setReturnCode_def Let_def

lemma bytesRead_below [simp]: "has_byte p \<Longrightarrow> r_bytesRead p < r_len p"
  by (simp add: has_byte_def)

lemma safe_fixedHeader:
  assumes "parser_inv p" and "r_parse p = fixedHeader" and "has_byte p"
  shows "ok (Parser_fixedHeader p) (step_result p)"
proof -
  define b where "b = r_data p ! unat (r_bytesRead p)"
  have "b AND 0xF0 \<noteq> SUBACK \<and> b AND 0xF0 \<noteq> PUBLISH"
    if "b \<in> {CONNACK, PUBACK, PUBREC, PUBREL OR PUBREL_RESERVED, PUBCOMP, UNSUBACK}"
    using that by auto
  with assms show ?thesis
    by (simp add: Parser_fixedHeader_def wp safety_defs flip: b_def)
qed

lemma safe_fixed_none:
  assumes "parser_inv p" and "has_byte p"
  shows "r_parse p = remainingLengthFixed \<Longrightarrow> ok (Parser_remainingLengthFixed p) (step_result p)"
    and "r_parse p = remainingLengthNone \<Longrightarrow> ok (Parser_remainingLengthNone p) (step_result p)"
  using assms
  by (simp_all add: Parser_remainingLengthFixed_def Parser_remainingLengthNone_def wp safety_defs)

lemma payload_size:
  assumes "0 < sint (w :: u32)" and "sint w < 32"
  shows "of_int (sint w) = w" and "0 < w" and "w < 32"
proof -
  show eq: "of_int (sint w) = w" by simp
  obtain n where n: "sint w = int n" "0 < n" "n < 32"
    using assms by (metis nonneg_int_cases less_imp_le of_nat_0_less_iff of_nat_less_numeral_iff)
  with eq have w: "w = of_nat n" by (metis of_int_of_nat_eq)
  then have "unat w = n" using n by (simp add: unat_of_nat)
  with n show "0 < w" and "w < 32"
    by (simp_all add: word_less_nat_alt)
qed

lemma safe_variable:
  assumes inv: "parser_inv p" and st: "r_parse p = remainingLengthVariable" and "has_byte p"
  shows "ok (Parser_remainingLengthVariable p) (step_result p)"
proof -
  define b where "b = r_data p ! unat (r_bytesRead p)"
  have pos: "unat (r_bytePos p) < 4"
    using inv st by (simp add: parser_inv_def)
  obtain w where w: "rawSet (i_remainingLength (r_packet p)) (unat (r_bytePos p)) b = Some w"
    using rawSet_Some [OF pos] by blast
  have get: "rawGet w (unat (r_bytePos p)) = b"
    using rawGet_rawSet [OF pos pos w] by simp
  have next_pos: "unat (r_bytePos p + 1) < 4" if "r_bytePos p + 1 \<noteq> 4"
  proof -
    have "unat (r_bytePos p + 1) = unat (r_bytePos p) + 1"
      using pos by (subst unat_add_lem [THEN iffD1]) simp_all
    moreover have "unat (r_bytePos p + 1) \<noteq> 4"
      using that by (simp add: word_unat_eq_iff)
    ultimately show ?thesis using pos by simp
  qed
  show ?thesis
  proof (cases "b AND 0x80 = 0")
    case False
    then show ?thesis
      using assms next_pos
      by (simp add: Parser_remainingLengthVariable_def wp w get safety_defs flip: b_def)
  next
    case True
    then obtain n where n: "decodeRemainingLength (rawBytes w) = Some n"
      using decode_raw [OF pos, of w] get by auto
    then show ?thesis
      using assms True payload_size [of "of_int n - 2"]
      by (simp add: Parser_remainingLengthVariable_def wp w get n safety_defs flip: b_def) auto
  qed
qed


lemma safe_connack:
  assumes "parser_inv p" and "has_byte p"
  shows "r_parse p = varHeaderConnack1 \<Longrightarrow> ok (Parser_varHeaderConnack1 p) (step_result p)"
    and "r_parse p = varHeaderConnack2 \<Longrightarrow> ok (Parser_varHeaderConnack2 p) (step_result p)"
  using assms
  by (simp_all add: Parser_varHeaderConnack1_def Parser_varHeaderConnack2_def wp safety_defs)

lemma safe_packetId:
  assumes "parser_inv p" and "has_byte p"
  shows "r_parse p = varHeaderPacketId1 \<Longrightarrow> ok (Parser_varHeaderPacketId1 p) (step_result p)"
    and "r_parse p = varHeaderPacketId2 \<Longrightarrow> ok (Parser_varHeaderPacketId2 p) (step_result p)"
  using assms
  by (simp_all add: Parser_varHeaderPacketId1_def Parser_varHeaderPacketId2_def wp safety_defs unat_gt_0 word_gt_0)

lemma safe_topicLength:
  assumes "parser_inv p" and "has_byte p"
  shows "r_parse p = varHeaderTopicLength1 \<Longrightarrow> ok (Parser_varHeaderTopicLength1 p) (step_result p)"
    and "r_parse p = varHeaderTopicLength2 \<Longrightarrow> ok (Parser_varHeaderTopicLength2 p) (step_result p)"
  using assms
  by (simp_all add: Parser_varHeaderTopicLength1_def Parser_varHeaderTopicLength2_def wp safety_defs)

lemma next_index:
  assumes "(i :: u32) < n"
  shows "unat (i + 1) = unat i + 1" and "i + 1 \<noteq> n \<Longrightarrow> i + 1 < n"
proof -
  have "unat i < unat n" using assms by (simp add: word_less_nat_alt)
  moreover have "unat n < 4294967296" by (rule u32_bound)
  ultimately show eq: "unat (i + 1) = unat i + 1"
    by (subst unat_add_lem [THEN iffD1]) simp_all
  with \<open>unat i < unat n\<close> show "i + 1 \<noteq> n \<Longrightarrow> i + 1 < n"
    by (metis Suc_eq_plus1 Suc_leI order.not_eq_order_implies_strict word_le_nat_alt)
qed

lemma safe_topic:
  assumes inv: "parser_inv p" and st: "r_parse p = varHeaderTopic" and "has_byte p"
  shows "ok (Parser_varHeaderTopic p) (step_result p)"
proof -
  have pos: "r_bytePos p < EMC_MAX_TOPIC_LENGTH"
    using inv st by (simp add: parser_inv_def)
  then have "unat (r_bytePos p) < 128"
    by (simp add: word_less_nat_alt)
  with assms pos next_index [OF pos] show ?thesis
    by (simp add: Parser_varHeaderTopic_def wp safety_defs unat_gt_0)
qed

lemma safe_suback:
  assumes inv: "parser_inv p" and st: "r_parse p = payloadSuback" and "has_byte p"
  shows "ok (Parser_payloadSuback p) (step_result p)"
proof -
  have pos: "r_bytePos p < i_total (r_packet p)"
    using inv st by (simp add: parser_inv_def)
  moreover from this have "unat (r_bytePos p) < 32"
    using inv st by (simp add: parser_inv_def word_less_nat_alt)
  ultimately show ?thesis
    using assms next_index [OF pos]
    by (simp add: Parser_payloadSuback_def wp safety_defs)
qed

text \<open>
  The payload handler takes what the input still holds, or what the packet still needs, whichever
  is less; it is at least one byte.
\<close>

lemma payloadPublish_chunk:
  fixes p
  defines "i \<equiv> r_packet p"
  defines "n \<equiv> min (unat (r_len p) - unat (r_bytesRead p))
      (unat (i_total i) - (unat (i_index i) + unat (i_length i)))"
  assumes inv: "parser_inv p" and st: "r_parse p = payloadPublish" and byte: "has_byte p"
  shows "0 < n" and "unat (r_bytesRead p) + n \<le> unat (r_len p)"
    and "Parser_payloadPublish p = Some (packet, p
      \<lparr>r_packet := i\<lparr>i_index := i_index i + i_length i, i_data := Input (r_bytesRead p), i_length := of_nat n\<rparr>,
       r_bytesRead := r_bytesRead p + (of_nat n - 1),
       r_parse := if unat (i_index i) + unat (i_length i) + n = unat (i_total i)
                  then fixedHeader else payloadPublish\<rparr>)"
    and "unat (r_bytesRead p + (of_nat n - 1)) = unat (r_bytesRead p) + n - 1"
    and "unat (i_index i + i_length i) = unat (i_index i) + unat (i_length i)"
    and "unat (of_nat n :: u32) = n"
    and "unat (i_index i) + unat (i_length i) + n \<le> unat (i_total i)"
proof -
  have sum: "unat (i_index i) + unat (i_length i) < unat (i_total i)"
    using inv st by (simp add: parser_inv_def i_def)
  have less: "unat (r_bytesRead p) < unat (r_len p)"
    using byte by (simp add: has_byte_def word_less_nat_alt)
  have bounds: "unat (r_len p) < 4294967296" "unat (i_total i) < 4294967296"
    by (rule u32_bound)+
  show n_pos: "0 < n"
    using sum less by (simp add: n_def)
  show in_len: "unat (r_bytesRead p) + n \<le> unat (r_len p)"
    using less by (simp add: n_def)
  show index: "unat (i_index i + i_length i) = unat (i_index i) + unat (i_length i)"
    using sum bounds by (subst unat_add_lem [THEN iffD1]) simp_all
  show n_val: "unat (of_nat n :: u32) = n"
    using in_len bounds by (intro unat_of_nat32) simp
  have left: "unat (r_len p - r_bytesRead p) = unat (r_len p) - unat (r_bytesRead p)"
    using less by (intro unat_sub) (simp add: word_le_nat_alt)
  have need: "unat (i_total i - (i_index i + i_length i)) =
      unat (i_total i) - (unat (i_index i) + unat (i_length i))"
    using sum by (subst unat_sub) (simp_all add: word_le_nat_alt index)
  have n_eq: "min (r_len p - r_bytesRead p) (i_total i - (i_index i + i_length i)) = of_nat n"
    unfolding word_unat_eq_iff n_val
    by (simp add: n_def min_def word_le_nat_alt left need)
  show n_need: "unat (i_index i) + unat (i_length i) + n \<le> unat (i_total i)"
    using sum by (simp add: n_def)
  then have "unat (i_index i + i_length i + of_nat n) = unat (i_index i) + unat (i_length i) + n"
    using bounds(2) by (subst unat_add_lem [THEN iffD1]) (simp_all only: index n_val, simp)
  then have complete: "i_index i + i_length i + of_nat n = i_total i \<longleftrightarrow>
      unat (i_index i) + unat (i_length i) + n = unat (i_total i)"
    by (simp add: word_unat_eq_iff)
  show "Parser_payloadPublish p = Some (packet, p
      \<lparr>r_packet := i\<lparr>i_index := i_index i + i_length i, i_data := Input (r_bytesRead p), i_length := of_nat n\<rparr>,
       r_bytesRead := r_bytesRead p + (of_nat n - 1),
       r_parse := if unat (i_index i) + unat (i_length i) + n = unat (i_total i)
                  then fixedHeader else payloadPublish\<rparr>)"
    using st complete n_eq by (simp add: Parser_payloadPublish_def upd_def Let_def flip: i_def)
  have "unat (of_nat n - 1 :: u32) = n - 1"
    using n_pos n_val by (subst unat_sub) (simp_all add: word_le_nat_alt)
  then show "unat (r_bytesRead p + (of_nat n - 1)) = unat (r_bytesRead p) + n - 1"
    using n_pos in_len bounds by (subst unat_add_lem [THEN iffD1]) simp_all
qed

lemma safe_payloadPublish:
  assumes inv: "parser_inv p" and st: "r_parse p = payloadPublish" and byte: "has_byte p"
  shows "ok (Parser_payloadPublish p) (step_result p)"
proof -
  note chunk = payloadPublish_chunk [OF assms]
  define n where "n = min (unat (r_len p) - unat (r_bytesRead p))
      (unat (i_total (r_packet p)) - (unat (i_index (r_packet p)) + unat (i_length (r_packet p))))"
  note chunk' = chunk [folded n_def]
  show ?thesis
    unfolding chunk'(3) using inv st chunk'(1,2,4-7) byte
    by (auto simp: wp step_result_def parser_inv_def parser_wf_def has_byte_def
        word_le_nat_alt word_less_nat_alt)
qed

lemma step_safe:
  assumes "parser_inv p" and "has_byte p"
  shows "ok (Parser_step (r_parse p) p) (step_result p)"
  using safe_fixedHeader safe_fixed_none safe_variable safe_connack safe_packetId safe_topicLength
    safe_topic safe_suback safe_payloadPublish assms
  by (cases "r_parse p") simp_all


subsubsection \<open>So is the loop\<close>

definition loop_result :: "Parser \<Rightarrow> ParserResult \<times> Parser \<Rightarrow> bool" where
  "loop_result p = (\<lambda>(r, p'). parser_wf p' \<and> (r \<noteq> protocolError \<longrightarrow> parser_inv p') \<and>
     r_data p' = r_data p \<and> r_len p' = r_len p \<and>
     r_bytesRead p \<le> r_bytesRead p' \<and> r_bytesRead p' \<le> r_len p \<and>
     (r_bytesRead p < r_len p \<longrightarrow> r_bytesRead p < r_bytesRead p') \<and>
     (r = awaitData \<longrightarrow> r_bytesRead p' = r_len p))"

lemma parser_inv_bytesRead [simp]: "parser_inv (p\<lparr>r_bytesRead := n\<rparr>) = parser_inv p"
  by (cases "r_parse p") (simp_all add: parser_inv_def parser_wf_def packet_id_inv_def)

lemma parser_wf_bytesRead [simp]: "parser_wf (p\<lparr>r_bytesRead := n\<rparr>) = parser_wf p"
  by (simp add: parser_wf_def)

lemma word_succ_le: "(i :: u32) < n \<Longrightarrow> i < i + 1 \<and> i + 1 \<le> n"
  using next_index(1) [of i n] by (simp add: word_less_nat_alt word_le_nat_alt)

lemma loop_safe:
  "parser_inv p \<Longrightarrow> unat (r_len p) \<le> length (r_data p) \<Longrightarrow> r_bytesRead p \<le> r_len p \<Longrightarrow>
   ok (Parser_loop p) (loop_result p)"
proof (induction p rule: Parser_loop.induct)
  case (1 p)
  show ?case
  proof (cases "r_bytesRead p < r_len p")
    case False
    then have "r_bytesRead p = r_len p" using 1(4) by simp
    with 1(2) show ?thesis
      by (subst Parser_loop.simps) (simp add: wp loop_result_def parser_inv_def)
  next
    case True
    then have "has_byte p" using 1(3) by (simp add: has_byte_def)
    with step_safe [OF 1(2)] obtain r p' where step: "Parser_step (r_parse p) p = Some (r, p')"
      and res: "step_result p (r, p')"
      by (auto simp: ok_def)
    let ?q = "p'\<lparr>r_bytesRead := r_bytesRead p' + 1\<rparr>"
    from res have below: "r_bytesRead p' < r_len p" "r_bytesRead p \<le> r_bytesRead p'"
      by (auto simp: step_result_def)
    have next_le: "r_bytesRead p < r_bytesRead p' + 1" "r_bytesRead p' + 1 \<le> r_len p"
      using word_succ_le [OF below(1)] below(2) by auto
    show ?thesis
    proof (cases "r = awaitData")
      case False
      then have "Parser_loop p = Some (r, ?q)"
        using step True by (subst Parser_loop.simps) simp
      with res next_le False show ?thesis
        by (auto simp: wp loop_result_def step_result_def)
    next
      case await: True
      then have loop: "Parser_loop p = Parser_loop ?q"
        using step True by (subst Parser_loop.simps) simp
      have "ok (Parser_loop ?q) (loop_result ?q)"
        using 1(1) [OF True step refl refl await] res next_le await 1(3)
        by (simp add: step_result_def)
      then show ?thesis
        unfolding loop by (rule ok_mono) (use res next_le in \<open>auto simp: loop_result_def step_result_def\<close>)
    qed
  qed
qed

lemma parser_inv_input [simp]:
  "parser_inv (p\<lparr>r_data := d, r_len := n\<rparr>) = parser_inv p"
  by (cases "r_parse p") (simp_all add: parser_inv_def parser_wf_def packet_id_inv_def)

text \<open>What a call of \<open>parse\<close> may leave.\<close>

definition parse_result :: "size_t \<Rightarrow> ParserResult \<times> size_t \<times> Parser \<Rightarrow> bool" where
  "parse_result len = (\<lambda>(r, n, p'). n \<le> len \<and> (0 < len \<longrightarrow> 0 < n) \<and> (r = awaitData \<longrightarrow> n = len) \<and>
     parser_wf p' \<and> (r \<noteq> protocolError \<longrightarrow> parser_inv p') \<and> parser_inv (Parser_reset p'))"

lemma parse_safe:
  assumes "parser_inv p" and "unat len \<le> length data"
  shows "ok (Parser_parse data len p) (parse_result len)"
proof -
  have "ok (Parser_loop (p\<lparr>r_data := data, r_len := len, r_bytesRead := 0\<rparr>))
      (loop_result (p\<lparr>r_data := data, r_len := len, r_bytesRead := 0\<rparr>))"
    using assms by (intro loop_safe) simp_all
  then obtain r p' where "Parser_loop (p\<lparr>r_data := data, r_len := len, r_bytesRead := 0\<rparr>) = Some (r, p')"
    and "loop_result (p\<lparr>r_data := data, r_len := len, r_bytesRead := 0\<rparr>) (r, p')"
    by (auto simp: ok_def)
  then show ?thesis
    by (auto simp: Parser_parse_def wp loop_result_def parse_result_def parser_reset_inv)
qed

end
