(* ===== verification/StringUtil.thy ===== *)
theory StringUtil
  imports Prelude
begin

text \<open>
  \<open>src/src/Packets/StringUtil.cpp\<close>: length-prefixed strings. As for the remaining length, the
  destination pointer is the list of bytes stored there; the return value is its length.
\<close>

definition encodeString :: "cstring \<Rightarrow> u8 list" where
  "encodeString source =
     (if length source > 65535 then []
      else [hi8 (of_nat (length source)), lo8 (of_nat (length source))] @ source)"

text \<open>\<open>strlen\<close> of a memory region that may hold no terminating zero: then it runs off the region.\<close>

definition strlen :: "u8 list \<Rightarrow> nat option" where
  "strlen mem = (if 0 \<in> set mem then Some (length (takeWhile (\<lambda>b. b \<noteq> 0) mem)) else None)"

lemma length_encodeString [simp]:
  "length s \<le> 65535 \<Longrightarrow> length (encodeString s) = 2 + length s"
  by (simp add: encodeString_def)

lemma strlen_bound: "strlen mem = Some n \<Longrightarrow> n < length mem"
proof -
  assume "strlen mem = Some n"
  then have z: "0 \<in> set mem" and n: "n = length (takeWhile (\<lambda>b. b \<noteq> 0) mem)"
    by (auto simp: strlen_def split: if_splits)
  from z have "takeWhile (\<lambda>b. b \<noteq> 0) mem \<noteq> mem"
    by (metis (mono_tags, lifting) set_takeWhileD)
  then show ?thesis
    by (metis n length_takeWhile_le linorder_le_less_linear order.order_iff_strict
        takeWhile_eq_take take_all)
qed

text \<open>The stored prefix, read back as the receiver does, is the number of bytes that follow.\<close>

lemma encodeString_prefix:
  "length s \<le> 65535 \<Longrightarrow> \<exists>h l. encodeString s = h # l # s \<and> unat (be16 h l) = length s"
  by (simp add: encodeString_def unat_of_nat16)

lemma encodeString_long: "65535 < length s \<Longrightarrow> encodeString s = []"
  by (simp add: encodeString_def)

end
