(* ===== verification/WireFormat.thy ===== *)
theory WireFormat
  imports Constants RemainingLength StringUtil
begin

text \<open>
  The reference encoding of MQTT 3.1.1 packets, as whole byte strings: what the packet
  constructors are proved to produce, and what the parser is proved to read. Nothing here is
  translated from the code.
\<close>

definition wire_u16 :: "u16 \<Rightarrow> u8 list" where
  "wire_u16 w = [hi8 w, lo8 w]"

definition wire_string :: "cstring \<Rightarrow> u8 list" where
  "wire_string s = wire_u16 (of_nat (length s)) @ s"

definition wire_packet :: "u8 \<Rightarrow> u8 list \<Rightarrow> u8 list" where
  "wire_packet header body = header # encodeRemainingLength (of_nat (length body)) @ body"

text \<open>A body short enough for the four length bytes.\<close>

definition fits :: "u8 list \<Rightarrow> bool" where
  "fits body \<longleftrightarrow> length body \<le> 268435455"

definition publish_header :: "bool \<Rightarrow> u8 \<Rightarrow> bool \<Rightarrow> u8" where
  "publish_header dup qos retain =
     PUBLISH OR (if dup then 0x08 else 0) OR push_bit 1 qos OR (if retain then 0x01 else 0)"

definition publish_body :: "u16 \<Rightarrow> cstring \<Rightarrow> u8 list \<Rightarrow> u8 \<Rightarrow> u8 list" where
  "publish_body packetId topic payload qos =
     wire_string topic @ (if qos = 0 then [] else wire_u16 packetId) @ payload"

definition wire_publish ::
    "bool \<Rightarrow> u16 \<Rightarrow> cstring \<Rightarrow> u8 list \<Rightarrow> u8 \<Rightarrow> bool \<Rightarrow> u8 list" where
  "wire_publish dup packetId topic payload qos retain =
     wire_packet (publish_header dup qos retain) (publish_body packetId topic payload qos)"

definition subscribe_body :: "u16 \<Rightarrow> (cstring \<times> u8) list \<Rightarrow> u8 list" where
  "subscribe_body packetId items =
     wire_u16 packetId @ concat (map (\<lambda>(topic, qos). wire_string topic @ [qos]) items)"

definition unsubscribe_body :: "u16 \<Rightarrow> cstring list \<Rightarrow> u8 list" where
  "unsubscribe_body packetId topics = wire_u16 packetId @ concat (map wire_string topics)"

definition wire_ack :: "u8 \<Rightarrow> u16 \<Rightarrow> u8 list" where
  "wire_ack type packetId =
     wire_packet (if type = PUBREL then PUBREL OR PUBREL_RESERVED else type) (wire_u16 packetId)"

definition optional_string :: "cstring option \<Rightarrow> u8 list" where
  "optional_string str = (case str of None \<Rightarrow> [] | Some c \<Rightarrow> wire_string c)"

definition will_body :: "(cstring \<times> u8 list) option \<Rightarrow> u8 list" where
  "will_body w = (case w of None \<Rightarrow> [] | Some (topic, payload) \<Rightarrow> wire_string topic @ wire_string payload)"

definition connect_flags :: "bool \<Rightarrow> bool \<Rightarrow> bool \<Rightarrow> bool \<Rightarrow> bool \<Rightarrow> u8 \<Rightarrow> u8" where
  "connect_flags cleanSession hasUsername hasPassword hasWill willRetain willQos =
     2 * of_bool cleanSession + (if hasWill then 4 + 8 * willQos + 32 * of_bool willRetain else 0) +
     64 * of_bool hasPassword + 128 * of_bool hasUsername"

definition connect_body ::
    "u8 \<Rightarrow> u16 \<Rightarrow> cstring \<Rightarrow> (cstring \<times> u8 list) option \<Rightarrow> cstring option \<Rightarrow> cstring option \<Rightarrow> u8 list"
where
  "connect_body flags keepAlive clientId w username password =
     wire_string PROTOCOL @ [PROTOCOL_LEVEL, flags] @ wire_u16 keepAlive @
     wire_string clientId @ will_body w @ optional_string username @ optional_string password"

lemma length_wire_u16 [simp]: "length (wire_u16 w) = 2"
  by (simp add: wire_u16_def)

lemma length_wire_string [simp]: "length (wire_string s) = 2 + length s"
  by (simp add: wire_string_def)

lemma encodeString_wire [simp]: "length s \<le> 65535 \<Longrightarrow> encodeString s = wire_string s"
  by (simp add: encodeString_def wire_string_def wire_u16_def)

lemma fits_word: "fits body \<Longrightarrow> (of_nat (length body) :: u32) \<le> 268435455"
  by (simp add: fits_def word_le_nat_alt unat_of_nat32)

lemma fits_unat: "fits body \<Longrightarrow> unat (of_nat (length body) :: u32) = length body"
  by (simp add: fits_def unat_of_nat32)

lemma length_publish_body:
  "length (publish_body packetId topic payload qos) =
     2 + length topic + (if qos = 0 then 0 else 2) + length payload"
  by (simp add: publish_body_def)

lemma length_wire_packet:
  "length (wire_packet h body) =
     1 + length (encodeRemainingLength (of_nat (length body))) + length body"
  by (simp add: wire_packet_def)

end
