(* ===== verification/ParserSpec.thy ===== *)
theory ParserSpec
  imports Parser WireFormat
begin

text \<open>
  The parser as a function on byte lists, and that the indexed loop of the code computes it. With
  this, whatever is proved about lists holds of the code, however the input is cut into buffers.
\<close>

subsection \<open>A reference parser on lists\<close>

text \<open>
  \<open>erase\<close> drops what belongs to one call of \<open>parse\<close>: the input and the position in it. The
  reference parser works on erased states.
\<close>

definition erasePtr :: "DataPtr \<Rightarrow> DataPtr" where
  "erasePtr d = (case d of Input off \<Rightarrow> Input 0 | _ \<Rightarrow> d)"

definition erase :: "Parser \<Rightarrow> Parser" where
  "erase p = p\<lparr>r_data := [], r_len := 0, r_bytesRead := 0,
     r_packet := (r_packet p)\<lparr>i_data := erasePtr (i_data (r_packet p))\<rparr>\<rparr>"

definition feed :: "u8 \<Rightarrow> Parser \<Rightarrow> step" where
  "feed b p = map_option (\<lambda>(r, p'). (r, erase p'))
     (Parser_step (r_parse p) (p\<lparr>r_data := [b], r_len := 1, r_bytesRead := 0\<rparr>))"

definition chunk :: "nat \<Rightarrow> Parser \<Rightarrow> Parser" where
  "chunk n p = (let i = r_packet p in
     p\<lparr>r_packet := i\<lparr>i_index := i_index i + i_length i, i_data := Input 0, i_length := of_nat n\<rparr>,
       r_parse := if unat (i_index i) + unat (i_length i) + n = unat (i_total i)
                  then fixedHeader else payloadPublish\<rparr>)"

text \<open>How many payload bytes the current PUBLISH still needs.\<close>

definition needed :: "Parser \<Rightarrow> nat" where
  "needed p = (let i = r_packet p in unat (i_total i) - (unat (i_index i) + unat (i_length i)))"

fun feeds :: "u8 list \<Rightarrow> Parser \<Rightarrow> (ParserResult \<times> u8 list \<times> Parser) option" where
  "feeds [] p = Some (awaitData, [], p)"
| "feeds (b # bs) p =
     (if r_parse p = payloadPublish then
        (let n = min (length (b # bs)) (needed p) in Some (packet, drop n (b # bs), chunk n p))
      else (case feed b p of
              None \<Rightarrow> None
            | Some (r, p') \<Rightarrow> if r = awaitData then feeds bs p' else Some (r, bs, p')))"

text \<open>Cutting the input changes nothing, as long as the first part does not complete a result.\<close>

lemma feeds_append:
  "feeds xs p = Some (awaitData, zs, p') \<Longrightarrow> zs = [] \<and> feeds (xs @ ys) p = feeds ys p'"
  by (induction xs arbitrary: p)
    (auto simp: Let_def split: if_splits option.splits prod.splits)

subsection \<open>A handler only sees the current byte\<close>

definition agree :: "step \<Rightarrow> step \<Rightarrow> bool" where
  "agree m n \<longleftrightarrow> map_option (\<lambda>(r, p). (r, erase p)) m = map_option (\<lambda>(r, p). (r, erase p)) n"

lemma agree_Some: "agree (Some (r, p)) (Some (s, q)) \<longleftrightarrow> r = s \<and> erase p = erase q"
  by (simp add: agree_def)

lemma agree_bind: "(\<And>x. agree (f x) (g x)) \<Longrightarrow> agree (Option.bind m f) (Option.bind m g)"
  by (cases m) (auto simp: agree_def)

lemma agree_if:
  "(b \<Longrightarrow> agree m m') \<Longrightarrow> (\<not> b \<Longrightarrow> agree n n') \<Longrightarrow> agree (if b then m else n) (if b then m' else n')"
  by simp

lemma agree_step:
  assumes "f \<noteq> payloadPublish" and "erasePtr d = erasePtr (i_data (r_packet p))"
    and "Parser_byte p = Some b"
    and "Parser_byte (p\<lparr>r_data := data, r_len := len, r_bytesRead := m,
      r_packet := (r_packet p)\<lparr>i_data := d\<rparr>\<rparr>) = Some b"
  shows "agree (Parser_step f p) (Parser_step f (p\<lparr>r_data := data, r_len := len, r_bytesRead := m,
      r_packet := (r_packet p)\<lparr>i_data := d\<rparr>\<rparr>))"
  using assms
  by (cases f)
    (simp_all add: step_defs upd_def Let_def agree_Some erase_def IncomingPacket_reset_def
      setSessionPresent_def setReturnCode_def agree_bind cong: if_cong)


text \<open>The current byte, seen from the whole input and from an input of its own.\<close>

lemma erasePtr_simps [simp]:
  "erasePtr NullPtr = NullPtr" "erasePtr PayloadBuffer = PayloadBuffer" "erasePtr (Input n) = Input 0"
  by (simp_all add: erasePtr_def)

lemma step_feed:
  assumes "r_parse p \<noteq> payloadPublish" and "has_byte p"
  shows "map_option (\<lambda>(r, p'). (r, erase p')) (Parser_step (r_parse p) p) =
    feed (r_data p ! unat (r_bytesRead p)) (erase p)"
proof -
  let ?b = "r_data p ! unat (r_bytesRead p)"
  let ?q = "p\<lparr>r_data := [?b], r_len := 1, r_bytesRead := 0,
      r_packet := (r_packet p)\<lparr>i_data := erasePtr (i_data (r_packet p))\<rparr>\<rparr>"
  have idem: "erasePtr (erasePtr d) = erasePtr d" for d
    by (simp add: erasePtr_def split: DataPtr.splits)
  have "agree (Parser_step (r_parse p) p) (Parser_step (r_parse p) ?q)"
    using assms by (intro agree_step [OF assms(1), of _ _ ?b])
      (simp_all add: idem Parser_byte_def has_byte_def peek_def word_less_nat_alt)
  moreover have "(erase p)\<lparr>r_data := [?b], r_len := 1, r_bytesRead := 0\<rparr> = ?q"
    by (simp add: erase_def)
  ultimately show ?thesis
    by (simp add: agree_def feed_def) (simp add: erase_def)
qed

lemma needed_erase [simp]: "needed (erase p) = needed p"
  by (simp add: needed_def erase_def Let_def)

lemma r_parse_erase [simp]: "r_parse (erase p) = r_parse p"
  by (simp add: erase_def)

lemma erase_bytesRead [simp]: "erase (p\<lparr>r_bytesRead := n\<rparr>) = erase p"
  by (simp add: erase_def)

lemma erase_input [simp]: "erase (p\<lparr>r_data := d, r_len := l\<rparr>) = erase p"
  by (simp add: erase_def)

text \<open>What a PUBLISH that has just been completed or continued shows as its payload.\<close>

definition payload_ok :: "ParserResult \<Rightarrow> Parser \<Rightarrow> bool" where
  "payload_ok r p \<longleftrightarrow> (r = packet \<and> typeBits p = PUBLISH \<and> i_length (r_packet p) \<noteq> 0 \<longrightarrow>
     unat (i_length (r_packet p)) \<le> unat (r_bytesRead p) \<and>
     i_data (r_packet p) = Input (r_bytesRead p - i_length (r_packet p)))"

lemma header_packet_idle:
  assumes "parser_inv p" and "r_parse p \<noteq> payloadPublish"
    and "Parser_step (r_parse p) p = Some (packet, p')" and "typeBits p' = PUBLISH"
  shows "i_length (r_packet p') = 0"
proof -
  have "post (Parser_step (r_parse p) p)
      (\<lambda>(r, p'). r = packet \<longrightarrow> typeBits p' = PUBLISH \<longrightarrow> i_length (r_packet p') = 0)"
    using assms(1,2)
    by (cases "r_parse p") (simp_all add: step_defs wp upd_def Let_def parser_inv_def packet_id_inv_def
        idle_def post_trivial setReturnCode_def)
  with assms show ?thesis by (simp add: post_def)
qed

lemma chunk_step:
  assumes "parser_inv p" and "r_parse p = payloadPublish" and "has_byte p"
  obtains n p' where "n = min (unat (r_len p) - unat (r_bytesRead p)) (needed p)"
    and "Parser_step (r_parse p) p = Some (packet, p')"
    and "erase p' = chunk n (erase p)" and "payload_ok packet (p'\<lparr>r_bytesRead := r_bytesRead p' + 1\<rparr>)"
    and "unat (r_bytesRead p' + 1) = unat (r_bytesRead p) + n"
    and "unat (r_bytesRead p) + n \<le> unat (r_len p)"
proof -
  define n where "n = min (unat (r_len p) - unat (r_bytesRead p)) (needed p)"
  note facts = payloadPublish_chunk [OF assms]
  note facts = facts [folded needed_def [of p, unfolded Let_def], folded n_def]
  have le: "unat (r_bytesRead p) + n \<le> unat (r_len p)"
    by (rule facts(2))
  have val: "unat (of_nat n :: u32) = n"
    by (rule facts(6))
  have next_eq: "r_bytesRead p + (of_nat n - 1) + 1 = r_bytesRead p + of_nat n"
    by simp
  have next_pos: "unat (r_bytesRead p + of_nat n) = unat (r_bytesRead p) + n"
    using le u32_bound [of "r_len p"] val by (subst unat_add_lem [THEN iffD1]) simp_all
  define complete where "complete \<longleftrightarrow> unat (i_index (r_packet p)) + unat (i_length (r_packet p)) + n =
      unat (i_total (r_packet p))"
  define p' where "p' = p
      \<lparr>r_packet := (r_packet p)\<lparr>i_index := i_index (r_packet p) + i_length (r_packet p),
         i_data := Input (r_bytesRead p), i_length := of_nat n\<rparr>,
       r_bytesRead := r_bytesRead p + (of_nat n - 1),
       r_parse := if complete then fixedHeader else payloadPublish\<rparr>"
  have step: "Parser_step (r_parse p) p = Some (packet, p')"
    using assms(2) facts(3) by (simp add: p'_def complete_def)
  have erased: "erase p' = chunk n (erase p)"
    by (cases complete) (simp_all add: p'_def erase_def chunk_def erasePtr_def Let_def complete_def)
  have pay: "payload_ok packet (p'\<lparr>r_bytesRead := r_bytesRead p' + 1\<rparr>)"
    using le val next_pos by (simp add: payload_ok_def p'_def next_eq)
  have pos: "unat (r_bytesRead p' + 1) = unat (r_bytesRead p) + n"
    using next_pos by (simp add: p'_def next_eq)
  show thesis
    by (rule that [OF n_def step erased pay pos le])
qed


subsection \<open>The loop computes the reference parser\<close>

definition unread :: "Parser \<Rightarrow> u8 list" where
  "unread p = drop (unat (r_bytesRead p)) (take (unat (r_len p)) (r_data p))"

lemma unread_Cons:
  assumes "has_byte p"
  shows "unread p = r_data p ! unat (r_bytesRead p) #
    drop (unat (r_bytesRead p) + 1) (take (unat (r_len p)) (r_data p))"
  using assms
  by (simp add: unread_def has_byte_def word_less_nat_alt Cons_nth_drop_Suc [symmetric])

lemma length_unread: "unat (r_len p) \<le> length (r_data p) \<Longrightarrow>
    length (unread p) = unat (r_len p) - unat (r_bytesRead p)"
  by (simp add: unread_def)

lemma loop_feeds:
  "parser_inv p \<Longrightarrow> unat (r_len p) \<le> length (r_data p) \<Longrightarrow> r_bytesRead p \<le> r_len p \<Longrightarrow>
   \<exists>r p'. Parser_loop p = Some (r, p') \<and> feeds (unread p) (erase p) = Some (r, unread p', erase p') \<and>
     payload_ok r p'"
proof (induction p rule: Parser_loop.induct)
  case (1 p)
  show ?case
  proof (cases "r_bytesRead p < r_len p")
    case False
    then have "r_bytesRead p = r_len p" using 1(4) by simp
    then have "Parser_loop p = Some (awaitData, p)"
      by (subst Parser_loop.simps) simp
    moreover have "unread p = []"
      using \<open>r_bytesRead p = r_len p\<close> by (simp add: unread_def)
    ultimately show ?thesis by (simp add: payload_ok_def)
  next
    case True
    then have byte: "has_byte p" using 1(3) by (simp add: has_byte_def)
    with step_safe [OF 1(2)] obtain r p' where step: "Parser_step (r_parse p) p = Some (r, p')"
      and res: "step_result p (r, p')"
      by (auto simp: ok_def)
    let ?q = "p'\<lparr>r_bytesRead := r_bytesRead p' + 1\<rparr>"
    have same: "r_data p' = r_data p" "r_len p' = r_len p" "r_bytesRead p' < r_len p"
      using res by (auto simp: step_result_def)
    have loop: "Parser_loop p = (if r = awaitData then Parser_loop ?q else Some (r, ?q))"
      using step True by (subst Parser_loop.simps) simp
    show ?thesis
    proof (cases "r_parse p = payloadPublish")
      case True
      from chunk_step [OF 1(2) True byte] obtain n p'' where n: "n = min (unat (r_len p) - unat (r_bytesRead p)) (needed p)"
        and "Parser_step (r_parse p) p = Some (packet, p'')"
        and ch: "erase p'' = chunk n (erase p)" "payload_ok packet (p''\<lparr>r_bytesRead := r_bytesRead p'' + 1\<rparr>)"
          "unat (r_bytesRead p'' + 1) = unat (r_bytesRead p) + n"
        by metis
      with step have eq: "r = packet" "p'' = p'" by simp_all
      have "feeds (unread p) (erase p) = Some (packet, drop n (unread p), chunk n (erase p))"
        using True n length_unread [OF 1(3)] unread_Cons [OF byte] by (simp add: Let_def)
      moreover have "drop n (unread p) = unread ?q"
        using ch(3) same by (simp add: unread_def eq add.commute)
      ultimately show ?thesis
        using loop eq ch by simp
    next
      case False
      have pos: "r_bytesRead p' = r_bytesRead p"
        using step_input [OF step False] by simp
      have "feed (r_data p ! unat (r_bytesRead p)) (erase p) = Some (r, erase p')"
        using step_feed [OF False byte] step by simp
      moreover have rest: "unread ?q = drop (unat (r_bytesRead p) + 1) (take (unat (r_len p)) (r_data p))"
        using same pos next_index(1) [of "r_bytesRead p" "r_len p"] True by (simp add: unread_def)
      ultimately have fd: "feeds (unread p) (erase p) =
          (if r = awaitData then feeds (unread ?q) (erase ?q) else Some (r, unread ?q, erase ?q))"
        using False unread_Cons [OF byte] by simp
      show ?thesis
      proof (cases "r = awaitData")
        case await: True
        have "\<exists>r p'. Parser_loop ?q = Some (r, p') \<and>
            feeds (unread ?q) (erase ?q) = Some (r, unread p', erase p') \<and> payload_ok r p'"
          using 1(1) [OF True step refl refl await] res await 1(3) word_succ_le [OF same(3)]
          by (simp add: step_result_def)
        then show ?thesis using loop fd await by simp
      next
        case other: False
        have "payload_ok r ?q"
          using header_packet_idle [OF 1(2) False] step by (auto simp: payload_ok_def)
        then show ?thesis using loop fd other by simp
      qed
    qed
  qed
qed

lemma parse_feeds:
  assumes inv: "parser_inv p" and len: "unat len \<le> length data"
  obtains r n p' where "Parser_parse data len p = Some (r, n, p')" and "unat n \<le> unat len"
    and "feeds (take (unat len) data) (erase p) = Some (r, drop (unat n) (take (unat len) data), erase p')"
    and "r \<noteq> protocolError \<Longrightarrow> parser_inv p'" and "parser_inv (Parser_reset p')"
    and "r = packet \<Longrightarrow> typeBits p' = PUBLISH \<Longrightarrow> i_length (r_packet p') \<noteq> 0 \<Longrightarrow>
      unat (i_length (r_packet p')) \<le> unat n \<and>
      Parser_payload p' = Some (drop (unat n - unat (i_length (r_packet p'))) (take (unat n) data))"
proof -
  define q where "q = p\<lparr>r_data := data, r_len := len, r_bytesRead := 0\<rparr>"
  have "parser_inv q" "r_data q = data" "r_len q = len" "r_bytesRead q = 0" "erase q = erase p"
    using inv by (simp_all add: q_def)
  note q = this
  obtain r p' where loop: "Parser_loop q = Some (r, p')"
    and fd: "feeds (unread q) (erase q) = Some (r, unread p', erase p')" and pay: "payload_ok r p'"
    using loop_feeds [OF q(1)] q len by auto
  have parse: "Parser_parse data len p = Some (r, r_bytesRead p', p')"
    using loop by (simp add: Parser_parse_def q_def)
  have res: "loop_result q (r, p')"
    using loop_safe [OF q(1)] q len loop by (simp add: ok_def)
  then have same: "r_data p' = data" "r_len p' = len" "unat (r_bytesRead p') \<le> unat len"
    and inv': "r \<noteq> protocolError \<Longrightarrow> parser_inv p'" "parser_inv (Parser_reset p')"
    using q by (auto simp: loop_result_def word_le_nat_alt parser_reset_inv)
  have fd': "feeds (take (unat len) data) (erase p) =
      Some (r, drop (unat (r_bytesRead p')) (take (unat len) data), erase p')"
    using fd q same by (simp add: unread_def)
  have pl: "unat (i_length (r_packet p')) \<le> unat (r_bytesRead p') \<and>
      Parser_payload p' = Some (drop (unat (r_bytesRead p') - unat (i_length (r_packet p')))
        (take (unat (r_bytesRead p')) data))"
    if "r = packet" "typeBits p' = PUBLISH" "i_length (r_packet p') \<noteq> 0"
  proof -
    let ?l = "i_length (r_packet p')" and ?n = "r_bytesRead p'"
    have le: "unat ?l \<le> unat ?n" and ptr: "i_data (r_packet p') = Input (?n - ?l)"
      using pay that by (auto simp: payload_ok_def)
    have "unat (?n - ?l) = unat ?n - unat ?l"
      using le by (intro unat_sub) (simp add: word_le_nat_alt)
    with le ptr same len show ?thesis
      by (simp add: Parser_payload_def region_def take_drop)
  qed
  show thesis
    by (rule that [OF parse same(3) fd']) (use inv' pl in blast)+
qed


subsection \<open>Running the reference parser\<close>

text \<open>The states the reference parser works on.\<close>

definition erased :: "Parser \<Rightarrow> bool" where
  "erased p \<longleftrightarrow> erase p = p"

lemma erased_erase [simp]: "erased (erase p)"
  by (simp add: erased_def erase_def erasePtr_def split: DataPtr.splits)

lemma erased_iff:
  "erased p \<longleftrightarrow> r_data p = [] \<and> r_len p = 0 \<and> r_bytesRead p = 0 \<and>
     erasePtr (i_data (r_packet p)) = i_data (r_packet p)"
proof
  assume "erased p"
  then have "erase p = p" by (simp add: erased_def)
  then show "r_data p = [] \<and> r_len p = 0 \<and> r_bytesRead p = 0 \<and>
      erasePtr (i_data (r_packet p)) = i_data (r_packet p)"
    unfolding erase_def by (metis IncomingPacket.select_convs(6) IncomingPacket.update_convs(6)
        IncomingPacket.surjective Parser.select_convs(1,2,3,6) Parser.update_convs(1,2,3,6) Parser.surjective)
qed (simp add: erased_def erase_def)

lemma erase_inner:
  "erased p \<Longrightarrow> erase (p\<lparr>r_data := d, r_len := l, r_bytesRead := n\<rparr>) = p"
  by (simp add: erased_iff erase_def)

text \<open>A handler that does not touch the input computes the same on an erased state.\<close>

lemma Parser_byte_single [simp]:
  "Parser_byte (p\<lparr>r_data := [b], r_len := l, r_bytesRead := 0\<rparr>) = Some b"
  by (simp add: Parser_byte_def)

lemma feed_await:
  assumes "r_parse p \<noteq> payloadPublish"
    and "Parser_step (r_parse p) (p\<lparr>r_data := [b], r_len := 1, r_bytesRead := 0\<rparr>) =
      Some (r, q\<lparr>r_data := [b], r_len := 1, r_bytesRead := 0\<rparr>)"
    and "erased q"
  shows "feeds (b # bs) p = (if r = awaitData then feeds bs q else Some (r, bs, q))"
  using assms erase_inner [OF assms(3), where d = "[b]" and l = 1 and n = 0] by (simp add: feed_def)


lemma i_data_reset [simp]: "i_data (IncomingPacket_reset i) = i_data i"
  by (simp add: IncomingPacket_reset_def)

text \<open>One rule per kind of header.\<close>

lemma feeds_publish_header:
  assumes "erased p" and "r_parse p = fixedHeader" and "b AND 0xF0 = PUBLISH"
    and "b AND 0x0F \<le> 0x05 \<or> b AND 0x0F \<ge> 0x0A"
  shows "feeds (b # bs) p = feeds bs (p\<lparr>r_packet := IncomingPacket_reset (r_packet p)\<lparr>i_packetType := b\<rparr>,
      r_parse := remainingLengthVariable, r_bytePos := 0\<rparr>)"
  using assms
  by (subst feed_await [where r = awaitData and q = "p\<lparr>r_packet := IncomingPacket_reset (r_packet p)\<lparr>i_packetType := b\<rparr>,
      r_parse := remainingLengthVariable, r_bytePos := 0\<rparr>"])
    (auto simp: Parser_fixedHeader_def upd_def erased_iff IncomingPacket_reset_def Let_def)

lemma feeds_suback_header:
  assumes "erased p" and "r_parse p = fixedHeader"
  shows "feeds (SUBACK # bs) p = feeds bs (p\<lparr>r_packet := IncomingPacket_reset (r_packet p)\<lparr>i_packetType := SUBACK\<rparr>,
      r_parse := remainingLengthVariable, r_bytePos := 0\<rparr>)"
  using assms
  by (subst feed_await [where r = awaitData and q = "p\<lparr>r_packet := IncomingPacket_reset (r_packet p)\<lparr>i_packetType := SUBACK\<rparr>,
      r_parse := remainingLengthVariable, r_bytePos := 0\<rparr>"])
    (simp_all add: Parser_fixedHeader_def upd_def erased_iff IncomingPacket_reset_def)

lemma feeds_fixed_header:
  assumes "erased p" and "r_parse p = fixedHeader"
    and "b \<in> {CONNACK, PUBACK, PUBREC, PUBREL OR PUBREL_RESERVED, PUBCOMP, UNSUBACK}"
  shows "feeds (b # 2 # bs) p = feeds bs (p\<lparr>r_packet := IncomingPacket_reset (r_packet p)
        \<lparr>i_packetType := b, i_remainingLength := 2\<rparr>,
      r_parse := if b = CONNACK then varHeaderConnack1 else varHeaderPacketId1\<rparr>)"
proof -
  let ?q = "p\<lparr>r_packet := IncomingPacket_reset (r_packet p)\<lparr>i_packetType := b\<rparr>, r_parse := remainingLengthFixed\<rparr>"
  have b: "b AND 0xF0 \<noteq> PUBLISH" "b AND 0xF0 = CONNACK \<longleftrightarrow> b = CONNACK"
    using assms(3) by auto
  have "feeds (b # 2 # bs) p = feeds (2 # bs) ?q"
    using assms(1,2) b assms(3)
    by (subst feed_await [where r = awaitData and q = ?q])
      (simp_all add: Parser_fixedHeader_def upd_def erased_iff IncomingPacket_reset_def)
  also have "\<dots> = feeds bs (?q\<lparr>r_packet := (r_packet ?q)\<lparr>i_remainingLength := 2\<rparr>,
      r_parse := if b = CONNACK then varHeaderConnack1 else varHeaderPacketId1\<rparr>)"
    using assms(1) b
    by (subst feed_await [where r = awaitData and q = "?q\<lparr>r_packet := (r_packet ?q)\<lparr>i_remainingLength := 2\<rparr>,
        r_parse := if b = CONNACK then varHeaderConnack1 else varHeaderPacketId1\<rparr>"])
      (simp_all add: Parser_remainingLengthFixed_def upd_def erased_iff)
  finally show ?thesis by simp
qed

text \<open>The packet id, and what follows it.\<close>

lemma feeds_packetId:
  assumes "erased p" and "r_parse p = varHeaderPacketId1" and "i_packetId (r_packet p) = 0" and "pid \<noteq> 0"
  shows "feeds (hi8 pid # lo8 pid # bs) p =
    (let p' = p\<lparr>r_packet := (r_packet p)\<lparr>i_packetId := pid\<rparr>, r_parse := fixedHeader\<rparr>
     in if typeBits p = SUBACK then feeds bs (p'\<lparr>r_parse := payloadSuback\<rparr>)
        else if typeBits p = PUBLISH then
          (let p' = p'\<lparr>r_packet := (r_packet p')\<lparr>i_total := i_total (r_packet p') - 2\<rparr>\<rparr>
           in if i_total (r_packet p') = 0 then Some (packet, bs, p')
              else feeds bs (p'\<lparr>r_parse := payloadPublish\<rparr>))
        else Some (packet, bs, p'))"
proof -
  let ?q = "p\<lparr>r_packet := (r_packet p)\<lparr>i_packetId := push_bit 8 (ucast (hi8 pid))\<rparr>, r_parse := varHeaderPacketId2\<rparr>"
  have pid: "push_bit 8 (ucast (hi8 pid)) OR ucast (lo8 pid) = pid"
    using be16_hi_lo [of pid] by (simp add: be16_def)
  have "feeds (hi8 pid # lo8 pid # bs) p = feeds (lo8 pid # bs) ?q"
    using assms
    by (subst feed_await [where r = awaitData and q = ?q])
      (simp_all add: Parser_varHeaderPacketId1_def upd_def erased_iff)
  moreover note await = feed_await [where p = ?q and b = "lo8 pid" and bs = bs]
  note defs = Parser_varHeaderPacketId2_def upd_def erased_iff Let_def pid
  let ?p = "p\<lparr>r_packet := (r_packet p)\<lparr>i_packetId := pid\<rparr>, r_parse := fixedHeader\<rparr>"
  let ?t = "p\<lparr>r_packet := (r_packet p)\<lparr>i_packetId := pid, i_total := i_total (r_packet p) - 2\<rparr>, r_parse := fixedHeader\<rparr>"
  consider "typeBits p = SUBACK" | "typeBits p = PUBLISH" "i_total (r_packet p) - 2 = 0"
    | "typeBits p = PUBLISH" "i_total (r_packet p) - 2 \<noteq> 0" | "typeBits p \<noteq> SUBACK" "typeBits p \<noteq> PUBLISH"
    by blast
  then have "feeds (lo8 pid # bs) ?q =
    (if typeBits p = SUBACK then feeds bs (?p\<lparr>r_parse := payloadSuback\<rparr>)
     else if typeBits p = PUBLISH then
       (if i_total (r_packet p) - 2 = 0 then Some (packet, bs, ?t)
        else feeds bs (?t\<lparr>r_parse := payloadPublish\<rparr>))
     else Some (packet, bs, ?p))"
  proof cases
    case 1
    then show ?thesis
      using assms by (subst await [where r = awaitData and q = "?p\<lparr>r_parse := payloadSuback\<rparr>"]) (simp_all add: defs)
  next
    case 2
    then show ?thesis
      using assms by (subst await [where r = packet and q = ?t]) (simp_all add: defs)
  next
    case 3
    then show ?thesis
      using assms by (subst await [where r = awaitData and q = "?t\<lparr>r_parse := payloadPublish\<rparr>"]) (simp_all add: defs)
  next
    case 4
    then show ?thesis
      using assms by (subst await [where r = packet and q = ?p]) (simp_all add: defs)
  qed
  ultimately show ?thesis by (simp add: Let_def)
qed


lemma feeds_connack:
  assumes "erased p" and "r_parse p = varHeaderConnack1" and "sp < 2" and "rc \<le> 5"
  shows "feeds (sp # rc # bs) p =
    Some (packet, bs, p\<lparr>r_packet := (r_packet p)\<lparr>i_packetId := be16 rc sp\<rparr>, r_parse := fixedHeader\<rparr>)"
proof -
  let ?q = "p\<lparr>r_packet := setSessionPresent sp (r_packet p), r_parse := varHeaderConnack2\<rparr>"
  have "feeds (sp # rc # bs) p = feeds (rc # bs) ?q"
    using assms
    by (subst feed_await [where r = awaitData and q = ?q])
      (simp_all add: Parser_varHeaderConnack1_def upd_def erased_iff setSessionPresent_def)
  also have "\<dots> = Some (packet, bs, ?q\<lparr>r_packet := setReturnCode rc (r_packet ?q), r_parse := fixedHeader\<rparr>)"
    using assms
    by (subst feed_await [where r = packet and q = "?q\<lparr>r_packet := setReturnCode rc (r_packet ?q), r_parse := fixedHeader\<rparr>"])
      (simp_all add: Parser_varHeaderConnack2_def upd_def erased_iff setSessionPresent_def setReturnCode_def)
  finally show ?thesis
    by (simp add: setSessionPresent_def setReturnCode_def)
qed

lemma feeds_pingresp:
  assumes "erased p" and "r_parse p = fixedHeader"
  shows "feeds (PINGRESP # 0 # bs) p = Some (packet, bs,
    p\<lparr>r_packet := IncomingPacket_reset (r_packet p)\<lparr>i_packetType := PINGRESP, i_remainingLength := 0\<rparr>\<rparr>)"
proof -
  let ?q = "p\<lparr>r_packet := IncomingPacket_reset (r_packet p)\<lparr>i_packetType := PINGRESP\<rparr>, r_parse := remainingLengthNone\<rparr>"
  let ?r = "p\<lparr>r_packet := IncomingPacket_reset (r_packet p)\<lparr>i_packetType := PINGRESP, i_remainingLength := 0\<rparr>\<rparr>"
  have "feeds (PINGRESP # 0 # bs) p = feeds (0 # bs) ?q"
    using assms
    by (subst feed_await [where r = awaitData and q = ?q])
      (simp_all add: Parser_fixedHeader_def upd_def erased_iff)
  also have "\<dots> = Some (packet, bs, ?r)"
    using assms
    by (subst feed_await [where r = packet and q = ?r])
      (simp_all add: Parser_remainingLengthNone_def upd_def erased_iff)
  finally show ?thesis .
qed

text \<open>The return codes of a SUBACK fill the payload buffer.\<close>

definition suback_code :: "u8 \<Rightarrow> bool" where
  "suback_code b \<longleftrightarrow> b < 0x03 \<or> b = 0x80"

lemma feeds_suback_codes:
  "erased p \<Longrightarrow> r_parse p = payloadSuback \<Longrightarrow> codes \<noteq> [] \<Longrightarrow> \<forall>b \<in> set codes. suback_code b \<Longrightarrow>
   unat (r_bytePos p) + length codes = unat (i_total (r_packet p)) \<Longrightarrow>
   unat (i_total (r_packet p)) \<le> length (r_payloadBuffer p) \<Longrightarrow>
   feeds (codes @ bs) p = Some (packet, bs, p\<lparr>
     r_payloadBuffer := take (unat (r_bytePos p)) (r_payloadBuffer p) @ codes @
       drop (unat (i_total (r_packet p))) (r_payloadBuffer p),
     r_bytePos := i_total (r_packet p), r_parse := fixedHeader\<rparr>)"
proof (induction codes arbitrary: p)
  case Nil
  then show ?case by simp
next
  case (Cons b codes)
  let ?buf = "(r_payloadBuffer p)[unat (r_bytePos p) := b]"
  have pos: "unat (r_bytePos p) < length (r_payloadBuffer p)" "r_bytePos p < i_total (r_packet p)"
    using Cons.prems by (simp_all add: word_less_nat_alt)
  note nxt = next_index(1) [OF pos(2)]
  show ?case
  proof (cases codes)
    case Nil
    then have "r_bytePos p + 1 = i_total (r_packet p)"
      using Cons.prems(5) nxt by (simp add: word_unat_eq_iff)
    with Nil Cons.prems pos show ?thesis
      unfolding append_Cons
      by (subst feed_await [where r = packet and q = "p\<lparr>r_payloadBuffer := ?buf, r_bytePos := i_total (r_packet p), r_parse := fixedHeader\<rparr>"])
        (auto simp: Parser_payloadSuback_def erased_iff suback_code_def upd_conv_take_nth_drop)
  next
    case (Cons b' codes')
    let ?q = "p\<lparr>r_payloadBuffer := ?buf, r_bytePos := r_bytePos p + 1\<rparr>"
    have "r_bytePos p + 1 \<noteq> i_total (r_packet p)"
      using Cons.prems(5) nxt Cons by (auto simp: word_unat_eq_iff)
    then have "feeds ((b # codes) @ bs) p = feeds (codes @ bs) ?q"
      using Cons.prems pos unfolding append_Cons
      by (subst feed_await [where r = awaitData and q = ?q])
        (auto simp: Parser_payloadSuback_def erased_iff suback_code_def)
    moreover have "feeds (codes @ bs) ?q = Some (packet, bs, ?q\<lparr>
        r_payloadBuffer := take (unat (r_bytePos p + 1)) ?buf @ codes @ drop (unat (i_total (r_packet p))) ?buf,
        r_bytePos := i_total (r_packet p), r_parse := fixedHeader\<rparr>)"
      using Cons.IH [of ?q] Cons.prems Cons nxt by (auto simp: erased_iff)
    moreover have "take (unat (r_bytePos p + 1)) ?buf = take (unat (r_bytePos p)) (r_payloadBuffer p) @ [b]"
      using pos nxt by (simp add: take_Suc_conv_app_nth)
    moreover have "drop (unat (i_total (r_packet p))) ?buf = drop (unat (i_total (r_packet p))) (r_payloadBuffer p)"
      using pos by (simp add: word_less_nat_alt)
    ultimately show ?thesis by simp
  qed
qed


subsection \<open>The variable remaining length\<close>

lemma decode_prefix:
  "decodeRemainingLength xs = Some n \<Longrightarrow> decodeRemainingLength (xs @ ys) = Some n"
proof -
  have "decodeRemainingLengthLoop (xs @ ys) m r = Some n"
    if "decodeRemainingLengthLoop xs m r = Some n" for m r
    using that by (induction xs m r rule: decodeRemainingLengthLoop.induct) (auto simp: Let_def split: if_splits)
  then show "decodeRemainingLength xs = Some n \<Longrightarrow> ?thesis"
    by (simp add: decodeRemainingLength_def)
qed

lemma rawSet_take:
  assumes k: "k < 4" and set: "rawSet w k b = Some w'"
  shows "take (Suc k) (rawBytes w') = take k (rawBytes w) @ [b]"
proof (rule nth_equalityI)
  fix i assume "i < length (take (Suc k) (rawBytes w'))"
  then have i: "i \<le> k" "i < 4" using k by auto
  then have "rawBytes w' ! i = (if i = k then b else rawBytes w ! i)"
    using rawGet_rawSet [OF k i(2) set] by (simp add: rawBytes_nth)
  with i k show "take (Suc k) (rawBytes w') ! i = (take k (rawBytes w) @ [b]) ! i"
    by (auto simp: nth_append)
qed (use k in simp)

text \<open>The state once the length is known: on to the topic, or to the packet id of a SUBACK.\<close>

definition length_done :: "nat \<Rightarrow> size_t \<Rightarrow> Parser \<Rightarrow> Parser" where
  "length_done n j p =
     (if typeBits p = PUBLISH
      then p\<lparr>r_packet := (r_packet p)\<lparr>i_remainingLength := of_nat n\<rparr>, r_bytePos := j,
             r_parse := varHeaderTopicLength1\<rparr>
      else p\<lparr>r_packet := (r_packet p)\<lparr>i_remainingLength := of_nat n, i_data := PayloadBuffer, i_index := 0,
               i_length := of_nat (n - 2), i_total := of_nat (n - 2)\<rparr>,
             r_bytePos := 0, r_parse := varHeaderPacketId1\<rparr>)"

lemma suback_size:
  assumes "2 < n" and "n < 34"
  shows "sint (of_nat n - 2 :: u32) = int (n - 2)"
proof -
  have "(of_nat n - 2 :: u32) = of_nat (n - 2)"
    using assms by (simp add: of_nat_diff)
  moreover define v :: u32 where "v = of_nat (n - 2)"
  moreover have "unat v = n - 2"
    unfolding v_def using assms by (intro unat_of_nat32) simp
  moreover from this have "sint v = int (n - 2)"
    using assms by (subst sint_small) linarith+
  ultimately show ?thesis by (simp only:)
qed

lemma feeds_length:
  assumes "typeBits p = PUBLISH \<or> typeBits p = SUBACK \<and> 2 < n \<and> n < 34"
    and "erased p" and "r_parse p = remainingLengthVariable" and "todo \<noteq> []"
    and "length got + length todo \<le> 4" and "\<forall>b \<in> set (butlast todo). continues b"
    and "\<not> continues (last todo)" and "unat (r_bytePos p) = length got"
    and "take (length got) (rawBytes (i_remainingLength (r_packet p))) = got"
    and "decodeRemainingLength (got @ todo) = Some (int n)"
  shows "\<exists>j. feeds (todo @ rest) p = feeds rest (length_done n j p)"
  using assms
proof (induction todo arbitrary: p got)
  case Nil
  then show ?case by simp
next
  case (Cons b todo)
  have pos: "unat (r_bytePos p) < 4"
    using Cons.prems(5,8) by simp
  obtain w where w: "rawSet (i_remainingLength (r_packet p)) (unat (r_bytePos p)) b = Some w"
    using rawSet_Some [OF pos] by blast
  have get: "rawGet w (unat (r_bytePos p)) = b"
    using rawGet_rawSet [OF pos pos w] by simp
  have got: "take (Suc (length got)) (rawBytes w) = got @ [b]"
    using rawSet_take [OF pos w] Cons.prems(8,9) by simp
  show ?case
  proof (cases "todo = []")
    case True
    then have b: "b AND 0x80 = 0"
      using Cons.prems(7) by (simp add: continues_def)
    have "decodeRemainingLength (rawBytes w) = Some (int n)"
      using Cons.prems(10) got True decode_prefix
      by (metis append_take_drop_id)
    then have "feeds (b # rest) p = feeds rest (length_done n (r_bytePos p) p)"
      using Cons.prems(1-3) b w get suback_size [of n]
      by (subst feed_await [where r = awaitData and q = "length_done n (r_bytePos p) p"])
        (auto simp: Parser_remainingLengthVariable_def upd_def length_done_def erased_iff Let_def of_nat_diff)
    with True show ?thesis by auto
  next
    case False
    let ?q = "p\<lparr>r_packet := (r_packet p)\<lparr>i_remainingLength := w\<rparr>, r_bytePos := r_bytePos p + 1\<rparr>"
    have b: "b AND 0x80 \<noteq> 0"
      using Cons.prems(6) False by (simp add: continues_def)
    have nxt: "unat (r_bytePos p + 1) = Suc (length got)"
      using Cons.prems(8) pos by (subst unat_add_lem [THEN iffD1]) simp_all
    moreover have "Suc (length got) < 4"
      using Cons.prems(5) False by (cases todo) simp_all
    ultimately have "r_bytePos p + 1 \<noteq> 4"
      by (auto simp: word_unat_eq_iff)
    then have "feeds ((b # todo) @ rest) p = feeds (todo @ rest) ?q"
      using Cons.prems(2,3) b w get unfolding append_Cons
      by (subst feed_await [where r = awaitData and q = ?q])
        (simp_all add: Parser_remainingLengthVariable_def upd_def erased_iff Let_def)
    moreover have "\<exists>j. feeds (todo @ rest) ?q = feeds rest (length_done n j ?q)"
      using Cons.prems False got nxt by (intro Cons.IH [where got = "got @ [b]"]) (auto simp: erased_iff)
    moreover have "length_done n j ?q = length_done n j p" for j
      by (simp add: length_done_def)
    ultimately show ?thesis by auto
  qed
qed


lemma encode_continues:
  "(\<forall>b \<in> set (butlast (encodeRemainingLength n)). continues b) \<and>
   \<not> continues (last (encodeRemainingLength n)) \<and> encodeRemainingLength n \<noteq> []"
proof (induction n rule: encodeRemainingLength.induct)
  case (1 n)
  show ?case
  proof (cases "n < 128")
    case True
    then show ?thesis
      by (simp add: encode_last continues_def continuation_last)
  next
    case False
    then have "0 < n div 128" by (simp add: div128_pos)
    from 1 [OF refl refl this] False show ?thesis
      by (simp add: encode_more continues_def continuation_more)
  qed
qed

lemma feeds_encoded_length:
  assumes "typeBits p = PUBLISH \<or> typeBits p = SUBACK \<and> 2 < n \<and> n < 34"
    and "erased p" and "r_parse p = remainingLengthVariable" and "r_bytePos p = 0"
    and "n \<le> 268435455"
  shows "\<exists>j. feeds (encodeRemainingLength (of_nat n) @ rest) p = feeds rest (length_done n j p)"
proof -
  define w :: u32 where "w = of_nat n"
  have val: "unat w = n"
    unfolding w_def using assms(5) by (intro unat_of_nat32) simp
  then have w: "w \<le> 268435455"
    using assms(5) by (simp add: word_le_nat_alt)
  have "length (encodeRemainingLength w) \<le> 4"
    using val assms(5) by (simp add: length_encode_cases)
  then show ?thesis
    using assms(1-4) encode_continues [of w] decode_encode [OF w, of "[]"] val
    unfolding w_def [symmetric]
    by (intro feeds_length [where got = "[]"]) simp_all
qed

subsection \<open>The topic\<close>

definition qos_bits :: "Parser \<Rightarrow> bool" where
  "qos_bits p \<longleftrightarrow> packetType p AND (PUBLISH_QOS1 OR PUBLISH_QOS2) \<noteq> 0"

lemma feeds_topicLength:
  fixes t :: nat and p
  defines "n \<equiv> unat (i_remainingLength (r_packet p))"
  assumes "erased p" and "r_parse p = varHeaderTopicLength1" and t: "t \<le> 65535"
    and fit: "2 + t + (if qos_bits p then 2 else 0) \<le> n"
  shows "feeds (hi8 (of_nat t) # lo8 (of_nat t) # bs) p = feeds bs
    (p\<lparr>r_packet := (r_packet p)\<lparr>i_topicLength := of_nat t, i_total := of_nat (n - 2 - t)\<rparr>,
       r_parse := varHeaderTopic, r_bytePos := 0\<rparr>)"
proof -
  define w :: u16 where "w = of_nat t"
  define l where "l = i_remainingLength (r_packet p)"
  have w: "unat w = t"
    unfolding w_def using t by (intro unat_of_nat16) simp
  have joined: "push_bit 8 (ucast (hi8 w)) OR ucast (lo8 w) = w"
    using be16_hi_lo [of w] by (simp add: be16_def)
  have l2: "unat (l - 2) = n - 2"
    using fit by (subst unat_sub) (simp_all add: word_le_nat_alt l_def n_def)
  have max: "unat (l - 2 - (if qos_bits p then 2 else 0)) = n - 2 - (if qos_bits p then 2 else 0)"
    using fit by (subst unat_sub) (auto simp only: word_le_nat_alt l2 split: if_splits, simp_all)
  then have le: "ucast w \<le> l - 2 - (if qos_bits p then 2 else 0)"
    using fit by (simp add: word_le_nat_alt w)
  have "unat (l - 2 - ucast w) = n - 2 - t"
    using fit by (subst unat_sub) (simp_all add: word_le_nat_alt l2 w)
  moreover have "of_nat (unat (l - 2 - ucast w)) = l - 2 - ucast w"
    by simp
  ultimately have total: "l - 2 - ucast w = of_nat (n - 2 - t)"
    by (simp only:)
  let ?q = "p\<lparr>r_packet := (r_packet p)\<lparr>i_topicLength := push_bit 8 (ucast (hi8 w))\<rparr>, r_parse := varHeaderTopicLength2\<rparr>"
  let ?r = "p\<lparr>r_packet := (r_packet p)\<lparr>i_topicLength := w, i_total := of_nat (n - 2 - t)\<rparr>,
       r_parse := varHeaderTopic, r_bytePos := 0\<rparr>"
  have "feeds (hi8 w # lo8 w # bs) p = feeds (lo8 w # bs) ?q"
    using assms(2,3)
    by (subst feed_await [where r = awaitData and q = ?q])
      (simp_all add: Parser_varHeaderTopicLength1_def upd_def erased_iff)
  also have "\<dots> = feeds bs ?r"
    using assms(2) le total
    by (subst feed_await [where r = awaitData and q = ?r])
      (simp_all add: Parser_varHeaderTopicLength2_def upd_def erased_iff joined l_def qos_bits_def Let_def)
  finally show ?thesis by (simp only: w_def)
qed

definition topic_done :: "u8 list \<Rightarrow> Parser \<Rightarrow> (ParserResult \<times> u8 list \<times> Parser) option" where
  "topic_done bs p =
     (if qos_bits p then feeds bs (p\<lparr>r_parse := varHeaderPacketId1\<rparr>)
      else if i_total (r_packet p) = 0 then Some (packet, bs, p\<lparr>r_parse := fixedHeader\<rparr>)
      else feeds bs (p\<lparr>r_parse := payloadPublish\<rparr>))"

lemma feeds_topic:
  "erased p \<Longrightarrow> r_parse p = varHeaderTopic \<Longrightarrow> todo \<noteq> [] \<Longrightarrow>
   unat (r_bytePos p) + length todo = unat (i_topicLength (r_packet p)) \<Longrightarrow>
   unat (i_topicLength (r_packet p)) \<le> 128 \<Longrightarrow> length (i_topic (r_packet p)) = 129 \<Longrightarrow>
   feeds (todo @ bs) p = topic_done bs (p\<lparr>
     r_packet := (r_packet p)\<lparr>i_topic := take (unat (r_bytePos p)) (i_topic (r_packet p)) @ todo @
       0 # drop (Suc (unat (i_topicLength (r_packet p)))) (i_topic (r_packet p))\<rparr>,
     r_bytePos := ucast (i_topicLength (r_packet p))\<rparr>)"
proof (induction todo arbitrary: p)
  case Nil
  then show ?case by simp
next
  case (Cons b todo)
  let ?k = "unat (r_bytePos p)" and ?l = "unat (i_topicLength (r_packet p))"
  let ?a = "i_topic (r_packet p)"
  have k: "?k < 128"
    using Cons.prems by simp
  then have nxt: "unat (r_bytePos p + 1) = Suc ?k"
    by (subst unat_add_lem [THEN iffD1]) simp_all
  show ?case
  proof (cases todo)
    case Nil
    then have eq: "r_bytePos p + 1 = ucast (i_topicLength (r_packet p))"
      using Cons.prems(4) nxt by (simp add: word_unat_eq_iff)
    let ?t = "?a[?k := b, Suc ?k := 0]"
    have l: "?l = Suc ?k"
      using Cons.prems(4) Nil by simp
    have t: "?t = take ?k ?a @ b # 0 # drop (Suc ?l) ?a"
      unfolding l using k Cons.prems(6)
      by (intro nth_equalityI) (auto simp: nth_list_update nth_append nth_Cons'
        intro!: arg_cong [where f = "\<lambda>i. ?a ! i"])
    let ?p = "p\<lparr>r_packet := (r_packet p)\<lparr>i_topic := ?t\<rparr>, r_bytePos := ucast (i_topicLength (r_packet p))\<rparr>"
    note defs = Parser_varHeaderTopic_def upd_def erased_iff topic_done_def qos_bits_def Let_def
    have pos: "?k < length ?a" "Suc ?k < length (?a[?k := b])"
      using k Cons.prems(6) by simp_all
    consider "qos_bits p" | "\<not> qos_bits p" "i_total (r_packet p) = 0" | "\<not> qos_bits p" "i_total (r_packet p) \<noteq> 0"
      by blast
    then have await: "feeds (b # bs) p = topic_done bs ?p"
    proof cases
      case 1
      then show ?thesis
        using Cons.prems(1,2) pos eq [symmetric] nxt
        by (subst feed_await [where r = awaitData and q = "?p\<lparr>r_parse := varHeaderPacketId1\<rparr>"]) (simp_all add: defs)
    next
      case 2
      then show ?thesis
        using Cons.prems(1,2) pos eq [symmetric] nxt
        by (subst feed_await [where r = packet and q = "?p\<lparr>r_parse := fixedHeader\<rparr>"]) (simp_all add: defs)
    next
      case 3
      then show ?thesis
        using Cons.prems(1,2) pos eq [symmetric] nxt
        by (subst feed_await [where r = awaitData and q = "?p\<lparr>r_parse := payloadPublish\<rparr>"]) (simp_all add: defs)
    qed
    with Nil t show ?thesis by simp
  next
    case (Cons b' todo')
    let ?q = "p\<lparr>r_packet := (r_packet p)\<lparr>i_topic := ?a[?k := b]\<rparr>, r_bytePos := r_bytePos p + 1\<rparr>"
    have ne: "r_bytePos p + 1 \<noteq> ucast (i_topicLength (r_packet p))" "r_bytePos p + 1 \<noteq> 128"
      using Cons.prems(4,5) nxt Cons by (auto simp: word_unat_eq_iff)
    then have "feeds ((b # todo) @ bs) p = feeds (todo @ bs) ?q"
      using Cons.prems k unfolding append_Cons
      by (subst feed_await [where r = awaitData and q = ?q])
        (simp_all add: Parser_varHeaderTopic_def upd_def erased_iff Let_def)
    moreover have "feeds (todo @ bs) ?q = topic_done bs (?q\<lparr>
       r_packet := (r_packet ?q)\<lparr>i_topic := take (unat (r_bytePos p + 1)) (?a[?k := b]) @ todo @
         0 # drop (Suc ?l) (?a[?k := b])\<rparr>,
       r_bytePos := ucast (i_topicLength (r_packet p))\<rparr>)"
      using Cons.IH [of ?q] Cons.prems Cons nxt by (auto simp: erased_iff)
    moreover have "take (unat (r_bytePos p + 1)) (?a[?k := b]) = take ?k ?a @ [b]"
      using k Cons.prems(6) nxt by (simp add: take_Suc_conv_app_nth)
    moreover have "drop (Suc ?l) (?a[?k := b]) = drop (Suc ?l) ?a"
      using Cons.prems(4) by simp
    ultimately show ?thesis by simp
  qed
qed


subsection \<open>Whole packets\<close>

lemma feeds_payload:
  assumes "r_parse p = payloadPublish" and "idle (r_packet p)" and "payload \<noteq> []"
    and "unat (i_total (r_packet p)) = length payload"
  shows "feeds (payload @ rest) p = Some (packet, rest, chunk (length payload) p)"
  using assms
  by (cases payload) (simp_all add: needed_def idle_def Let_def)

text \<open>The fields of a PUBLISH after its topic: the payload is what is left, and it comes at once.\<close>

definition published :: "u8 \<Rightarrow> u16 \<Rightarrow> cstring \<Rightarrow> u8 list \<Rightarrow> Parser \<Rightarrow> bool" where
  "published header packetId topic payload p \<longleftrightarrow>
     (let i = r_packet p in
        i_packetType i = header \<and> i_packetId i = packetId \<and>
        unat (i_topicLength i) = length topic \<and> take (Suc (length topic)) (i_topic i) = topic @ [0] \<and>
        i_index i = 0 \<and> unat (i_length i) = length payload \<and> unat (i_total i) = length payload \<and>
        r_parse p = fixedHeader)"

lemma chunk_fields [simp]:
  "i_packetType (r_packet (chunk n p)) = i_packetType (r_packet p)"
  "i_packetId (r_packet (chunk n p)) = i_packetId (r_packet p)"
  "i_topicLength (r_packet (chunk n p)) = i_topicLength (r_packet p)"
  "i_topic (r_packet (chunk n p)) = i_topic (r_packet p)"
  "i_index (r_packet (chunk n p)) = i_index (r_packet p) + i_length (r_packet p)"
  "i_length (r_packet (chunk n p)) = of_nat n"
  "i_total (r_packet (chunk n p)) = i_total (r_packet p)"
  by (simp_all add: chunk_def Let_def)

lemma feeds_after_topic:
  fixes p
  defines "i \<equiv> r_packet p"
  assumes "erased p" and ty: "typeBits p = PUBLISH" and "idle i" and qos: "qos_bits p \<longleftrightarrow> qos \<noteq> 0"
    and "unat (i_topicLength i) = length topic" and "take (Suc (length topic)) (i_topic i) = topic @ [0]"
    and "i_packetId i = 0" and pid: "qos \<noteq> (0 :: u8) \<Longrightarrow> packetId \<noteq> 0"
    and total: "unat (i_total i) = (if qos = 0 then 0 else 2) + length payload"
  shows "\<exists>p'. topic_done ((if qos = 0 then [] else wire_u16 packetId) @ payload @ rest) p = Some (packet, rest, p') \<and>
    published (i_packetType i) (if qos = 0 then 0 else packetId) topic payload p'"
proof -
  have small: "length payload < 4294967296"
    using total u32_bound [of "i_total i"] by simp
  note defs = published_def idle_def Let_def unat_of_nat32
  show ?thesis
  proof (cases "qos = 0")
    case True
    then have t: "unat (i_total i) = length payload" using total by simp
    show ?thesis
    proof (cases "payload = []")
      case True
      with t have "i_total i = 0" by (simp add: word_unat_eq_iff)
      with True assms \<open>qos = 0\<close> show ?thesis
        by (simp add: topic_done_def defs)
    next
      case False
      then have "0 < unat (i_total i)" using t by simp
      then have "i_total i \<noteq> 0" by (simp add: unat_gt_0)
      moreover have "feeds (payload @ rest) (p\<lparr>r_parse := payloadPublish\<rparr>) =
          Some (packet, rest, chunk (length payload) (p\<lparr>r_parse := payloadPublish\<rparr>))"
        using False t assms(4) by (intro feeds_payload) (simp_all add: i_def)
      ultimately show ?thesis
        using assms \<open>qos = 0\<close> t small by (simp add: topic_done_def defs chunk_def)
    qed
  next
    case False
    let ?p = "p\<lparr>r_parse := varHeaderPacketId1\<rparr>"
    let ?t = "?p\<lparr>r_packet := i\<lparr>i_packetId := packetId, i_total := i_total i - 2\<rparr>, r_parse := fixedHeader\<rparr>"
    have t: "unat (i_total i - 2) = length payload"
      using total False by (subst unat_sub) (simp_all add: word_le_nat_alt)
    have "topic_done (wire_u16 packetId @ payload @ rest) p = feeds (hi8 packetId # lo8 packetId # payload @ rest) ?p"
      using False qos by (simp add: topic_done_def wire_u16_def)
    also have "\<dots> = (if i_total i - 2 = 0 then Some (packet, payload @ rest, ?t)
        else feeds (payload @ rest) (?t\<lparr>r_parse := payloadPublish\<rparr>))"
      using assms False by (subst feeds_packetId) (simp_all add: erased_iff Let_def)
    finally have run: "topic_done (wire_u16 packetId @ payload @ rest) p =
      (if i_total i - 2 = 0 then Some (packet, payload @ rest, ?t)
        else feeds (payload @ rest) (?t\<lparr>r_parse := payloadPublish\<rparr>))" .
    show ?thesis
    proof (cases "payload = []")
      case True
      with t have "i_total i - 2 = 0" by (simp add: word_unat_eq_iff)
      with True assms False run show ?thesis
        by (simp add: defs)
    next
      case ne: False
      then have "0 < unat (i_total i - 2)" using t by simp
      then have "i_total i - 2 \<noteq> 0" by (simp add: unat_gt_0)
      moreover have "feeds (payload @ rest) (?t\<lparr>r_parse := payloadPublish\<rparr>) =
          Some (packet, rest, chunk (length payload) (?t\<lparr>r_parse := payloadPublish\<rparr>))"
        using ne t assms(4) by (intro feeds_payload) (simp_all add: idle_def)
      ultimately show ?thesis
        using assms False t small run by (simp add: defs chunk_def)
    qed
  qed
qed


lemma byte_qos: "(qos :: u8) \<le> 2 \<Longrightarrow> qos = 0 \<or> qos = 1 \<or> qos = 2"
  by unat_arith

lemma publish_header_bits:
  assumes "qos \<le> 2" and "qos = 0 \<longrightarrow> \<not> dup"
  shows "publish_header dup qos retain AND 0xF0 = PUBLISH"
    and "publish_header dup qos retain AND 0x0F \<le> 0x05 \<or> publish_header dup qos retain AND 0x0F \<ge> 0x0A"
    and "publish_header dup qos retain AND (PUBLISH_QOS1 OR PUBLISH_QOS2) \<noteq> 0 \<longleftrightarrow> qos \<noteq> 0"
  using byte_qos [OF assms(1)] assms(2) by (auto simp: publish_header_def)

lemma feeds_publish:
  assumes "erased p" and "r_parse p = fixedHeader" and "length (i_topic (r_packet p)) = 129"
    and qos: "qos \<le> 2" "qos = 0 \<longrightarrow> \<not> dup" and topic: "topic \<noteq> []" "length topic \<le> 128"
    and fits: "fits (publish_body packetId topic payload qos)" and pid: "qos \<noteq> 0 \<Longrightarrow> packetId \<noteq> 0"
  shows "\<exists>p'. feeds (wire_publish dup packetId topic payload qos retain @ rest) p = Some (packet, rest, p') \<and>
    published (publish_header dup qos retain) (if qos = 0 then 0 else packetId) topic payload p'"
proof -
  define h where "h = publish_header dup qos retain"
  define n where "n = length (publish_body packetId topic payload qos)"
  define tail where "tail = (if qos = 0 then [] else wire_u16 packetId) @ payload @ rest"
  note h = publish_header_bits [OF qos, of retain, folded h_def]
  have n: "n = 2 + length topic + (if qos = 0 then 0 else 2) + length payload"
    by (simp add: n_def length_publish_body)
  have n_max: "n \<le> 268435455"
    using fits by (simp add: fits_def n_def)
  have wire: "wire_publish dup packetId topic payload qos retain @ rest =
      h # encodeRemainingLength (of_nat n) @ hi8 (of_nat (length topic)) # lo8 (of_nat (length topic)) # topic @ tail"
    by (simp add: wire_publish_def wire_packet_def publish_body_def wire_string_def wire_u16_def
        tail_def h_def n_def)
  let ?p1 = "p\<lparr>r_packet := IncomingPacket_reset (r_packet p)\<lparr>i_packetType := h\<rparr>,
      r_parse := remainingLengthVariable, r_bytePos := 0\<rparr>"
  have e1: "erased ?p1" using assms(1) by (simp add: erased_iff)
  let ?xs = "hi8 (of_nat (length topic)) # lo8 (of_nat (length topic)) # topic @ tail"
  have ty1: "typeBits ?p1 = PUBLISH" using h by simp
  obtain j where len: "feeds (encodeRemainingLength (of_nat n) @ ?xs) ?p1 = feeds ?xs (length_done n j ?p1)"
    using feeds_encoded_length [of ?p1 n ?xs] e1 ty1 n_max by auto
  define p2 where "p2 = p\<lparr>r_packet := IncomingPacket_reset (r_packet p)\<lparr>i_packetType := h,
      i_remainingLength := of_nat n\<rparr>, r_parse := varHeaderTopicLength1, r_bytePos := j\<rparr>"
  have p2: "length_done n j ?p1 = p2"
    using ty1 by (simp add: length_done_def p2_def)
  have n_val: "unat (of_nat n :: u32) = n"
    using n_max by (intro unat_of_nat32) simp
  have qb: "qos_bits p2 \<longleftrightarrow> qos \<noteq> 0"
    using h by (simp add: qos_bits_def p2_def)
  define p3 where "p3 = p2\<lparr>r_packet := (r_packet p2)\<lparr>i_topicLength := of_nat (length topic),
      i_total := of_nat (n - 2 - length topic)\<rparr>, r_parse := varHeaderTopic, r_bytePos := 0\<rparr>"
  have "feeds ?xs p2 = feeds (topic @ tail) p3"
    unfolding p3_def
    using assms(1) topic n qb n_val feeds_topicLength [of p2 "length topic" "topic @ tail"]
    by (simp add: erased_iff p2_def)
  moreover define p4 where "p4 = p3\<lparr>r_packet := (r_packet p3)\<lparr>i_topic :=
      topic @ 0 # drop (Suc (length topic)) (i_topic (r_packet p))\<rparr>, r_bytePos := ucast (i_topicLength (r_packet p3))\<rparr>"
  have tl: "unat (of_nat (length topic) :: u16) = length topic"
    using topic by (intro unat_of_nat16) simp
  have "feeds (topic @ tail) p3 = topic_done tail p4"
    using assms(1,3) topic tl
    by (subst feeds_topic) (simp_all add: erased_iff p2_def p3_def p4_def IncomingPacket_reset_def)
  ultimately have run: "feeds (wire_publish dup packetId topic payload qos retain @ rest) p = topic_done tail p4"
    unfolding wire using assms(1,2) h len p2 by (subst feeds_publish_header) simp_all
  have val: "unat (of_nat (n - 2 - length topic) :: u32) = n - 2 - length topic"
    using n_max by (intro unat_of_nat32) simp
  then have total: "unat (i_total (r_packet p4)) = (if qos = 0 then 0 else 2) + length payload"
    unfolding p4_def p3_def using n by simp
  have fields: "erased p4" "typeBits p4 = PUBLISH" "idle (r_packet p4)" "qos_bits p4 \<longleftrightarrow> qos \<noteq> 0"
    "unat (i_topicLength (r_packet p4)) = length topic"
    "take (Suc (length topic)) (i_topic (r_packet p4)) = topic @ [0]"
    "i_packetId (r_packet p4) = 0" "packetType p4 = h"
    using assms(1) h(1) qb tl
    by (simp_all add: p4_def p3_def p2_def erased_iff idle_def qos_bits_def IncomingPacket_reset_def)
  show ?thesis
    using feeds_after_topic [OF fields(1-7) pid total, where rest = rest] run
    by (simp add: tail_def fields(8) h_def)
qed

lemma feeds_ack:
  assumes "erased p" and "r_parse p = fixedHeader" and "pid \<noteq> 0"
    and "b \<in> {PUBACK, PUBREC, PUBREL OR PUBREL_RESERVED, PUBCOMP, UNSUBACK}"
  shows "feeds ([b, 2, hi8 pid, lo8 pid] @ rest) p = Some (packet, rest,
    p\<lparr>r_packet := IncomingPacket_reset (r_packet p)\<lparr>i_packetType := b, i_remainingLength := 2, i_packetId := pid\<rparr>\<rparr>)"
proof -
  let ?q = "p\<lparr>r_packet := IncomingPacket_reset (r_packet p)\<lparr>i_packetType := b, i_remainingLength := 2\<rparr>,
      r_parse := varHeaderPacketId1\<rparr>"
  have "feeds ([b, 2, hi8 pid, lo8 pid] @ rest) p = feeds (hi8 pid # lo8 pid # rest) ?q"
    using assms by (subst append_Cons, subst append_Cons, subst feeds_fixed_header) auto
  also have "\<dots> = Some (packet, rest, ?q\<lparr>r_packet := (r_packet ?q)\<lparr>i_packetId := pid\<rparr>, r_parse := fixedHeader\<rparr>)"
  proof -
    have "b AND 0xF0 \<noteq> SUBACK" "b AND 0xF0 \<noteq> PUBLISH"
      using assms(4) by auto
    with assms show ?thesis
      by (subst feeds_packetId) (simp_all add: erased_iff IncomingPacket_reset_def Let_def)
  qed
  finally show ?thesis
    using assms(2) by simp
qed

lemma feeds_suback:
  assumes "erased p" and "r_parse p = fixedHeader" and "pid \<noteq> 0" and "length (r_payloadBuffer p) = 32"
    and codes: "codes \<noteq> []" "length codes < 32" "\<forall>b \<in> set codes. suback_code b"
  shows "\<exists>p'. feeds (wire_packet SUBACK (wire_u16 pid @ codes) @ rest) p = Some (packet, rest, p') \<and>
    packetType p' = SUBACK \<and> i_packetId (r_packet p') = pid \<and> i_data (r_packet p') = PayloadBuffer \<and>
    i_index (r_packet p') = 0 \<and> unat (i_length (r_packet p')) = length codes \<and>
    take (length codes) (r_payloadBuffer p') = codes \<and> r_parse p' = fixedHeader"
proof -
  define n where "n = length codes + 2"
  let ?p1 = "p\<lparr>r_packet := IncomingPacket_reset (r_packet p)\<lparr>i_packetType := SUBACK\<rparr>,
      r_parse := remainingLengthVariable, r_bytePos := 0\<rparr>"
  have len: "0 < length codes" using codes by simp
  have e1: "erased ?p1" using assms(1) by (simp add: erased_iff)
  let ?xs = "hi8 pid # lo8 pid # codes @ rest"
  obtain j where "feeds (encodeRemainingLength (of_nat n) @ ?xs) ?p1 = feeds ?xs (length_done n j ?p1)"
    using feeds_encoded_length [of ?p1 n ?xs] e1 codes len by (auto simp: n_def)
  moreover define p2 where "p2 = p\<lparr>r_packet := IncomingPacket_reset (r_packet p)\<lparr>i_packetType := SUBACK,
      i_remainingLength := of_nat n, i_data := PayloadBuffer, i_index := 0, i_length := of_nat (length codes),
      i_total := of_nat (length codes)\<rparr>, r_bytePos := 0, r_parse := varHeaderPacketId1\<rparr>"
  have "length_done n j ?p1 = p2"
    by (simp add: length_done_def p2_def n_def)
  moreover have "feeds ?xs p2 = feeds (codes @ rest)
      (p2\<lparr>r_packet := (r_packet p2)\<lparr>i_packetId := pid\<rparr>, r_parse := payloadSuback\<rparr>)"
    using assms by (subst feeds_packetId) (simp_all add: p2_def erased_iff IncomingPacket_reset_def Let_def)
  moreover have "wire_packet SUBACK (wire_u16 pid @ codes) @ rest =
      SUBACK # encodeRemainingLength (of_nat n) @ ?xs"
    by (simp add: wire_packet_def wire_u16_def n_def)
  moreover note feeds_suback_header [OF assms(1,2)]
  moreover have val: "unat (of_nat (length codes) :: u32) = length codes"
    using codes by (intro unat_of_nat32) simp
  moreover have "feeds (codes @ rest) (p2\<lparr>r_packet := (r_packet p2)\<lparr>i_packetId := pid\<rparr>, r_parse := payloadSuback\<rparr>) =
      Some (packet, rest, p2\<lparr>r_packet := (r_packet p2)\<lparr>i_packetId := pid\<rparr>,
        r_payloadBuffer := codes @ drop (length codes) (r_payloadBuffer p),
        r_bytePos := of_nat (length codes), r_parse := fixedHeader\<rparr>)"
    using assms codes val by (subst feeds_suback_codes) (simp_all add: p2_def erased_iff)
  ultimately show ?thesis
    by (simp add: p2_def IncomingPacket_reset_def)
qed

end
