(* ===== verification/Packet.thy ===== *)
theory Packet
  imports WireFormat
begin

text \<open>
  \<open>src/src/Packets/Packet.h\<close> and \<open>src/src/Packets/Packet.cpp\<close>: outgoing packets. The record
  holds the members of the class; a constructor takes the memory it runs on and returns the
  error it reports with the packet it leaves, or faults if it writes outside its buffer.

  The variadic constructors take the list of their topics. The payload callback of a chunked
  PUBLISH is the function from the arguments the code passes it (the largest size it may
  produce, and an index) to the bytes it stores; their number is what it returns.
\<close>

type_synonym PayloadCallback = "size_t \<Rightarrow> size_t \<Rightarrow> u8 list"

record Packet =
  p_packetId :: u16
  p_data :: "u8 list option"
  p_size :: size_t
  p_payloadIndex :: size_t
  p_payloadStartIndex :: size_t
  p_payloadEndIndex :: size_t
  p_getPayload :: "PayloadCallback option"

text \<open>
  What a constructor asks of the platform: whether the memory pool is compiled in, the free
  memory the platform reports, and whether an allocation of some size succeeds.
\<close>

record Memory =
  mem_pool :: bool
  mem_free :: u32
  mem_malloc :: "size_t \<Rightarrow> bool"

definition blank :: "u16 \<Rightarrow> PayloadCallback option \<Rightarrow> Packet" where
  "blank packetId getPayload =
     \<lparr>p_packetId = packetId, p_data = None, p_size = 0, p_payloadIndex = 0,
      p_payloadStartIndex = 0, p_payloadEndIndex = 0, p_getPayload = getPayload\<rparr>"

subsection \<open>Allocation\<close>

definition allocate :: "Memory \<Rightarrow> size_t \<Rightarrow> bool \<Rightarrow> Packet \<Rightarrow> bool \<times> Packet" where
  "allocate mem remainingLength check p =
     (if \<not> mem_pool mem \<and> check \<and> mem_free mem < EMC_MIN_FREE_MEMORY then (False, p)
      else let size = 1 + ucast (remainingLengthLength remainingLength) + remainingLength
           in if mem_malloc mem size
              then (True, p\<lparr>p_size := size, p_data := Some (replicate (unat size) 0)\<rparr>)
              else (False, p\<lparr>p_size := 0, p_data := None\<rparr>))"

subsection \<open>Accessors\<close>

definition Packet_packetType :: "Packet \<Rightarrow> u8" where
  "Packet_packetType p = (case p_data p of Some (b # _) \<Rightarrow> b AND 0xF0 | _ \<Rightarrow> 0)"

definition Packet_size :: "Packet \<Rightarrow> size_t" where
  "Packet_size p = p_size p"

definition Packet_packetId :: "Packet \<Rightarrow> u16" where
  "Packet_packetId p = p_packetId p"

definition Packet_removable :: "Packet \<Rightarrow> bool" where
  "Packet_removable p =
     (if p_packetId p = 0 then True
      else if Packet_packetType p = PUBACK \<or> Packet_packetType p = PUBCOMP then True
      else False)"

definition Packet_setDup :: "Packet \<Rightarrow> Packet" where
  "Packet_setDup p =
     (case p_data p of
        None \<Rightarrow> p
      | Some data \<Rightarrow>
          if Packet_packetType p \<noteq> PUBLISH then p
          else if p_packetId p = 0 then p
          else p\<lparr>p_data := Some (data[0 := data ! 0 OR 0x08])\<rparr>)"

subsection \<open>Serialisers\<close>

text \<open>\<open>data[i] |= b\<close>\<close>

definition poke_or :: "u8 list \<Rightarrow> nat \<Rightarrow> u8 \<Rightarrow> u8 list option" where
  "poke_or data i b = do { old \<leftarrow> peek data i; poke data i (old OR b) }"

definition fillPublishHeader ::
    "u8 list \<Rightarrow> u16 \<Rightarrow> cstring \<Rightarrow> size_t \<Rightarrow> u8 \<Rightarrow> bool \<Rightarrow> (u8 list \<times> nat) option" where
  "fillPublishHeader data packetId topic remainingLength qos retain = do {
     data \<leftarrow> poke data 0 PUBLISH;
     data \<leftarrow> (if retain then poke_or data 0 PUBLISH_RETAIN else Some data);
     s \<leftarrow> (if qos = 0 then do { data \<leftarrow> poke_or data 0 PUBLISH_QOS0; Some (data, 1) }
          else if qos = 1 then do { data \<leftarrow> poke_or data 0 PUBLISH_QOS1; Some (data, 1) }
          else if qos = 2 then do { data \<leftarrow> poke_or data 0 PUBLISH_QOS2; Some (data, 1) }
          else Some (data, 0));
     s \<leftarrow> put (encodeRemainingLength remainingLength) s;
     s \<leftarrow> put (encodeString topic) s;
     if qos > 0 then do { s \<leftarrow> put [hi8 packetId] s; put [lo8 packetId] s } else Some s
   }"

definition publishRemainingLength :: "cstring \<Rightarrow> size_t \<Rightarrow> u8 \<Rightarrow> size_t" where
  "publishRemainingLength topic payloadLength qos =
     (let remainingLength = 2 + of_nat (length topic) + 2 + payloadLength
      in if qos = 0 then remainingLength - 2 else remainingLength)"

definition Packet_publish ::
    "Memory \<Rightarrow> u16 \<Rightarrow> cstring \<Rightarrow> u8 list \<Rightarrow> size_t \<Rightarrow> u8 \<Rightarrow> bool \<Rightarrow> (Error \<times> Packet) option" where
  "Packet_publish mem packetId topic payload payloadLength qos retain =
     (let remainingLength = publishRemainingLength topic payloadLength qos;
          p = blank (if qos = 0 then 0 else packetId) None;
          (ok, p) = allocate mem remainingLength True p
      in if \<not> ok then Some (OUT_OF_MEMORY, p)
         else do {
           data \<leftarrow> p_data p;
           s \<leftarrow> fillPublishHeader data packetId topic remainingLength qos retain;
           body \<leftarrow> region payload 0 (unat payloadLength);
           s \<leftarrow> put body s;
           Some (SUCCESS, p\<lparr>p_data := Some (fst s)\<rparr>)
         })"

definition Packet_publish_callback ::
    "Memory \<Rightarrow> u16 \<Rightarrow> cstring \<Rightarrow> PayloadCallback \<Rightarrow> size_t \<Rightarrow> u8 \<Rightarrow> bool \<Rightarrow> (Error \<times> Packet) option"
where
  "Packet_publish_callback mem packetId topic payloadCallback payloadLength qos retain =
     (let remainingLength = publishRemainingLength topic payloadLength qos;
          p = blank (if qos = 0 then 0 else packetId) (Some payloadCallback);
          (ok, p) = allocate mem
            (remainingLength - payloadLength + min payloadLength EMC_RX_BUFFER_SIZE) True p
      in if \<not> ok then Some (OUT_OF_MEMORY, p)
         else do {
           data \<leftarrow> p_data p;
           (data, pos) \<leftarrow> fillPublishHeader data packetId topic remainingLength qos retain;
           let pos = of_nat pos;
           Some (SUCCESS, p\<lparr>p_data := Some data, p_size := pos + payloadLength,
             p_payloadIndex := pos, p_payloadStartIndex := pos, p_payloadEndIndex := pos\<rparr>)
         })"

text \<open>The CONNECT flags: clean session, credentials, and the will with its retain flag and QoS.\<close>

definition connectFlags ::
    "bool \<Rightarrow> cstring option \<Rightarrow> cstring option \<Rightarrow> cstring option \<Rightarrow> bool \<Rightarrow> u8 \<Rightarrow> u8" where
  "connectFlags cleanSession username password willTopic willRetain willQos =
     (let flags = 0;
          flags = (if cleanSession then flags OR FLAG_CLEAN_SESSION else flags);
          flags = (if username \<noteq> None then flags OR FLAG_USERNAME else flags);
          flags = (if password \<noteq> None then flags OR FLAG_PASSWORD else flags)
      in if willTopic \<noteq> None
         then let flags = flags OR FLAG_WILL;
                  flags = (if willRetain then flags OR FLAG_WILL_RETAIN else flags)
              in if willQos = 0 then flags OR FLAG_WILL_QOS0
                 else if willQos = 1 then flags OR FLAG_WILL_QOS1
                 else if willQos = 2 then flags OR FLAG_WILL_QOS2
                 else flags
         else flags)"

definition putOptional :: "cstring option \<Rightarrow> u8 list \<times> nat \<Rightarrow> (u8 list \<times> nat) option" where
  "putOptional str s = (case str of None \<Rightarrow> Some s | Some c \<Rightarrow> put (encodeString c) s)"

text \<open>
  The length the constructor uses for the will payload: a payload given with length 0 is taken
  as a C string, and truncated to the 16-bit maximum.
\<close>

definition effectiveWillLength :: "u8 list option \<Rightarrow> u16 \<Rightarrow> u16 option" where
  "effectiveWillLength willPayload willPayloadLength =
     (case willPayload of
        Some payload \<Rightarrow>
          if willPayloadLength = 0 then do {
            n \<leftarrow> strlen payload;
            Some (if n > 65535 then 65535 else of_nat n)
          } else Some willPayloadLength
      | None \<Rightarrow> Some willPayloadLength)"

definition connectRemainingLength ::
    "cstring option \<Rightarrow> cstring option \<Rightarrow> cstring option \<Rightarrow> u16 \<Rightarrow> cstring \<Rightarrow> size_t" where
  "connectRemainingLength username password willTopic willPayloadLength clientId =
     6 + 1 + 1 + 2 + 2 + of_nat (length clientId) +
     (case willTopic of Some t \<Rightarrow> 2 + of_nat (length t) + 2 + ucast willPayloadLength | None \<Rightarrow> 0) +
     (case username of Some u \<Rightarrow> 2 + of_nat (length u) | None \<Rightarrow> 0) +
     (case password of Some u \<Rightarrow> 2 + of_nat (length u) | None \<Rightarrow> 0)"

text \<open>The will is written when it has both a topic and a payload.\<close>

definition putWill ::
    "cstring option \<Rightarrow> u8 list option \<Rightarrow> u16 \<Rightarrow> u8 list \<times> nat \<Rightarrow> (u8 list \<times> nat) option" where
  "putWill willTopic willPayload willPayloadLength s =
     (case (willTopic, willPayload) of
        (Some topic, Some payload) \<Rightarrow> do {
          s \<leftarrow> put (encodeString topic) s;
          s \<leftarrow> put [hi8 willPayloadLength] s;
          s \<leftarrow> put [lo8 willPayloadLength] s;
          body \<leftarrow> region payload 0 (unat willPayloadLength);
          put body s
        }
      | _ \<Rightarrow> Some s)"

definition fillConnect ::
    "u8 \<Rightarrow> u16 \<Rightarrow> cstring \<Rightarrow> cstring option \<Rightarrow> u8 list option \<Rightarrow> u16 \<Rightarrow> cstring option \<Rightarrow> cstring option \<Rightarrow>
     size_t \<Rightarrow> u8 list \<Rightarrow> (u8 list \<times> nat) option" where
  "fillConnect flags keepAlive clientId willTopic willPayload willPayloadLength username password
      remainingLength data = do {
     s \<leftarrow> put [CONNECT] (data, 0);
     s \<leftarrow> put (encodeRemainingLength remainingLength) s;
     s \<leftarrow> put (encodeString PROTOCOL) s;
     s \<leftarrow> put [PROTOCOL_LEVEL] s;
     s \<leftarrow> put [flags] s;
     s \<leftarrow> put [hi8 keepAlive] s;
     s \<leftarrow> put [lo8 keepAlive] s;
     s \<leftarrow> put (encodeString clientId) s;
     s \<leftarrow> putWill willTopic willPayload willPayloadLength s;
     s \<leftarrow> putOptional username s;
     putOptional password s
   }"

definition Packet_connect ::
    "Memory \<Rightarrow> bool \<Rightarrow> cstring option \<Rightarrow> cstring option \<Rightarrow> cstring option \<Rightarrow> bool \<Rightarrow> u8 \<Rightarrow>
     u8 list option \<Rightarrow> u16 \<Rightarrow> u16 \<Rightarrow> cstring option \<Rightarrow> (Error \<times> Packet) option" where
  "Packet_connect mem cleanSession username password willTopic willRetain willQos
       willPayload willPayloadLength keepAlive clientId = do {
     willPayloadLength \<leftarrow> effectiveWillLength willPayload willPayloadLength;
     (case clientId of
        None \<Rightarrow> Some (MALFORMED_PARAMETER, blank 0 None)
      | Some clientId \<Rightarrow>
          if length clientId = 0 then Some (MALFORMED_PARAMETER, blank 0 None)
          else
            let remainingLength =
                  connectRemainingLength username password willTopic willPayloadLength clientId;
                (ok, p) = allocate mem remainingLength False (blank 0 None)
            in if \<not> ok then Some (OUT_OF_MEMORY, p)
               else do {
                 data \<leftarrow> p_data p;
                 s \<leftarrow> fillConnect
                       (connectFlags cleanSession username password willTopic willRetain willQos)
                       keepAlive clientId willTopic willPayload willPayloadLength username password
                       remainingLength data;
                 Some (SUCCESS, p\<lparr>p_data := Some (fst s)\<rparr>)
               })
   }"

text \<open>SUBSCRIBE and UNSUBSCRIBE: one loop to size the packet, one to write it.\<close>

fun subscribePayload :: "(cstring \<times> u8) list \<Rightarrow> size_t" where
  "subscribePayload [] = 0"
| "subscribePayload ((topic, qos) # items) = 2 + of_nat (length topic) + 1 + subscribePayload items"

fun putSubscribeItems :: "(cstring \<times> u8) list \<Rightarrow> u8 list \<times> nat \<Rightarrow> (u8 list \<times> nat) option" where
  "putSubscribeItems [] s = Some s"
| "putSubscribeItems ((topic, qos) # items) s = do {
     s \<leftarrow> put (encodeString topic) s;
     s \<leftarrow> put [qos] s;
     putSubscribeItems items s
   }"

definition Packet_subscribe ::
    "Memory \<Rightarrow> u16 \<Rightarrow> (cstring \<times> u8) list \<Rightarrow> (Error \<times> Packet) option" where
  "Packet_subscribe mem packetId items =
     (let remainingLength = 2 + subscribePayload items;
          (ok, p) = allocate mem remainingLength True (blank packetId None)
      in if \<not> ok then Some (OUT_OF_MEMORY, p)
         else do {
           data \<leftarrow> p_data p;
           s \<leftarrow> put [SUBSCRIBE OR SUBSCRIBE_RESERVED] (data, 0);
           s \<leftarrow> put (encodeRemainingLength remainingLength) s;
           s \<leftarrow> put [hi8 packetId] s;
           s \<leftarrow> put [lo8 packetId] s;
           s \<leftarrow> putSubscribeItems items s;
           Some (SUCCESS, p\<lparr>p_data := Some (fst s)\<rparr>)
         })"

fun unsubscribePayload :: "cstring list \<Rightarrow> size_t" where
  "unsubscribePayload [] = 0"
| "unsubscribePayload (topic # topics) = 2 + of_nat (length topic) + unsubscribePayload topics"

fun putTopics :: "cstring list \<Rightarrow> u8 list \<times> nat \<Rightarrow> (u8 list \<times> nat) option" where
  "putTopics [] s = Some s"
| "putTopics (topic # topics) s = do { s \<leftarrow> put (encodeString topic) s; putTopics topics s }"

definition Packet_unsubscribe ::
    "Memory \<Rightarrow> u16 \<Rightarrow> cstring list \<Rightarrow> (Error \<times> Packet) option" where
  "Packet_unsubscribe mem packetId topics =
     (let remainingLength = 2 + unsubscribePayload topics;
          (ok, p) = allocate mem remainingLength True (blank packetId None)
      in if \<not> ok then Some (OUT_OF_MEMORY, p)
         else do {
           data \<leftarrow> p_data p;
           s \<leftarrow> put [UNSUBSCRIBE OR UNSUBSCRIBE_RESERVED] (data, 0);
           s \<leftarrow> put (encodeRemainingLength remainingLength) s;
           s \<leftarrow> put [hi8 packetId] s;
           s \<leftarrow> put [lo8 packetId] s;
           s \<leftarrow> putTopics topics s;
           Some (SUCCESS, p\<lparr>p_data := Some (fst s)\<rparr>)
         })"

text \<open>PUBACK, PUBREC, PUBREL and PUBCOMP.\<close>

definition Packet_ack :: "Memory \<Rightarrow> u8 \<Rightarrow> u16 \<Rightarrow> (Error \<times> Packet) option" where
  "Packet_ack mem type packetId =
     (let (ok, p) = allocate mem 2 True (blank packetId None)
      in if \<not> ok then Some (OUT_OF_MEMORY, p)
         else do {
           data \<leftarrow> p_data p;
           data \<leftarrow> poke data 0 type;
           data \<leftarrow> (if type = PUBREL then poke_or data 0 PUBREL_RESERVED else Some data);
           s \<leftarrow> put (encodeRemainingLength 2) (data, 1);
           s \<leftarrow> put [hi8 packetId] s;
           s \<leftarrow> put [lo8 packetId] s;
           Some (SUCCESS, p\<lparr>p_data := Some (fst s)\<rparr>)
         })"

text \<open>PINGREQ and DISCONNECT.\<close>

definition Packet_simple :: "Memory \<Rightarrow> u8 \<Rightarrow> (Error \<times> Packet) option" where
  "Packet_simple mem type =
     (let (ok, p) = allocate mem 0 True (blank 0 None)
      in if \<not> ok then Some (OUT_OF_MEMORY, p)
         else do {
           data \<leftarrow> p_data p;
           data \<leftarrow> poke_or data 0 type;
           Some (SUCCESS, p\<lparr>p_data := Some data\<rparr>)
         })"

subsection \<open>Reading a packet for sending\<close>

text \<open>
  One call of the payload callback: it may produce up to \<open>min EMC_TX_BUFFER_SIZE (_size -
  _payloadStartIndex)\<close> bytes, and stores them at \<open>&_data[_payloadIndex]\<close>. The result is the number
  of bytes it says it has copied.
\<close>

definition fetchPayload :: "size_t \<Rightarrow> Packet \<Rightarrow> (size_t \<times> Packet) option" where
  "fetchPayload index p = do {
     getPayload \<leftarrow> p_getPayload p;
     data \<leftarrow> p_data p;
     let bytes = getPayload (min EMC_TX_BUFFER_SIZE (p_size p - p_payloadStartIndex p)) index;
     (data, _) \<leftarrow> put bytes (data, unat (p_payloadIndex p));
     Some (of_nat (length bytes), p\<lparr>p_data := Some data\<rparr>)
   }"

definition chunkedAvailable :: "size_t \<Rightarrow> Packet \<Rightarrow> (size_t \<times> Packet) option" where
  "chunkedAvailable index p = do {
     p \<leftarrow>
       (if index < p_payloadIndex p then
          if p_size p > p_payloadIndex p \<and> p_payloadEndIndex p \<noteq> 0 then do {
            (copied, p) \<leftarrow> fetchPayload index p;
            let p = p\<lparr>p_payloadStartIndex := p_payloadIndex p\<rparr>;
            Some (p\<lparr>p_payloadEndIndex := p_payloadStartIndex p + copied - 1\<rparr>)
          } else Some p
        else if index > p_payloadEndIndex p \<or> p_payloadStartIndex p > index then do {
          let p = p\<lparr>p_payloadStartIndex := index\<rparr>;
          (copied, p) \<leftarrow> fetchPayload index p;
          Some (p\<lparr>p_payloadEndIndex := p_payloadStartIndex p + copied - 1\<rparr>)
        } else Some p);
     Some (p_payloadEndIndex p - index + 1, p)
   }"

definition Packet_available :: "size_t \<Rightarrow> Packet \<Rightarrow> (size_t \<times> Packet) option" where
  "Packet_available index p =
     (if index \<ge> p_size p then Some (0, p)
      else if p_getPayload p = None then Some (p_size p - index, p)
      else chunkedAvailable index p)"

text \<open>The pointers the two \<open>data\<close> functions return, as offsets into \<open>_data\<close>; \<open>None\<close> is \<open>nullptr\<close>.\<close>

definition chunkedData :: "size_t \<Rightarrow> Packet \<Rightarrow> size_t" where
  "chunkedData index p =
     (if index < p_payloadIndex p then index
      else index - p_payloadStartIndex p + p_payloadIndex p)"

definition Packet_data :: "size_t \<Rightarrow> Packet \<Rightarrow> size_t option" where
  "Packet_data index p =
     (if p_getPayload p = None then
        if p_data p = None then None
        else if index \<ge> p_size p then None
        else Some index
      else Some (chunkedData index p))"

text \<open>What a reader of \<open>n\<close> bytes from the pointer that \<open>data(index)\<close> returns gets to see.\<close>

definition Packet_bytes :: "size_t \<Rightarrow> size_t \<Rightarrow> Packet \<Rightarrow> u8 list option" where
  "Packet_bytes index n p = do {
     off \<leftarrow> Packet_data index p;
     data \<leftarrow> p_data p;
     region data (unat off) (unat n)
   }"

subsection \<open>Allocation and the filling of a buffer\<close>

text \<open>When the memory lets a packet with this remaining length be built.\<close>

definition accepts :: "Memory \<Rightarrow> bool \<Rightarrow> size_t \<Rightarrow> bool" where
  "accepts mem check remainingLength \<longleftrightarrow>
     \<not> (\<not> mem_pool mem \<and> check \<and> mem_free mem < EMC_MIN_FREE_MEMORY) \<and>
     mem_malloc mem (1 + ucast (remainingLengthLength remainingLength) + remainingLength)"

lemma packet_size:
  assumes "n \<le> 268435455"
  shows "1 + ucast (remainingLengthLength n) + n =
      (of_nat (1 + length (encodeRemainingLength n) + unat n) :: u32)"
    and "unat (1 + ucast (remainingLengthLength n) + n :: u32) =
      1 + length (encodeRemainingLength n) + unat n"
proof -
  have len: "length (encodeRemainingLength n) = unat (remainingLengthLength n)"
    using assms by (rule length_encode_eq)
  have "unat n \<le> 268435455"
    using assms by (simp add: word_le_nat_alt)
  moreover have "unat (remainingLengthLength n) \<le> 4"
    by (simp add: remainingLengthLength_def)
  ultimately have small: "1 + length (encodeRemainingLength n) + unat n < 2 ^ 32"
    by (simp add: len)
  show eq: "1 + ucast (remainingLengthLength n) + n =
      (of_nat (1 + length (encodeRemainingLength n) + unat n) :: u32)"
    by (simp add: len add.assoc)
  show "unat (1 + ucast (remainingLengthLength n) + n :: u32) =
      1 + length (encodeRemainingLength n) + unat n"
    unfolding eq using small by (rule unat_of_nat32)
qed

lemma allocate_accepted:
  assumes "accepts mem check n" and "n \<le> 268435455"
  shows "allocate mem n check p =
    (True, p\<lparr>p_size := 1 + ucast (remainingLengthLength n) + n,
             p_data := Some (replicate (1 + length (encodeRemainingLength n) + unat n) 0)\<rparr>)"
  using assms by (auto simp: allocate_def accepts_def Let_def packet_size(2))

lemma allocate_refused:
  "\<not> accepts mem check n \<Longrightarrow> p_size p = 0 \<Longrightarrow> p_data p = None \<Longrightarrow> allocate mem n check p = (False, p)"
  by (auto simp: allocate_def accepts_def Let_def)

lemma put_append:
  "length a + length b \<le> room \<Longrightarrow>
     Option.bind (put a (filled d room)) (put b) = put (a @ b) (filled d room)"
  by (simp add: buffer_simps)

lemma byte_le_2: "(qos :: u8) \<le> 2 \<Longrightarrow> qos = 0 \<or> qos = 1 \<or> qos = 2"
  by unat_arith

lemma fillPublishHeader_filled:
  assumes qos: "qos \<le> 2" and topic: "length topic \<le> 65535"
    and room: "length (encodeRemainingLength rl) + length (publish_body packetId topic [] qos) \<le> room"
  shows "fillPublishHeader (replicate (Suc room) 0) packetId topic rl qos retain =
    Some (filled (publish_header False qos retain # encodeRemainingLength rl @
        publish_body packetId topic [] qos)
      (room - length (encodeRemainingLength rl) - length (publish_body packetId topic [] qos)))"
proof -
  have start: "(b # replicate room 0, 1) = filled [b] room" for b :: u8
    by (simp add: filled_def)
  show ?thesis
    using byte_le_2 [OF qos] topic room
    by (auto simp: fillPublishHeader_def poke_or_def publish_header_def publish_body_def
        start [simplified] buffer_simps wire_u16_def Let_def)
qed

text \<open>A packet whose buffer holds exactly these bytes.\<close>

definition packet_of :: "u16 \<Rightarrow> u8 list \<Rightarrow> Packet" where
  "packet_of packetId bytes =
     (blank packetId None)\<lparr>p_size := of_nat (length bytes), p_data := Some bytes\<rparr>"

text \<open>An allocation for a body that fits: a zeroed buffer for header, length and body.\<close>

lemma allocate_body:
  assumes body: "fits body" and acc: "accepts mem check (of_nat (length body))"
  shows "allocate mem (of_nat (length body)) check (blank packetId None) =
    (True, packet_of packetId
       (replicate (Suc (length (encodeRemainingLength (of_nat (length body))) + length body)) 0))"
  using allocate_accepted [OF acc fits_word [OF body], of "blank packetId None"]
    packet_size(1) [OF fits_word [OF body]]
  by (simp add: packet_of_def blank_def fits_unat [OF body] add.assoc)

lemma packet_of_data [simp]: "p_data (packet_of packetId bytes) = Some bytes"
  by (simp add: packet_of_def)

lemma packet_of_update [simp]:
  "length bytes' = length bytes \<Longrightarrow>
     packet_of packetId bytes\<lparr>p_data := Some bytes'\<rparr> = packet_of packetId bytes'"
  by (simp add: packet_of_def)

lemma fst_filled [simp]: "fst (filled d 0) = d"
  by (simp add: filled_def)

lemma filled_full: "filled d 0 = (d, length d)"
  by (simp add: filled_def)

lemma filled_replicate: "(replicate n 0, 0) = filled [] n"
  by (simp add: filled_def)

lemma publishRemainingLength_body:
  "publishRemainingLength topic (of_nat (length payload)) qos =
     of_nat (length (publish_body packetId topic payload qos))"
  by (simp add: publishRemainingLength_def Let_def length_publish_body)

lemma publish_body_split:
  "publish_body packetId topic payload qos = publish_body packetId topic [] qos @ payload"
  by (simp add: publish_body_def)

lemma Packet_publish_eq:
  assumes "qos \<le> 2" and "length topic \<le> 65535"
    and body: "fits (publish_body packetId topic payload qos)"
  shows "Packet_publish mem packetId topic payload (of_nat (length payload)) qos retain =
    Some (if accepts mem True (of_nat (length (publish_body packetId topic payload qos)))
          then (SUCCESS, packet_of (if qos = 0 then 0 else packetId)
                  (wire_publish False packetId topic payload qos retain))
          else (OUT_OF_MEMORY, blank (if qos = 0 then 0 else packetId) None))"
proof -
  define body where "body = publish_body packetId topic payload qos"
  define start where "start = publish_body packetId topic [] qos"
  define rl :: u32 where "rl = of_nat (length body)"
  define enc where "enc = encodeRemainingLength rl"
  define pid where "pid = (if qos = 0 then 0 else packetId)"
  have fits: "fits body"
    using assms(3) by (simp only: body_def)
  have split: "body = start @ payload"
    by (simp only: body_def start_def publish_body_def append.assoc append_Nil2)
  have rl_eq: "publishRemainingLength topic (of_nat (length payload)) qos = rl"
    unfolding body_def rl_def by (rule publishRemainingLength_body)
  have header: "fillPublishHeader (replicate (Suc (length enc + length body)) 0) packetId topic
      rl qos retain =
    Some (filled (publish_header False qos retain # enc @ start) (length payload))"
    using fillPublishHeader_filled [OF assms(1,2), of rl packetId "length enc + length body" retain]
    by (simp add: start_def [symmetric] enc_def [symmetric] split)
  have payload: "unat (of_nat (length payload) :: u32) = length payload"
    using fits by (intro unat_of_nat32) (simp add: fits_def split)
  have wire: "wire_publish False packetId topic payload qos retain =
      publish_header False qos retain # enc @ body"
    by (simp only: wire_publish_def wire_packet_def body_def enc_def rl_def)
  show ?thesis
  proof (cases "accepts mem True (of_nat (length body))")
    case True
    show ?thesis
      using True unfolding wire body_def [symmetric] pid_def [symmetric] Packet_publish_def rl_eq Let_def
      by (simp only: allocate_body [OF fits True, folded rl_def enc_def] prod.case packet_of_data
          bind.bind_lunit header payload if_True)
        (simp add: payload buffer_simps split)
  next
    case False
    then show ?thesis
      unfolding body_def [symmetric] pid_def [symmetric] Packet_publish_def rl_eq Let_def rl_def
      by (simp add: allocate_refused blank_def)
  qed
qed

subsection \<open>The other constructors\<close>

abbreviation (input) wire_items :: "(cstring \<times> u8) list \<Rightarrow> u8 list" where
  "wire_items items \<equiv> concat (map (\<lambda>(topic, qos). wire_string topic @ [qos]) items)"

lemma putSubscribeItems_filled:
  "\<forall>(topic, qos) \<in> set items. length topic \<le> 65535 \<Longrightarrow> length (wire_items items) \<le> room \<Longrightarrow>
     putSubscribeItems items (filled d room) =
     Some (filled (d @ wire_items items) (room - length (wire_items items)))"
proof (induction items arbitrary: d room)
  case Nil
  then show ?case by simp
next
  case (Cons item items)
  then show ?case
    by (cases item) (simp add: buffer_simps add.commute)
qed

lemma putTopics_filled:
  "\<forall>topic \<in> set topics. length topic \<le> 65535 \<Longrightarrow> length (concat (map wire_string topics)) \<le> room \<Longrightarrow>
     putTopics topics (filled d room) =
     Some (filled (d @ concat (map wire_string topics)) (room - length (concat (map wire_string topics))))"
proof (induction topics arbitrary: d room)
  case Nil
  then show ?case by simp
next
  case (Cons topic topics)
  then show ?case
    by (simp add: buffer_simps add.commute)
qed

lemma subscribePayload_body:
  "2 + subscribePayload items = of_nat (length (subscribe_body packetId items))"
proof -
  have "subscribePayload items = of_nat (length (wire_items items))"
    by (induction items rule: subscribePayload.induct) (simp_all add: algebra_simps)
  then show ?thesis by (simp add: subscribe_body_def)
qed

lemma unsubscribePayload_body:
  "2 + unsubscribePayload topics = of_nat (length (unsubscribe_body packetId topics))"
proof -
  have "unsubscribePayload topics = of_nat (length (concat (map wire_string topics)))"
    by (induction topics) (simp_all add: algebra_simps)
  then show ?thesis by (simp add: unsubscribe_body_def)
qed

text \<open>
  Every constructor without payload callback has this shape: allocate for the body, then fill the
  buffer; what is left is to show that the filling produces the header, the length and the body.
\<close>

lemma build_packet:
  assumes body: "fits body"
    and fill: "\<And>n. n = length (encodeRemainingLength (of_nat (length body))) + length body \<Longrightarrow>
      \<exists>pos. fill (replicate (Suc n) 0) = Some (wire_packet header body, pos)"
  shows "(let (ok, p) = allocate mem (of_nat (length body)) check (blank packetId None)
          in if \<not> ok then Some (OUT_OF_MEMORY, p)
             else do { data \<leftarrow> p_data p; s \<leftarrow> fill data; Some (SUCCESS, p\<lparr>p_data := Some (fst s)\<rparr>) }) =
    Some (if accepts mem check (of_nat (length body))
          then (SUCCESS, packet_of packetId (wire_packet header body))
          else (OUT_OF_MEMORY, blank packetId None))"
proof (cases "accepts mem check (of_nat (length body))")
  case True
  have "length (wire_packet header body) =
      Suc (length (encodeRemainingLength (of_nat (length body))) + length body)"
    by (simp add: wire_packet_def)
  with fill [OF refl] True show ?thesis
    by (auto simp only: allocate_body [OF body True] Let_def prod.case packet_of_data bind.bind_lunit
        if_True if_False not_True_eq_False fst_conv packet_of_update length_replicate)
next
  case False
  then show ?thesis
    by (simp add: allocate_refused blank_def)
qed

lemma Packet_subscribe_eq:
  assumes fits: "fits (subscribe_body packetId items)"
    and topics: "\<forall>(topic, qos) \<in> set items. length topic \<le> 65535"
  shows "Packet_subscribe mem packetId items =
    Some (if accepts mem True (of_nat (length (subscribe_body packetId items)))
          then (SUCCESS, packet_of packetId
                  (wire_packet (SUBSCRIBE OR SUBSCRIBE_RESERVED) (subscribe_body packetId items)))
          else (OUT_OF_MEMORY, blank packetId None))"
proof -
  define rl :: u32 where "rl = of_nat (length (subscribe_body packetId items))"
  define fill where "fill = (\<lambda>data. do {
      s \<leftarrow> put [SUBSCRIBE OR SUBSCRIBE_RESERVED] (data, 0);
      s \<leftarrow> put (encodeRemainingLength rl) s;
      s \<leftarrow> put [hi8 packetId] s;
      s \<leftarrow> put [lo8 packetId] s;
      putSubscribeItems items s })"
  have wire: "wire_packet h (subscribe_body packetId items) =
      h # encodeRemainingLength rl @ subscribe_body packetId items" for h
    by (simp only: wire_packet_def rl_def)
  have "fill (replicate (Suc n) 0) =
      Some (filled (wire_packet (SUBSCRIBE OR SUBSCRIBE_RESERVED) (subscribe_body packetId items)) 0)"
    if n: "n = length (encodeRemainingLength rl) + length (subscribe_body packetId items)" for n
    using topics n
    by (simp only: fill_def filled_replicate wire)
      (simp add: buffer_simps putSubscribeItems_filled subscribe_body_def wire_u16_def)
  with build_packet [OF fits, folded rl_def, of fill "SUBSCRIBE OR SUBSCRIBE_RESERVED" mem True packetId]
  show ?thesis
    by (simp add: filled_full Packet_subscribe_def subscribePayload_body [of _ packetId] fill_def Let_def
        del: of_nat_add flip: rl_def cong: if_cong)
qed

lemma Packet_unsubscribe_eq:
  assumes fits: "fits (unsubscribe_body packetId topics)"
    and topics: "\<forall>topic \<in> set topics. length topic \<le> 65535"
  shows "Packet_unsubscribe mem packetId topics =
    Some (if accepts mem True (of_nat (length (unsubscribe_body packetId topics)))
          then (SUCCESS, packet_of packetId
                  (wire_packet (UNSUBSCRIBE OR UNSUBSCRIBE_RESERVED) (unsubscribe_body packetId topics)))
          else (OUT_OF_MEMORY, blank packetId None))"
proof -
  define rl :: u32 where "rl = of_nat (length (unsubscribe_body packetId topics))"
  define fill where "fill = (\<lambda>data. do {
      s \<leftarrow> put [UNSUBSCRIBE OR UNSUBSCRIBE_RESERVED] (data, 0);
      s \<leftarrow> put (encodeRemainingLength rl) s;
      s \<leftarrow> put [hi8 packetId] s;
      s \<leftarrow> put [lo8 packetId] s;
      putTopics topics s })"
  have wire: "wire_packet h (unsubscribe_body packetId topics) =
      h # encodeRemainingLength rl @ unsubscribe_body packetId topics" for h
    by (simp only: wire_packet_def rl_def)
  have "fill (replicate (Suc n) 0) =
      Some (filled (wire_packet (UNSUBSCRIBE OR UNSUBSCRIBE_RESERVED) (unsubscribe_body packetId topics)) 0)"
    if n: "n = length (encodeRemainingLength rl) + length (unsubscribe_body packetId topics)" for n
    using topics n
    by (simp only: fill_def filled_replicate wire)
      (simp add: buffer_simps putTopics_filled unsubscribe_body_def wire_u16_def)
  with build_packet [OF fits, folded rl_def, of fill "UNSUBSCRIBE OR UNSUBSCRIBE_RESERVED" mem True packetId]
  show ?thesis
    by (simp add: filled_full Packet_unsubscribe_def unsubscribePayload_body [of _ packetId] fill_def Let_def
        del: of_nat_add flip: rl_def cong: if_cong)
qed

lemma fits_u16: "fits (wire_u16 w)"
  by (simp add: fits_def)

lemma Packet_ack_eq:
  "Packet_ack mem type packetId =
    Some (if accepts mem True 2
          then (SUCCESS, packet_of packetId (wire_ack type packetId))
          else (OUT_OF_MEMORY, blank packetId None))"
proof -
  define header where "header = (if type = PUBREL then PUBREL OR PUBREL_RESERVED else type)"
  define fill where "fill = (\<lambda>data. do {
      data \<leftarrow> poke data 0 type;
      data \<leftarrow> (if type = PUBREL then poke_or data 0 PUBREL_RESERVED else Some data);
      s \<leftarrow> put (encodeRemainingLength 2) (data, 1);
      s \<leftarrow> put [hi8 packetId] s;
      put [lo8 packetId] s })"
  have enc: "encodeRemainingLength 2 = [2]"
    by (simp add: encode_last)
  have "fill (replicate (Suc n) 0) = Some (filled (wire_packet header (wire_u16 packetId)) 0)"
    if n: "n = length (encodeRemainingLength (of_nat (length (wire_u16 packetId)))) + length (wire_u16 packetId)" for n
    using n by (simp add: fill_def poke_or_def put_def filled_def enc wire_packet_def
        header_def wire_u16_def)
  with build_packet [OF fits_u16, of packetId fill header mem True packetId] show ?thesis
    by (simp add: filled_full Packet_ack_def fill_def Let_def wire_ack_def header_def cong: if_cong)
qed

lemma Packet_simple_eq:
  "Packet_simple mem type =
    Some (if accepts mem True 0
          then (SUCCESS, packet_of 0 (wire_packet type []))
          else (OUT_OF_MEMORY, blank 0 None))"
proof -
  define fill where "fill = (\<lambda>data. map_option (\<lambda>data. (data, 2 :: nat)) (poke_or data 0 type))"
  have enc: "encodeRemainingLength 0 = [0]"
    by (simp add: encode_last)
  have "fill (replicate (Suc n) 0) = Some (filled (wire_packet type []) 0)"
    if n: "n = length (encodeRemainingLength (of_nat (length ([] :: u8 list)))) + length ([] :: u8 list)" for n
    using n by (simp add: fill_def poke_or_def wire_packet_def filled_def enc)
  with build_packet [of "[]" fill type mem True 0] show ?thesis
    by (simp add: filled_full Packet_simple_def fill_def Let_def fits_def bind_map_option comp_def cong: if_cong)
qed

text \<open>
  CONNECT. The payload of the will is memory of the user: without a length it is a C string, which is
  cut after 65535 bytes, with a length that many bytes of it are read.
\<close>

definition short_option :: "cstring option \<Rightarrow> bool" where
  "short_option str = (case str of None \<Rightarrow> True | Some c \<Rightarrow> length c \<le> 65535)"

definition will_memory :: "u8 list option \<Rightarrow> u16 \<Rightarrow> bool" where
  "will_memory willPayload n = (case willPayload of None \<Rightarrow> True
     | Some mem \<Rightarrow> if n = 0 then 0 \<in> set mem else unat n \<le> length mem)"

definition will_bytes :: "u8 list \<Rightarrow> u16 \<Rightarrow> u8 list" where
  "will_bytes mem n = (if n = 0 then take 65535 (takeWhile (\<lambda>b. b \<noteq> 0) mem) else take (unat n) mem)"

text \<open>The will that is written, which takes both a topic and a payload, and the room that is reserved
  for a will of which only the topic is given and nothing is written.\<close>

definition will_fields :: "cstring option \<Rightarrow> u8 list option \<Rightarrow> u16 \<Rightarrow> (cstring \<times> u8 list) option" where
  "will_fields willTopic willPayload n = (case (willTopic, willPayload) of
     (Some topic, Some mem) \<Rightarrow> Some (topic, will_bytes mem n) | _ \<Rightarrow> None)"

definition will_gap :: "cstring option \<Rightarrow> u8 list option \<Rightarrow> u16 \<Rightarrow> nat" where
  "will_gap willTopic willPayload n = (case (willTopic, willPayload) of
     (Some topic, None) \<Rightarrow> 4 + length topic + unat n | _ \<Rightarrow> 0)"

definition will_size :: "u8 list option \<Rightarrow> u16 \<Rightarrow> u16" where
  "will_size willPayload n = (case willPayload of None \<Rightarrow> n | Some mem \<Rightarrow> of_nat (length (will_bytes mem n)))"

lemma putOptional_filled:
  "short_option str \<Longrightarrow> length (optional_string str) \<le> room \<Longrightarrow>
     putOptional str (filled d room) =
     Some (filled (d @ optional_string str) (room - length (optional_string str)))"
  by (auto simp: short_option_def putOptional_def optional_string_def buffer_simps split: option.splits)

lemma length_will_bytes: "length (will_bytes mem n) \<le> 65535"
  using u16_bound [of n] by (simp add: will_bytes_def min_le_iff_disj less_Suc_eq_le)

lemma unat_will_size [simp]: "unat (of_nat (length (will_bytes mem n)) :: u16) = length (will_bytes mem n)"
  using length_will_bytes [of mem n] by (simp add: unat_of_nat16)

lemma effectiveWillLength_eq:
  assumes "will_memory willPayload n"
  shows "effectiveWillLength willPayload n = Some (will_size willPayload n)"
proof (cases willPayload)
  case (Some mem)
  have "(of_nat (min (length mem) (unat n)) :: u16) = n" if "unat n \<le> length mem"
    using that by (simp add: min_absorb2)
  with assms Some show ?thesis
    by (auto simp: effectiveWillLength_def will_size_def will_memory_def will_bytes_def strlen_def min_def)
qed (simp add: effectiveWillLength_def will_size_def)

lemma will_region:
  assumes "will_memory (Some mem) n"
  shows "region mem 0 (length (will_bytes mem n)) = Some (will_bytes mem n)"
proof -
  have prefix: "take (length (takeWhile P mem)) mem = takeWhile P mem" for P :: "u8 \<Rightarrow> bool"
    by (rule takeWhile_eq_take [symmetric])
  have cut: "take (min k (length (takeWhile P mem))) mem = take k (takeWhile P mem)" for P :: "u8 \<Rightarrow> bool" and k
    using take_take [of k "length (takeWhile P mem)" mem] unfolding prefix by simp
  have "length (will_bytes mem n) \<le> length mem"
    using length_takeWhile_le [of "\<lambda>b. b \<noteq> 0" mem] by (simp add: will_bytes_def min_le_iff_disj)
  moreover have "take (length (will_bytes mem n)) mem = will_bytes mem n"
    using assms cut [of 65535] by (simp add: will_bytes_def will_memory_def min.commute)
  ultimately show ?thesis
    by (simp add: region_def)
qed

lemma connectRemainingLength_body:
  "connectRemainingLength username password willTopic (will_size willPayload n) clientId =
    of_nat (length (connect_body flags keepAlive clientId (will_fields willTopic willPayload n) username password @
      replicate (will_gap willTopic willPayload n) 0))"
proof -
  have "ucast (of_nat (length (will_bytes mem n)) :: u16) = (of_nat (length (will_bytes mem n)) :: u32)" for mem
    using length_will_bytes [of mem n] by (simp add: word_unat_eq_iff unat_of_nat32)
  moreover have "ucast n = (of_nat (unat n) :: u32)"
    by (simp add: word_unat_eq_iff)
  ultimately show ?thesis
    by (auto simp: connectRemainingLength_def connect_body_def will_body_def optional_string_def
        will_fields_def will_gap_def will_size_def split: option.splits)
qed

text \<open>However long its fields are, a CONNECT body never needs more than four length bytes.\<close>

lemma connect_fits:
  assumes "length clientId \<le> 65535" and "short_option willTopic"
    and "short_option username" and "short_option password"
  shows "fits (connect_body flags keepAlive clientId (will_fields willTopic willPayload n) username password @
      replicate (will_gap willTopic willPayload n) 0)"
proof -
  have opt: "short_option str \<Longrightarrow> length (optional_string str) \<le> 65537" for str
    by (cases str) (simp_all add: short_option_def optional_string_def)
  have "length (will_body (will_fields willTopic willPayload n)) \<le> 131074"
  proof (cases willTopic; cases willPayload)
    fix topic mem assume "willTopic = Some topic" "willPayload = Some mem"
    then show ?thesis
      using assms(2) length_will_bytes [of mem n]
      by (simp add: will_fields_def will_body_def short_option_def)
  qed (simp_all add: will_fields_def will_body_def)
  moreover have "will_gap willTopic willPayload n \<le> 131074"
    using assms(2) u16_bound [of n] by (auto simp: will_gap_def short_option_def split: option.splits)
  ultimately show ?thesis
    using assms(1) opt [OF assms(3)] opt [OF assms(4)] by (simp add: fits_def connect_body_def)
qed

lemma Packet_connect_fill:
  assumes "effectiveWillLength willPayload willPayloadLength = Some n" and "clientId \<noteq> []"
  shows "Packet_connect mem cleanSession username password willTopic willRetain willQos
      willPayload willPayloadLength keepAlive (Some clientId) =
    (let remainingLength = connectRemainingLength username password willTopic n clientId;
         (ok, p) = allocate mem remainingLength False (blank 0 None)
     in if \<not> ok then Some (OUT_OF_MEMORY, p)
        else do {
          data \<leftarrow> p_data p;
          s \<leftarrow> fillConnect (connectFlags cleanSession username password willTopic willRetain willQos)
                keepAlive clientId willTopic willPayload n username password remainingLength data;
          Some (SUCCESS, p\<lparr>p_data := Some (fst s)\<rparr>)
        })"
  using assms by (simp add: Packet_connect_def)

lemma putWill_filled:
  assumes "will_memory willPayload n" and "short_option willTopic"
    and "length (will_body (will_fields willTopic willPayload n)) \<le> room"
  shows "putWill willTopic willPayload (will_size willPayload n) (filled d room) =
    Some (filled (d @ will_body (will_fields willTopic willPayload n))
      (room - length (will_body (will_fields willTopic willPayload n))))"
  using assms will_region [of _ n]
  by (auto simp: putWill_def will_body_def will_fields_def will_size_def short_option_def buffer_simps
      wire_string_def wire_u16_def split: option.splits)

lemma fillConnect_filled:
  assumes client: "length clientId \<le> 65535" and w: "will_memory willPayload n" "short_option willTopic"
    and cred: "short_option username" "short_option password"
    and k: "k = length (encodeRemainingLength rl) +
      length (connect_body flags keepAlive clientId (will_fields willTopic willPayload n) username password) + gap"
  shows "fillConnect flags keepAlive clientId willTopic willPayload (will_size willPayload n)
      username password rl (replicate (Suc k) 0) =
    Some (filled (CONNECT # encodeRemainingLength rl @
      connect_body flags keepAlive clientId (will_fields willTopic willPayload n) username password) gap)"
  using client cred k
  by (simp only: fillConnect_def filled_replicate)
    (simp add: buffer_simps putWill_filled [OF w] putOptional_filled connect_body_def wire_u16_def)

lemma Packet_connect_eq:
  fixes cleanSession username password willTopic willRetain willQos willPayload n keepAlive clientId
  defines "body \<equiv> connect_body
      (connectFlags cleanSession username password willTopic willRetain willQos)
      keepAlive clientId (will_fields willTopic willPayload n) username password @
      replicate (will_gap willTopic willPayload n) 0"
  assumes client: "clientId \<noteq> []" "length clientId \<le> 65535"
    and w: "will_memory willPayload n" "short_option willTopic"
    and cred: "short_option username" "short_option password"
  shows "Packet_connect mem cleanSession username password willTopic willRetain willQos
      willPayload n keepAlive (Some clientId) =
    Some (if accepts mem False (of_nat (length body))
          then (SUCCESS, packet_of 0 (wire_packet CONNECT body))
          else (OUT_OF_MEMORY, blank 0 None))"
proof -
  let ?flags = "connectFlags cleanSession username password willTopic willRetain willQos"
  have fits: "fits body"
    unfolding body_def by (rule connect_fits [OF client(2) w(2) cred])
  define rl :: u32 where "rl = of_nat (length body)"
  define fill where "fill = fillConnect ?flags keepAlive clientId willTopic willPayload
      (will_size willPayload n) username password rl"
  have wire: "wire_packet CONNECT body = CONNECT # encodeRemainingLength rl @ body"
    by (simp only: wire_packet_def rl_def)
  have "\<exists>pos. fill (replicate (Suc k) 0) = Some (wire_packet CONNECT body, pos)"
    if "k = length (encodeRemainingLength rl) + length body" for k
    unfolding fill_def wire
    using fillConnect_filled [OF client(2) w cred, of k rl ?flags keepAlive "will_gap willTopic willPayload n"] that
    by (simp add: body_def filled_def)
  with build_packet [OF fits, folded rl_def, of fill CONNECT mem False 0] show ?thesis
    unfolding Packet_connect_fill [OF effectiveWillLength_eq [OF w(1)] client(1)]
      connectRemainingLength_body [of username password willTopic willPayload n clientId ?flags keepAlive]
      body_def [symmetric] rl_def [symmetric] fill_def [symmetric] Let_def
    by (simp add: Let_def)
qed

subsection \<open>The duplicate flag\<close>

lemma packetType_packet_of:
  "Packet_packetType (packet_of packetId (wire_packet h body)) = h AND 0xF0"
  by (simp add: Packet_packetType_def wire_packet_def)

lemma publish_header_type: "qos \<le> 2 \<Longrightarrow> publish_header dup qos retain AND 0xF0 = PUBLISH"
  by (drule byte_le_2) (auto simp: publish_header_def)

lemma publish_header_dup:
  "qos \<le> 2 \<Longrightarrow> publish_header dup qos retain OR 0x08 = publish_header True qos retain"
  by (drule byte_le_2) (auto simp: publish_header_def)

lemma setDup_publish:
  assumes "qos \<le> 2" and "packetId \<noteq> 0"
  shows "Packet_setDup (packet_of packetId (wire_publish dup packetId topic payload qos retain)) =
    packet_of packetId (wire_publish True packetId topic payload qos retain)"
  using assms publish_header_dup [OF assms(1)]
  by (simp add: Packet_setDup_def wire_publish_def packetType_packet_of publish_header_type)
    (simp add: packet_of_def wire_packet_def blank_def)

lemma setDup_other:
  "Packet_packetType p \<noteq> PUBLISH \<or> p_packetId p = 0 \<Longrightarrow> Packet_setDup p = p"
  by (auto simp: Packet_setDup_def split: option.splits)

subsection \<open>Correctness\<close>

text \<open>A memory without limits, for the concrete instances.\<close>

definition ample :: Memory where
  "ample = \<lparr>mem_pool = True, mem_free = 0, mem_malloc = (\<lambda>_. True)\<rparr>"

lemma accepts_ample [simp]: "accepts ample check n"
  by (simp add: accepts_def ample_def)

text \<open>C10: The PUBLISH constructor never writes outside its buffer. With enough memory it reports
  success and its buffer is exactly the MQTT encoding of the topic, packet id (dropped for QoS 0)
  and payload; otherwise it reports OUT_OF_MEMORY and leaves no buffer.\<close>

theorem publish_serialised:
  assumes "qos \<le> 2" and "length topic \<le> 65535"
    and "fits (publish_body packetId topic payload qos)"
  shows "Packet_publish mem packetId topic payload (of_nat (length payload)) qos retain =
    Some (if accepts mem True (of_nat (length (publish_body packetId topic payload qos)))
          then (SUCCESS, packet_of (if qos = 0 then 0 else packetId)
                  (wire_publish False packetId topic payload qos retain))
          else (OUT_OF_MEMORY, blank (if qos = 0 then 0 else packetId) None))"
  using assms by (rule Packet_publish_eq)

theorem publish_serialised_witness:
  "Packet_publish ample 7 [97, 98] [1, 2, 3] 3 1 True =
    Some (SUCCESS, packet_of 7 [0x33, 9, 0, 2, 97, 98, 0, 7, 1, 2, 3])"
proof -
  have len: "length (publish_body 7 [97, 98] [1, 2, 3] 1) = 9"
    by (simp add: length_publish_body)
  have "fits (publish_body 7 [97, 98] [1, 2, 3] 1)"
    by (simp add: fits_def len)
  from publish_serialised [OF _ _ this, of ample True] show ?thesis
    by (simp add: wire_publish_def wire_packet_def encode_last len publish_header_def)
      (simp add: publish_body_def wire_string_def wire_u16_def hi8_def lo8_def)
qed

lemma connectFlags_reference:
  assumes "willQos \<le> 2"
  shows "connectFlags cleanSession username password willTopic willRetain willQos =
    connect_flags cleanSession (username \<noteq> None) (password \<noteq> None) (willTopic \<noteq> None) willRetain willQos"
proof -
  have "willQos = 0 \<or> willQos = 1 \<or> willQos = 2" using assms by unat_arith
  then show ?thesis
    unfolding connectFlags_def connect_flags_def Let_def
    by (elim disjE; cases cleanSession; cases "username = None"; cases "password = None"; cases "willTopic = None";
        cases willRetain) simp_all
qed

text \<open>C11: The CONNECT constructor never writes outside its buffer, whatever identity, credentials and
  will it is given, for strings of up to 65535 bytes and a readable will payload: without a length the
  payload is a C string, cut after 65535 bytes. A null or empty client id is refused before any memory
  is taken; short memory is reported as OUT_OF_MEMORY. Otherwise the buffer is exactly the MQTT
  encoding, with the flag byte saying which optional fields follow, if the will has a topic and a payload
  or no topic. If it has a topic and no payload, as \<open>setWill\<close> allows, the packet is malformed: its flag and
  its length announce a will which is not written, the credentials stand in its place, and as many bytes
  at the end were allocated and never written (zero in this model).\<close>

theorem connect_serialised:
  fixes cleanSession username password willTopic willRetain willQos willPayload willPayloadLength keepAlive clientId
  assumes "short_option clientId" and "short_option willTopic" and "will_memory willPayload willPayloadLength"
    and "willQos \<le> 2" and "short_option username" and "short_option password"
  shows "Packet_connect mem cleanSession username password willTopic willRetain willQos
      willPayload willPayloadLength keepAlive clientId =
    Some (if clientId = None \<or> clientId = Some [] then (MALFORMED_PARAMETER, blank 0 None)
      else let w = will_fields willTopic willPayload willPayloadLength;
          body = connect_body
            (connect_flags cleanSession (username \<noteq> None) (password \<noteq> None) (willTopic \<noteq> None) willRetain willQos)
            keepAlive (the clientId) w username password;
          unwritten = replicate (will_gap willTopic willPayload willPayloadLength) 0
        in if accepts mem False (of_nat (length (body @ unwritten)))
           then (SUCCESS, packet_of 0 (wire_packet CONNECT (body @ unwritten)))
           else (OUT_OF_MEMORY, blank 0 None)) \<and>
   (willTopic = None \<or> willPayload \<noteq> None \<longleftrightarrow> will_gap willTopic willPayload willPayloadLength = 0)"
proof (intro conjI)
  show "Packet_connect mem cleanSession username password willTopic willRetain willQos
      willPayload willPayloadLength keepAlive clientId =
    Some (if clientId = None \<or> clientId = Some [] then (MALFORMED_PARAMETER, blank 0 None)
      else let w = will_fields willTopic willPayload willPayloadLength;
          body = connect_body
            (connect_flags cleanSession (username \<noteq> None) (password \<noteq> None) (willTopic \<noteq> None) willRetain willQos)
            keepAlive (the clientId) w username password;
          unwritten = replicate (will_gap willTopic willPayload willPayloadLength) 0
        in if accepts mem False (of_nat (length (body @ unwritten)))
           then (SUCCESS, packet_of 0 (wire_packet CONNECT (body @ unwritten)))
           else (OUT_OF_MEMORY, blank 0 None))"
  proof (cases "clientId = None \<or> clientId = Some []")
    case True
    then show ?thesis
      by (auto simp: Packet_connect_def effectiveWillLength_eq [OF assms(3)])
  next
    case False
    then obtain name where name: "clientId = Some name" "name \<noteq> []"
      by (cases clientId) auto
    then have len: "length name \<le> 65535"
      using assms(1) by (simp add: short_option_def)
    show ?thesis
      using Packet_connect_eq [OF name(2) len assms(3,2,5,6), where cleanSession = cleanSession
          and willRetain = willRetain and willQos = willQos and keepAlive = keepAlive and mem = mem] name
      unfolding connectFlags_reference [OF assms(4)] Let_def by simp
  qed
qed (auto simp: will_gap_def split: option.splits)

theorem connect_serialised_witness:
  "Packet_connect ample True None (Some [112]) (Some [116]) False 2 (Some [9, 0, 7]) 0 15 (Some [99]) =
    Some (SUCCESS, packet_of 0
      ([0x10, 22, 0, 4, 77, 81, 84, 84, 4, 0x56, 0, 15, 0, 1, 99, 0, 1, 116, 0, 1, 9, 0, 1, 112])) \<and>
   Packet_connect ample True None (Some [112]) (Some [116]) False 2 None 0 15 (Some [99]) =
    Some (SUCCESS, packet_of 0
      ([0x10, 21, 0, 4, 77, 81, 84, 84, 4, 0x56, 0, 15, 0, 1, 99, 0, 1, 112, 0, 0, 0, 0, 0]))"
proof -
  let ?body = "\<lambda>flags w. connect_body flags 15 [99] w None (Some [112])"
  have body: "?body flags (Some ([116], [9])) =
      [0, 4, 77, 81, 84, 84, 4, flags, 0, 15, 0, 1, 99, 0, 1, 116, 0, 1, 9, 0, 1, 112]"
    "?body flags None = [0, 4, 77, 81, 84, 84, 4, flags, 0, 15, 0, 1, 99, 0, 1, 112]" for flags
    by (simp_all add: connect_body_def wire_string_def wire_u16_def hi8_def lo8_def
        will_body_def optional_string_def)
  have w: "will_fields (Some [116]) (Some [9, 0, 7]) 0 = Some ([116], [9])"
    "will_fields (Some [116]) None 0 = None" "will_gap (Some [116]) (Some [9, 0, 7]) 0 = 0" "will_gap (Some [116]) None 0 = 5"
    by (simp_all add: will_fields_def will_bytes_def will_gap_def)
  have m: "will_memory (Some [9, 0, 7]) 0" "will_memory None 0" "(2 :: u8) \<le> 2"
    "short_option (Some [99])" "short_option (Some [116])" "short_option None" "short_option (Some [112])"
    by (simp_all add: will_memory_def short_option_def)
  have zeros: "replicate 5 0 = [0, 0, 0, 0, 0 :: u8]"
    by (simp add: eval_nat_numeral)
  show ?thesis
    using connect_serialised [OF m(4,5,1,3,6,7), of ample True False 15]
      connect_serialised [OF m(4,5,2,3,6,7), of ample True False 15]
    by (simp add: body w zeros wire_packet_def encode_last connect_flags_def)
qed

text \<open>C36: The constructors of the other packets never write outside their buffer, and write exactly the
  MQTT encoding or report OUT_OF_MEMORY: SUBSCRIBE for any list of topics with their QoS, UNSUBSCRIBE
  for any list of topics, PUBACK, PUBREC, PUBREL and PUBCOMP as four bytes with the reserved bit set for
  PUBREL only, PINGREQ and DISCONNECT as their header and a zero length.\<close>

theorem requests_serialised:
  assumes "fits (subscribe_body packetId items)" and "\<forall>(topic, qos) \<in> set items. length topic \<le> 65535"
    and "fits (unsubscribe_body packetId topics)" and "\<forall>topic \<in> set topics. length topic \<le> 65535"
  shows "Packet_subscribe mem packetId items =
    Some (if accepts mem True (of_nat (length (subscribe_body packetId items)))
          then (SUCCESS, packet_of packetId
                  (wire_packet (SUBSCRIBE OR SUBSCRIBE_RESERVED) (subscribe_body packetId items)))
          else (OUT_OF_MEMORY, blank packetId None)) \<and>
   Packet_unsubscribe mem packetId topics =
    Some (if accepts mem True (of_nat (length (unsubscribe_body packetId topics)))
          then (SUCCESS, packet_of packetId
                  (wire_packet (UNSUBSCRIBE OR UNSUBSCRIBE_RESERVED) (unsubscribe_body packetId topics)))
          else (OUT_OF_MEMORY, blank packetId None)) \<and>
   Packet_ack mem type packetId =
    Some (if accepts mem True 2
          then (SUCCESS, packet_of packetId (wire_ack type packetId))
          else (OUT_OF_MEMORY, blank packetId None)) \<and>
   Packet_simple mem type =
    Some (if accepts mem True 0
          then (SUCCESS, packet_of 0 (wire_packet type []))
          else (OUT_OF_MEMORY, blank 0 None))"
  using assms by (intro conjI Packet_subscribe_eq Packet_unsubscribe_eq Packet_ack_eq Packet_simple_eq)

theorem requests_serialised_witness:
  "Packet_subscribe ample 258 [([97], 1), ([98, 99], 2)] =
    Some (SUCCESS, packet_of 258 [0x82, 11, 1, 2, 0, 1, 97, 1, 0, 2, 98, 99, 2]) \<and>
   Packet_unsubscribe ample 258 [[97], [98, 99]] =
    Some (SUCCESS, packet_of 258 [0xA2, 9, 1, 2, 0, 1, 97, 0, 2, 98, 99])"
proof -
  let ?s = "subscribe_body 258 [([97], 1), ([98, 99], 2)]" and ?u = "unsubscribe_body 258 [[97], [98, 99]]"
  have body: "?s = [1, 2, 0, 1, 97, 1, 0, 2, 98, 99, 2]" "?u = [1, 2, 0, 1, 97, 0, 2, 98, 99]"
    by (simp_all add: subscribe_body_def unsubscribe_body_def wire_string_def wire_u16_def hi8_def lo8_def)
  have "fits ?s" "fits ?u"
    by (simp_all only: body) (simp_all add: fits_def)
  from requests_serialised [OF this(1) _ this(2), of ample] show ?thesis
    unfolding body by (simp add: wire_packet_def encode_last)
qed

text \<open>Marking a serialised PUBLISH with a packet id as duplicate gives the encoding of the same
  PUBLISH with the DUP flag and nothing else changed, and marking it again changes nothing.\<close>

lemma setDup_wire:
  assumes "qos \<le> 2" and "packetId \<noteq> 0"
  shows "Packet_setDup (packet_of packetId (wire_publish False packetId topic payload qos retain)) =
      packet_of packetId (wire_publish True packetId topic payload qos retain) \<and>
    Packet_setDup (packet_of packetId (wire_publish True packetId topic payload qos retain)) =
      packet_of packetId (wire_publish True packetId topic payload qos retain)"
  using assms by (simp add: setDup_publish)

lemma setDup_wire_witness:
  "Packet_setDup (packet_of 7 [0x32, 5, 0, 1, 97, 0, 7]) = packet_of 7 [0x3A, 5, 0, 1, 97, 0, 7]"
proof -
  have "length (publish_body 7 [97] [] 1) = 5"
    by (simp add: length_publish_body)
  with setDup_wire [of 1 7 "[97]" "[]" False] show ?thesis
    by (simp add: wire_publish_def wire_packet_def encode_last publish_header_def)
      (simp add: publish_body_def wire_string_def wire_u16_def hi8_def lo8_def)
qed

end
