(* ===== verification/ParserCorrect.thy ===== *)
theory ParserCorrect
  imports ParserSpec Packet
begin

text \<open>
  What the parser guarantees: it stays inside its buffers on any input, it does not matter how the
  input is cut into buffers, and it reads back every packet of the reference encoding.
\<close>

subsection \<open>From the reference parser to the code\<close>

lemma erase_fields:
  "erase p' = q \<Longrightarrow> packetType p' = packetType q \<and> i_packetId (r_packet p') = i_packetId (r_packet q) \<and>
     i_topicLength (r_packet p') = i_topicLength (r_packet q) \<and> i_topic (r_packet p') = i_topic (r_packet q) \<and>
     i_index (r_packet p') = i_index (r_packet q) \<and> i_length (r_packet p') = i_length (r_packet q) \<and>
     i_total (r_packet p') = i_total (r_packet q) \<and> r_parse p' = r_parse q \<and>
     r_payloadBuffer p' = r_payloadBuffer q \<and> erasePtr (i_data (r_packet p')) = i_data (r_packet q)"
  by (auto simp: erase_def)

lemma erase_start [simp]:
  "packetType (erase p) = packetType p" "i_topic (r_packet (erase p)) = i_topic (r_packet p)"
  "r_payloadBuffer (erase p) = r_payloadBuffer p"
  by (simp_all add: erase_def)

text \<open>A PUBLISH with payload shows the last bytes that were consumed.\<close>

definition shows_payload :: "ParserResult \<Rightarrow> u8 list \<Rightarrow> Parser \<Rightarrow> bool" where
  "shows_payload r consumed p \<longleftrightarrow>
     (r = packet \<and> typeBits p = PUBLISH \<and> i_length (r_packet p) \<noteq> 0 \<longrightarrow>
        unat (i_length (r_packet p)) \<le> length consumed \<and>
        Parser_payload p = Some (drop (length consumed - unat (i_length (r_packet p))) consumed))"

lemma parse_whole:
  assumes inv: "parser_inv p" and small: "length d < 2 ^ 32"
  shows "\<exists>r n p'. Parser_parse d (of_nat (length d)) p = Some (r, n, p') \<and> unat n \<le> length d \<and>
    feeds d (erase p) = Some (r, drop (unat n) d, erase p') \<and> (r \<noteq> protocolError \<longrightarrow> parser_inv p') \<and>
    shows_payload r (take (unat n) d) p'"
proof -
  define len where "len = (of_nat (length d) :: u32)"
  have len: "unat len = length d"
    unfolding len_def using small by (rule unat_of_nat32)
  then have whole: "take (unat len) d = d" by simp
  obtain r n p' where
    parse: "Parser_parse d len p = Some (r, n, p')" and n: "unat n \<le> unat len"
    and fd: "feeds d (erase p) = Some (r, drop (unat n) d, erase p')"
    and inv': "r \<noteq> protocolError \<Longrightarrow> parser_inv p'"
    and pay: "r = packet \<Longrightarrow> typeBits p' = PUBLISH \<Longrightarrow> i_length (r_packet p') \<noteq> 0 \<Longrightarrow>
      unat (i_length (r_packet p')) \<le> unat n \<and>
      Parser_payload p' = Some (drop (unat n - unat (i_length (r_packet p'))) (take (unat n) d))"
    by (rule parse_feeds [OF inv, of len d, unfolded whole]) (simp add: len, blast)
  have "shows_payload r (take (unat n) d) p'"
    using pay n len by (simp add: shows_payload_def)
  with parse n fd inv' len show ?thesis
    unfolding len_def by auto
qed

lemma parse_stream:
  assumes inv: "parser_inv p" and len: "length (w @ rest) < 2 ^ 32"
    and fd: "feeds (w @ rest) (erase p) = Some (packet, rest, q)"
  obtains p' where "Parser_parse (w @ rest) (of_nat (length (w @ rest))) p = Some (packet, of_nat (length w), p')"
    and "erase p' = q" and "parser_inv p'" and "shows_payload packet w p'"
proof -
  define d where "d = w @ rest"
  from parse_whole [OF inv len, folded d_def] obtain r n p' where
    parse: "Parser_parse d (of_nat (length d)) p = Some (r, n, p')" and n: "unat n \<le> length d"
    and fd': "feeds d (erase p) = Some (r, drop (unat n) d, erase p')"
    and inv': "r \<noteq> protocolError \<longrightarrow> parser_inv p'" and pay: "shows_payload r (take (unat n) d) p'"
    by blast
  from fd fd' have r: "r = packet" "erase p' = q" and dropped: "drop (unat n) d = rest"
    by (simp_all add: d_def)
  have "length d - unat n = length rest"
    using arg_cong [OF dropped, of length] by (simp only: length_drop)
  then have nn: "unat n = length w"
    using n by (simp add: d_def)
  have "of_nat (unat n) = n" by simp
  then have "n = of_nat (length w)"
    by (simp only: nn)
  moreover have "take (unat n) d = w"
    by (simp add: nn d_def)
  ultimately show thesis
    using parse r inv' pay by (intro that) (simp_all add: d_def)
qed

subsection \<open>Safety and progress\<close>

text \<open>C13: Called in a state that satisfies the invariant, \<open>parse\<close> ends without reading outside the
  input or writing outside the topic, length and payload buffers. It consumes at least one byte
  and at most \<open>len\<close>, all of them when it awaits more data; afterwards the invariant holds again
  unless it reports a protocol error, and \<open>reset\<close> re-establishes it in any case.\<close>

theorem parser_memory_safe:
  assumes "parser_inv p" and "unat len \<le> length data"
  shows "\<exists>r n p'. Parser_parse data len p = Some (r, n, p') \<and>
    n \<le> len \<and> (0 < len \<longrightarrow> 0 < n) \<and> (r = awaitData \<longrightarrow> n = len) \<and>
    (r \<noteq> protocolError \<longrightarrow> parser_inv p') \<and> parser_inv (Parser_reset p')"
  using parse_safe [OF assms] by (auto simp: ok_def parse_result_def)

theorem parser_memory_safe_witness:
  "\<exists>r n p'. Parser_parse [0x30, 0xFF] 2 Parser_init = Some (r, n, p') \<and> 0 < n \<and> n \<le> 2 \<and>
    parser_inv (Parser_reset p')"
  using parser_memory_safe [OF parser_init_inv, of 2 "[0x30, 0xFF]"] by auto

text \<open>C14: The indexed loop of \<open>parse\<close> computes the reference parser on the list of the first
  \<open>len\<close> bytes: same result, same bytes left over, same state; and the payload pointer of a
  PUBLISH shows exactly the last \<open>length\<close> bytes consumed.\<close>

theorem parser_refines_reference:
  assumes "parser_inv p" and "unat len \<le> length data"
  shows "\<exists>r n p'. Parser_parse data len p = Some (r, n, p') \<and>
    feeds (take (unat len) data) (erase p) = Some (r, drop (unat n) (take (unat len) data), erase p') \<and>
    (r = packet \<and> typeBits p' = PUBLISH \<and> i_length (r_packet p') \<noteq> 0 \<longrightarrow>
      Parser_payload p' = Some (drop (unat n - unat (i_length (r_packet p'))) (take (unat n) data)))"
proof -
  obtain r n p' where "Parser_parse data len p = Some (r, n, p')"
    and "feeds (take (unat len) data) (erase p) = Some (r, drop (unat n) (take (unat len) data), erase p')"
    and "r = packet \<Longrightarrow> typeBits p' = PUBLISH \<Longrightarrow> i_length (r_packet p') \<noteq> 0 \<Longrightarrow>
      Parser_payload p' = Some (drop (unat n - unat (i_length (r_packet p'))) (take (unat n) data))"
    by (rule parse_feeds [OF assms]) blast
  then show ?thesis by blast
qed

theorem parser_refines_reference_witness:
  "\<exists>r n p'. Parser_parse [0xD0, 0, 9] 2 Parser_init = Some (r, n, p') \<and>
    feeds [0xD0, 0] (erase Parser_init) = Some (r, drop (unat n) [0xD0, 0], erase p')"
  using parser_refines_reference [OF parser_init_inv, of 2 "[0xD0, 0, 9]"] by auto

text \<open>C15: It does not matter where the input is cut. If \<open>parse\<close> has consumed a buffer and awaits
  more data, continuing with the next buffer gives the result, the state and, for a PUBLISH, the
  payload bytes that one call on both buffers together gives.\<close>

theorem parser_incremental:
  assumes "parser_inv p" and "length (xs @ ys) < 2 ^ 32"
    and "Parser_parse xs (of_nat (length xs)) p = Some (awaitData, n1, p1)"
  shows "\<exists>r n p2 n' p2'. Parser_parse ys (of_nat (length ys)) p1 = Some (r, n, p2) \<and>
    Parser_parse (xs @ ys) (of_nat (length (xs @ ys))) p = Some (r, n', p2') \<and>
    unat n' = length xs + unat n \<and> erase p2' = erase p2 \<and>
    (r = packet \<and> typeBits p2 = PUBLISH \<and> i_length (r_packet p2) \<noteq> 0 \<longrightarrow>
       Parser_payload p2' = Parser_payload p2)"
proof -
  have small: "length xs < 2 ^ 32" "length ys < 2 ^ 32"
    using assms(2) by simp_all
  from parse_whole [OF assms(1) small(1)] assms(3)
  have inv1: "parser_inv p1" and fd1: "feeds xs (erase p) = Some (awaitData, drop (unat n1) xs, erase p1)"
    by auto
  from parse_whole [OF inv1 small(2)] obtain r n p2 where
    parse2: "Parser_parse ys (of_nat (length ys)) p1 = Some (r, n, p2)" and n: "unat n \<le> length ys"
    and fd2: "feeds ys (erase p1) = Some (r, drop (unat n) ys, erase p2)"
    and pay2: "shows_payload r (take (unat n) ys) p2"
    by blast
  from parse_whole [OF assms(1,2)] obtain r' n' p2' where
    parse': "Parser_parse (xs @ ys) (of_nat (length (xs @ ys))) p = Some (r', n', p2')"
    and n': "unat n' \<le> length (xs @ ys)"
    and fd': "feeds (xs @ ys) (erase p) = Some (r', drop (unat n') (xs @ ys), erase p2')"
    and pay': "shows_payload r' (take (unat n') (xs @ ys)) p2'"
    by blast
  have "feeds (xs @ ys) (erase p) = Some (r, drop (unat n) ys, erase p2)"
    using feeds_append [OF fd1] fd2 by simp
  with fd' have eq: "r' = r" "erase p2' = erase p2" and rest: "drop (unat n') (xs @ ys) = drop (unat n) ys"
    by simp_all
  have "length (xs @ ys) - unat n' = length ys - unat n"
    using arg_cong [OF rest, of length] by (simp only: length_drop)
  then have nn: "unat n' = length xs + unat n"
    using n n' by simp
  have same: "packetType p2' = packetType p2" "i_length (r_packet p2') = i_length (r_packet p2)"
    using erase_fields [OF eq(2)] by (simp_all add: erase_def)
  have "Parser_payload p2' = Parser_payload p2"
    if "r = packet" "typeBits p2 = PUBLISH" "i_length (r_packet p2) \<noteq> 0"
    using that pay2 pay' n by (auto simp: shows_payload_def eq same nn)
  with parse2 parse' eq nn show ?thesis by blast
qed

theorem parser_incremental_witness:
  "\<exists>r n p2 n' p2'. Parser_parse [0] 1 (the (map_option (snd \<circ> snd) (Parser_parse [0xD0] 1 Parser_init))) = Some (r, n, p2) \<and>
    Parser_parse [0xD0, 0] 2 Parser_init = Some (r, n', p2') \<and> erase p2' = erase p2"
proof -
  have "Parser_parse [0xD0] (of_nat (length [0xD0 :: u8])) Parser_init = Some (awaitData, 1,
      Parser_init\<lparr>r_data := [0xD0], r_len := 1, r_bytesRead := 1, r_parse := remainingLengthNone,
        r_packet := (r_packet Parser_init)\<lparr>i_packetType := 0xD0\<rparr>\<rparr>)"
    by (simp add: Parser_parse_def Parser_init_def Parser_loop.simps Parser_fixedHeader_def
        Parser_byte_def upd_def IncomingPacket_reset_def Let_def)
  from parser_incremental [OF parser_init_inv _ this, of "[0]"] this show ?thesis by auto
qed


subsection \<open>Reading back the reference encoding\<close>

lemma header_flags:
  assumes "qos \<le> 2" and "packetType p = publish_header dup qos retain"
  shows "IncomingPacket_qos (r_packet p) = qos \<and> IncomingPacket_dup (r_packet p) = dup \<and>
    IncomingPacket_retain (r_packet p) = retain"
  using byte_qos [OF assms(1)] assms(2)
  by (cases dup; cases retain) (auto simp: IncomingPacket_qos_def IncomingPacket_dup_def
      IncomingPacket_retain_def publish_header_def)

lemma receive_publish:
  assumes "parser_inv p" and "r_parse p = fixedHeader"
    and "qos \<le> 2" and "qos = 0 \<longrightarrow> \<not> dup" and "topic \<noteq> []" and "length topic \<le> 128"
    and "fits (publish_body packetId topic payload qos)" and "qos \<noteq> 0 \<longrightarrow> packetId \<noteq> 0"
    and "length (wire_publish dup packetId topic payload qos retain @ rest) < 2 ^ 32"
  shows "\<exists>p'. Parser_parse (wire_publish dup packetId topic payload qos retain @ rest)
      (of_nat (length (wire_publish dup packetId topic payload qos retain @ rest))) p =
    Some (packet, of_nat (length (wire_publish dup packetId topic payload qos retain)), p') \<and>
    published (publish_header dup qos retain) (if qos = 0 then 0 else packetId) topic payload p' \<and>
    IncomingPacket_qos (r_packet p') = qos \<and> IncomingPacket_dup (r_packet p') = dup \<and>
    IncomingPacket_retain (r_packet p') = retain \<and>
    (payload \<noteq> [] \<longrightarrow> Parser_payload p' = Some payload) \<and> parser_inv p'"
proof -
  let ?w = "wire_publish dup packetId topic payload qos retain"
  have "length (i_topic (r_packet (erase p))) = 129"
    using assms(1) by (simp add: parser_inv_def parser_wf_def)
  with assms obtain q where fd: "feeds (?w @ rest) (erase p) = Some (packet, rest, q)"
    and q: "published (publish_header dup qos retain) (if qos = 0 then 0 else packetId) topic payload q"
    using feeds_publish [of "erase p" qos dup topic packetId payload retain rest] by auto
  from parse_stream [OF assms(1,9) fd] obtain p' where
    parse: "Parser_parse (?w @ rest) (of_nat (length (?w @ rest))) p = Some (packet, of_nat (length ?w), p')"
    and eq: "erase p' = q" and inv: "parser_inv p'" and pay: "shows_payload packet ?w p'"
    by blast
  have pub: "published (publish_header dup qos retain) (if qos = 0 then 0 else packetId) topic payload p'"
    using q erase_fields [OF eq] by (simp add: published_def Let_def)
  then have ty: "packetType p' = publish_header dup qos retain"
    and len: "unat (i_length (r_packet p')) = length payload"
    by (simp_all add: published_def Let_def)
  have "Parser_payload p' = Some payload" if "payload \<noteq> []"
  proof -
    have "0 < unat (i_length (r_packet p'))"
      using len that by simp
    then have "i_length (r_packet p') \<noteq> 0" by (simp add: unat_gt_0)
    moreover have "?w = (publish_header dup qos retain #
        encodeRemainingLength (of_nat (length (publish_body packetId topic payload qos))) @
        publish_body packetId topic [] qos) @ payload"
      by (simp add: wire_publish_def wire_packet_def publish_body_def)
    then obtain pre where "?w = pre @ payload" by blast
    ultimately show ?thesis
      using pay ty len publish_header_bits(1) [OF assms(3,4)] by (simp add: shows_payload_def)
  qed
  with parse pub inv header_flags [OF assms(3) ty] show ?thesis by blast
qed

text \<open>C16: A PUBLISH in the reference encoding is received whole: the parser consumes exactly its
  bytes and leaves what follows, and gives back its QoS, flags, packet id, topic (of 1 to 128
  bytes, terminated by a zero), payload length and payload.\<close>

theorem publish_received:
  assumes "parser_inv p" and "r_parse p = fixedHeader"
    and "qos \<le> 2" and "qos = 0 \<longrightarrow> \<not> dup" and "topic \<noteq> []" and "length topic \<le> 128"
    and "fits (publish_body packetId topic payload qos)" and "qos \<noteq> 0 \<longrightarrow> packetId \<noteq> 0"
    and "length (wire_publish dup packetId topic payload qos retain @ rest) < 2 ^ 32"
  shows "\<exists>p'. Parser_parse (wire_publish dup packetId topic payload qos retain @ rest)
      (of_nat (length (wire_publish dup packetId topic payload qos retain @ rest))) p =
    Some (packet, of_nat (length (wire_publish dup packetId topic payload qos retain)), p') \<and>
    published (publish_header dup qos retain) (if qos = 0 then 0 else packetId) topic payload p' \<and>
    IncomingPacket_qos (r_packet p') = qos \<and> IncomingPacket_dup (r_packet p') = dup \<and>
    IncomingPacket_retain (r_packet p') = retain \<and>
    (payload \<noteq> [] \<longrightarrow> Parser_payload p' = Some payload) \<and> parser_inv p'"
  by (rule receive_publish [OF assms])

theorem publish_received_witness:
  "\<exists>p'. Parser_parse [0x3B, 8, 0, 1, 97, 0, 7, 1, 2, 3, 0xD0] 11 Parser_init = Some (packet, 10, p') \<and>
    published 0x3B 7 [97] [1, 2, 3] p' \<and> Parser_payload p' = Some [1, 2, 3]"
proof -
  have body: "publish_body 7 [97] [1, 2, 3] 1 = [0, 1, 97, 0, 7, 1, 2, 3]"
    by (simp add: publish_body_def wire_string_def wire_u16_def hi8_def lo8_def)
  have wire: "wire_publish True 7 [97] [1, 2, 3] 1 True = [0x3B, 8, 0, 1, 97, 0, 7, 1, 2, 3]"
    unfolding wire_publish_def wire_packet_def body by (simp add: encode_last publish_header_def)
  have "fits (publish_body 7 [97] [1, 2, 3] 1)"
    unfolding body by (simp add: fits_def)
  moreover have "r_parse Parser_init = fixedHeader" by (simp add: Parser_init_def)
  ultimately show ?thesis
    using publish_received [OF parser_init_inv, of 1 True "[97]" 7 "[1, 2, 3]" True "[0xD0]"]
    unfolding wire by (auto simp: publish_header_def)
qed

text \<open>PUBACK, PUBREC, PUBREL, PUBCOMP and UNSUBACK with a non-zero packet id, as the packet
  constructors of the code would write them, are received with their type and packet id.\<close>

lemma ack_received:
  assumes "parser_inv p" and "r_parse p = fixedHeader" and "packetId \<noteq> 0"
    and "type \<in> {PUBACK, PUBREC, PUBREL, PUBCOMP, UNSUBACK}" and "length rest < 2 ^ 31"
  shows "\<exists>p'. Parser_parse (wire_ack type packetId @ rest) (of_nat (length (wire_ack type packetId @ rest))) p =
      Some (packet, 4, p') \<and>
    packetType p' AND 0xF0 = type \<and> i_packetId (r_packet p') = packetId \<and> r_parse p' = fixedHeader \<and>
    parser_inv p'"
proof -
  define b where "b = (if type = PUBREL then PUBREL OR PUBREL_RESERVED else type)"
  have b: "b \<in> {PUBACK, PUBREC, PUBREL OR PUBREL_RESERVED, PUBCOMP, UNSUBACK}" "b AND 0xF0 = type"
    using assms(4) by (auto simp: b_def)
  have wire: "wire_ack type packetId = [b, 2, hi8 packetId, lo8 packetId]"
    by (simp add: wire_ack_def wire_packet_def wire_u16_def encode_last b_def)
  have small: "length ([b, 2, hi8 packetId, lo8 packetId] @ rest) < 2 ^ 32"
    using assms(5) by simp
  have "feeds ([b, 2, hi8 packetId, lo8 packetId] @ rest) (erase p) = Some (packet, rest,
      erase p\<lparr>r_packet := IncomingPacket_reset (r_packet (erase p))
        \<lparr>i_packetType := b, i_remainingLength := 2, i_packetId := packetId\<rparr>\<rparr>)"
    using assms(2,3) b(1) by (intro feeds_ack) simp_all
  from parse_stream [OF assms(1) small this] obtain p' where
    "Parser_parse (wire_ack type packetId @ rest) (of_nat (length (wire_ack type packetId @ rest))) p = Some (packet, 4, p')"
    and eq: "erase p' = erase p\<lparr>r_packet := IncomingPacket_reset (r_packet (erase p))
        \<lparr>i_packetType := b, i_remainingLength := 2, i_packetId := packetId\<rparr>\<rparr>"
    and "parser_inv p'"
    unfolding wire by auto
  with erase_fields [OF eq] b(2) assms(2) show ?thesis by auto
qed

text \<open>A CONNACK with a valid session flag and return code is received with both, and a PINGRESP
  is received as such.\<close>

lemma connack_pingresp_received:
  assumes "parser_inv p" and "r_parse p = fixedHeader" and "sp < 2" and "rc \<le> 5"
    and "length rest < 2 ^ 31"
  shows "(\<exists>p'. Parser_parse ([CONNACK, 2, sp, rc] @ rest) (of_nat (length ([CONNACK, 2, sp, rc] @ rest))) p =
      Some (packet, 4, p') \<and> packetType p' = CONNACK \<and> i_sessionPresent (r_packet p') = sp \<and>
      i_returnCode (r_packet p') = rc \<and> r_parse p' = fixedHeader \<and> parser_inv p') \<and>
    (\<exists>p'. Parser_parse ([PINGRESP, 0] @ rest) (of_nat (length ([PINGRESP, 0] @ rest))) p =
      Some (packet, 2, p') \<and> packetType p' = PINGRESP \<and> r_parse p' = fixedHeader \<and> parser_inv p')"
proof
  have small: "length ([CONNACK, 2, sp, rc] @ rest) < 2 ^ 32" "length ([PINGRESP, 0] @ rest) < 2 ^ 32"
    using assms(5) by simp_all
  let ?q = "erase p\<lparr>r_packet := IncomingPacket_reset (r_packet (erase p))
      \<lparr>i_packetType := CONNACK, i_remainingLength := 2, i_packetId := be16 rc sp\<rparr>\<rparr>"
  let ?q1 = "erase p\<lparr>r_packet := IncomingPacket_reset (r_packet (erase p))
      \<lparr>i_packetType := CONNACK, i_remainingLength := 2\<rparr>, r_parse := varHeaderConnack1\<rparr>"
  have e1: "erased ?q1"
    using erased_erase [of p] by (simp add: erased_iff)
  have "feeds ([CONNACK, 2, sp, rc] @ rest) (erase p) = feeds (sp # rc # rest) ?q1"
    using assms(2) feeds_fixed_header [of "erase p" CONNACK "sp # rc # rest"] by (simp del: feeds.simps)
  also have "\<dots> = Some (packet, rest, ?q1\<lparr>r_packet := (r_packet ?q1)\<lparr>i_packetId := be16 rc sp\<rparr>, r_parse := fixedHeader\<rparr>)"
    by (rule feeds_connack [OF e1 _ assms(3,4)]) simp
  also have "\<dots> = Some (packet, rest, ?q)"
    using assms(2) by simp
  finally have "feeds ([CONNACK, 2, sp, rc] @ rest) (erase p) = Some (packet, rest, ?q)" .
  from parse_stream [OF assms(1) small(1) this] obtain p' where
    parse: "Parser_parse ([CONNACK, 2, sp, rc] @ rest) (of_nat (length ([CONNACK, 2, sp, rc] @ rest))) p = Some (packet, 4, p')"
    and eq: "erase p' = ?q" and inv: "parser_inv p'"
    by auto
  from erase_fields [OF eq] assms(2) have "packetType p' = CONNACK" "i_packetId (r_packet p') = be16 rc sp"
    "r_parse p' = fixedHeader"
    by simp_all
  with parse inv show "\<exists>p'. Parser_parse ([CONNACK, 2, sp, rc] @ rest) (of_nat (length ([CONNACK, 2, sp, rc] @ rest))) p =
      Some (packet, 4, p') \<and> packetType p' = CONNACK \<and> i_sessionPresent (r_packet p') = sp \<and>
      i_returnCode (r_packet p') = rc \<and> r_parse p' = fixedHeader \<and> parser_inv p'"
    by (intro exI [of _ p']) (simp add: i_sessionPresent_def i_returnCode_def)
  have "feeds ([PINGRESP, 0] @ rest) (erase p) = Some (packet, rest,
      erase p\<lparr>r_packet := IncomingPacket_reset (r_packet (erase p))\<lparr>i_packetType := PINGRESP, i_remainingLength := 0\<rparr>\<rparr>)"
    using assms(2) feeds_pingresp [of "erase p" rest] by simp
  from parse_stream [OF assms(1) small(2) this] obtain p' where
    "Parser_parse ([PINGRESP, 0] @ rest) (of_nat (length ([PINGRESP, 0] @ rest))) p = Some (packet, 2, p')"
    and eq: "erase p' = erase p\<lparr>r_packet := IncomingPacket_reset (r_packet (erase p))
      \<lparr>i_packetType := PINGRESP, i_remainingLength := 0\<rparr>\<rparr>" and "parser_inv p'"
    by auto
  with erase_fields [OF eq] assms(2) show "\<exists>p'. Parser_parse ([PINGRESP, 0] @ rest)
      (of_nat (length ([PINGRESP, 0] @ rest))) p = Some (packet, 2, p') \<and> packetType p' = PINGRESP \<and>
      r_parse p' = fixedHeader \<and> parser_inv p'"
    by auto
qed

text \<open>A SUBACK with 1 to 31 valid return codes is received with its packet id, and its payload
  pointer shows exactly the return codes.\<close>

lemma suback_received:
  assumes "parser_inv p" and "r_parse p = fixedHeader" and "packetId \<noteq> 0"
    and "codes \<noteq> []" and "length codes < 32" and "\<forall>b \<in> set codes. suback_code b"
    and "length rest < 2 ^ 31"
  shows "\<exists>p'. Parser_parse (wire_packet SUBACK (wire_u16 packetId @ codes) @ rest)
      (of_nat (length (wire_packet SUBACK (wire_u16 packetId @ codes) @ rest))) p =
      Some (packet, of_nat (length codes + 4), p') \<and>
    packetType p' = SUBACK \<and> i_packetId (r_packet p') = packetId \<and> Parser_payload p' = Some codes \<and>
    r_parse p' = fixedHeader \<and> parser_inv p'"
proof -
  let ?w = "wire_packet SUBACK (wire_u16 packetId @ codes)"
  have buf: "length (r_payloadBuffer (erase p)) = 32"
    using assms(1) by (simp add: parser_inv_def parser_wf_def)
  have len: "length ?w = length codes + 4"
    using assms(5) by (simp add: wire_packet_def length_encode_cases unat_word_ariths unat_of_nat)
  then have small: "length (?w @ rest) < 2 ^ 32"
    using assms(5,7) by simp
  from feeds_suback [OF _ _ assms(3) buf assms(4-6), of rest] assms(2) obtain q where
    fd: "feeds (?w @ rest) (erase p) = Some (packet, rest, q)"
    and q: "packetType q = SUBACK" "i_packetId (r_packet q) = packetId" "i_data (r_packet q) = PayloadBuffer"
      "unat (i_length (r_packet q)) = length codes" "take (length codes) (r_payloadBuffer q) = codes"
      "r_parse q = fixedHeader"
    by auto
  from parse_stream [OF assms(1) small fd] obtain p' where
    parse: "Parser_parse (?w @ rest) (of_nat (length (?w @ rest))) p = Some (packet, of_nat (length codes + 4), p')"
    and eq: "erase p' = q" and inv: "parser_inv p'"
    unfolding len by blast
  note fields = erase_fields [OF eq]
  have "i_data (r_packet p') = PayloadBuffer"
    using fields q(3) by (cases "i_data (r_packet p')") simp_all
  moreover have "length (r_payloadBuffer p') = 32"
    using inv by (simp add: parser_inv_def parser_wf_def)
  ultimately have "Parser_payload p' = Some codes"
    using fields q assms(5) by (simp add: Parser_payload_def)
  with parse inv fields q show ?thesis by auto
qed

text \<open>C37: What a server answers is received as it was sent, whatever follows in the buffer: PUBACK, PUBREC,
  PUBREL, PUBCOMP and UNSUBACK with their type and packet id, a SUBACK with its packet id and 1 to 31
  return codes, a CONNACK with its session flag and return code, and a PINGRESP.\<close>

theorem server_answers_received:
  assumes "parser_inv p" and "r_parse p = fixedHeader" and "packetId \<noteq> 0"
    and "type \<in> {PUBACK, PUBREC, PUBREL, PUBCOMP, UNSUBACK}" and "length rest < 2 ^ 31"
    and "codes \<noteq> []" and "length codes < 32" and "\<forall>b \<in> set codes. suback_code b" and "sp < 2" and "rc \<le> 5"
  shows "(\<exists>p'. Parser_parse (wire_ack type packetId @ rest) (of_nat (length (wire_ack type packetId @ rest))) p =
      Some (packet, 4, p') \<and> packetType p' AND 0xF0 = type \<and> i_packetId (r_packet p') = packetId \<and>
      r_parse p' = fixedHeader \<and> parser_inv p') \<and>
    (\<exists>p'. Parser_parse (wire_packet SUBACK (wire_u16 packetId @ codes) @ rest)
        (of_nat (length (wire_packet SUBACK (wire_u16 packetId @ codes) @ rest))) p =
      Some (packet, of_nat (length codes + 4), p') \<and> packetType p' = SUBACK \<and>
      i_packetId (r_packet p') = packetId \<and> Parser_payload p' = Some codes \<and> r_parse p' = fixedHeader \<and>
      parser_inv p') \<and>
    (\<exists>p'. Parser_parse ([CONNACK, 2, sp, rc] @ rest) (of_nat (length ([CONNACK, 2, sp, rc] @ rest))) p =
      Some (packet, 4, p') \<and> packetType p' = CONNACK \<and> i_sessionPresent (r_packet p') = sp \<and>
      i_returnCode (r_packet p') = rc \<and> r_parse p' = fixedHeader \<and> parser_inv p') \<and>
    (\<exists>p'. Parser_parse ([PINGRESP, 0] @ rest) (of_nat (length ([PINGRESP, 0] @ rest))) p =
      Some (packet, 2, p') \<and> packetType p' = PINGRESP \<and> r_parse p' = fixedHeader \<and> parser_inv p')"
  using ack_received [OF assms(1-5)] suback_received [OF assms(1-3,6-8,5)]
    connack_pingresp_received [OF assms(1,2,9,10,5)] by (elim conjE) (intro conjI, assumption+)

theorem server_answers_received_witness:
  "\<exists>p'. Parser_parse [0x90, 4, 0, 9, 2, 0x80] 6 Parser_init = Some (packet, 6, p') \<and>
    i_packetId (r_packet p') = 9 \<and> Parser_payload p' = Some [2, 0x80]"
proof -
  have "wire_packet SUBACK (wire_u16 9 @ [2, 0x80]) = [0x90, 4, 0, 9, 2, 0x80]"
    by (simp add: wire_packet_def wire_u16_def encode_last hi8_def lo8_def)
  with server_answers_received [OF parser_init_inv, of 9 PUBACK "[]" "[2, 0x80]" 0 0] show ?thesis
    by (auto simp: Parser_init_def suback_code_def)
qed


text \<open>A payload that does not fit in one buffer is delivered in pieces: each call on a non-empty
  buffer returns the next bytes of it, at the index where the previous piece ended, until the
  announced total has been delivered, and only then goes back to waiting for a header.\<close>

lemma payload_continued:
  assumes "parser_inv p" and "r_parse p = payloadPublish" and "data \<noteq> []" and "length data < 2 ^ 32"
  shows "\<exists>p'. Parser_parse data (of_nat (length data)) p =
      Some (packet, of_nat (min (length data) (needed p)), p') \<and>
    Parser_payload p' = Some (take (needed p) data) \<and>
    unat (i_index (r_packet p')) = unat (i_index (r_packet p)) + unat (i_length (r_packet p)) \<and>
    unat (i_length (r_packet p')) = min (length data) (needed p) \<and>
    i_total (r_packet p') = i_total (r_packet p) \<and> i_topic (r_packet p') = i_topic (r_packet p) \<and>
    i_packetId (r_packet p') = i_packetId (r_packet p) \<and>
    needed p' = needed p - length data \<and>
    r_parse p' = (if needed p \<le> length data then fixedHeader else payloadPublish) \<and> parser_inv p'"
proof -
  define n where "n = min (length data) (needed p)"
  define i where "i = r_packet p"
  have sum: "unat (i_index i) + unat (i_length i) < unat (i_total i)" and ty: "typeBits p = PUBLISH"
    using assms(1,2) by (simp_all add: parser_inv_def i_def)
  have need: "needed p = unat (i_total i) - (unat (i_index i) + unat (i_length i))"
    by (simp add: needed_def i_def Let_def)
  have n: "0 < n" "n \<le> length data"
    using sum need assms(3) by (simp_all add: n_def)
  have val: "unat (of_nat n :: u32) = n"
    using n assms(4) by (intro unat_of_nat32) simp
  have index: "unat (i_index i + i_length i) = unat (i_index i) + unat (i_length i)"
    using sum u32_bound [of "i_total i"] by (subst unat_add_lem [THEN iffD1]) simp_all
  have data: "data = take n data @ drop n data"
    by simp
  have "feeds data (erase p) = Some (packet, drop n data, chunk n (erase p))"
    using assms(2,3) by (cases data) (simp_all add: n_def Let_def)
  then have fd: "feeds (take n data @ drop n data) (erase p) = Some (packet, drop n data, chunk n (erase p))"
    by simp
  have small: "length (take n data @ drop n data) < 2 ^ 32"
    using assms(4) by simp
  have tl: "length (take n data) = n"
    using n(2) by simp
  from parse_stream [OF assms(1) small fd, unfolded append_take_drop_id tl] obtain p' where
    parse: "Parser_parse data (of_nat (length data)) p = Some (packet, of_nat n, p')"
    and eq: "erase p' = chunk n (erase p)" and inv: "parser_inv p'" and pay: "shows_payload packet (take n data) p'"
    by blast
  note fields = erase_fields [OF eq]
  have len: "i_length (r_packet p') = of_nat n" and nz: "(of_nat n :: u32) \<noteq> 0"
    using fields n(1) val by (auto simp: word_unat_eq_iff)
  with pay fields ty n(2) val have "Parser_payload p' = Some (take n data)"
    by (simp add: shows_payload_def)
  then have "Parser_payload p' = Some (take (needed p) data)"
    using n_def by (simp add: min_def split: if_splits)
  moreover have "i_index (r_packet p') = i_index i + i_length i" "i_total (r_packet p') = i_total i"
    "i_topic (r_packet p') = i_topic i" "i_packetId (r_packet p') = i_packetId i"
    using fields by (simp_all add: i_def erase_def)
  moreover have "r_parse p' = (if needed p \<le> length data then fixedHeader else payloadPublish)"
    using fields sum need by (auto simp: chunk_def Let_def n_def i_def erase_def)
  moreover have "needed p' = needed p - length data"
  proof -
    have "needed p' = unat (i_total i) - (unat (i_index i) + unat (i_length i) + n)"
      using calculation(2,3) len val index by (simp add: needed_def Let_def)
    also have "\<dots> = needed p - length data"
      using sum by (simp add: n_def need min_def)
    finally show ?thesis .
  qed
  ultimately show ?thesis
    using parse inv len val index by (simp add: n_def i_def)
qed

definition server_headers :: "u8 list" where
  "server_headers = [0x20, 0x30, 0x31, 0x32, 0x33, 0x34, 0x35, 0x3A, 0x3B, 0x3C, 0x3D,
     0x40, 0x50, 0x62, 0x70, 0x90, 0xB0, 0xD0]"

lemma nibbles: "(b AND 0xF0) OR (b AND 0x0F) = (b :: u8)"
proof -
  have "(b AND 0xF0) OR (b AND 0x0F) = b AND (0xF0 OR 0x0F)"
    by (simp only: bit.conj_disj_distrib)
  also have "(0xF0 OR 0x0F :: u8) = -1" by simp
  finally show ?thesis by simp
qed

lemma low_nibble: "b AND 0x0F \<in> set (map of_nat [0..<16])" for b :: u8
proof -
  have "b AND 0x0F \<le> 0x0F" by (rule word_and_le1)
  then have "unat (b AND 0x0F) \<in> set [0..<16]" by (simp add: word_le_nat_alt)
  moreover have "of_nat (unat (b AND 0x0F)) = b AND 0x0F" by simp
  ultimately show ?thesis by (metis image_eqI list.set_map)
qed

lemma publish_table:
  "b AND 0xF0 = PUBLISH \<Longrightarrow> b AND 0x0F \<le> 0x05 \<or> b AND 0x0F \<ge> 0x0A \<Longrightarrow>
     b \<in> set server_headers \<or> b = 0x3E \<or> b = 0x3F"
proof -
  assume hi: "b AND 0xF0 = PUBLISH" and lo: "b AND 0x0F \<le> 0x05 \<or> b AND 0x0F \<ge> 0x0A"
  define l where "l = b AND 0x0F"
  have "l = 0 \<or> l = 1 \<or> l = 2 \<or> l = 3 \<or> l = 4 \<or> l = 5 \<or> l = 6 \<or> l = 7 \<or> l = 8 \<or> l = 9 \<or>
      l = 10 \<or> l = 11 \<or> l = 12 \<or> l = 13 \<or> l = 14 \<or> l = 15"
    using low_nibble [of b] by (simp add: upt_conv_Cons l_def)
  moreover have "b = PUBLISH OR l"
    using nibbles [of b] hi by (simp add: l_def)
  moreover have "l \<le> 5 \<or> l \<ge> 10"
    using lo by (simp add: l_def)
  ultimately show ?thesis
    by (elim disjE) (simp_all add: server_headers_def)
qed

lemma header_table:
  "(b AND 0xF0 = PUBLISH \<and> (b AND 0x0F \<le> 0x05 \<or> b AND 0x0F \<ge> 0x0A) \<or>
    b AND 0xF0 \<noteq> PUBLISH \<and>
    b \<in> {CONNACK, PUBACK, PUBREC, PUBREL OR PUBREL_RESERVED, PUBCOMP, UNSUBACK, SUBACK, PINGRESP}) \<longleftrightarrow>
   b \<in> set server_headers \<or> b = 0x3E \<or> b = 0x3F"
  (is "?l \<longleftrightarrow> ?r")
proof
  show ?r if ?l
    using that publish_table [of b] by (auto simp: server_headers_def)
  show ?l if ?r
    using that unfolding server_headers_def by (simp, elim disjE) simp_all
qed

text \<open>C39: The first byte of a packet is accepted exactly if it is the header of a packet a server
  may send, with the flags MQTT prescribes, except that a PUBLISH with the invalid QoS 3 is
  accepted too when its DUP flag is set (0x3E and 0x3F).\<close>

theorem header_accepted:
  assumes "parser_inv p" and "r_parse p = fixedHeader"
  shows "\<exists>r p'. Parser_parse [b] 1 p = Some (r, 1, p') \<and>
    r = (if b \<in> set server_headers \<or> b = 0x3E \<or> b = 0x3F then awaitData else protocolError)"
proof -
  let ?r = "if b \<in> set server_headers \<or> b = 0x3E \<or> b = 0x3F then awaitData else protocolError"
  define q where "q = p\<lparr>r_data := [b], r_len := 1, r_bytesRead := 0\<rparr>"
  have "ok (Parser_fixedHeader q) (\<lambda>(r, p'). r = ?r \<and> r_bytesRead p' = 0 \<and> r_len p' = 1)"
    unfolding header_table [of b, symmetric]
    by (simp add: Parser_fixedHeader_def q_def Parser_byte_def wp upd_def Let_def)
  then obtain p' where "Parser_fixedHeader q = Some (?r, p')" "r_bytesRead p' = 0" "r_len p' = 1"
    by (auto simp: ok_def)
  then have "Parser_loop q = Some (?r, p'\<lparr>r_bytesRead := 1\<rparr>)"
    using assms(2) by (subst Parser_loop.simps) (simp add: q_def Parser_loop.simps)
  then show ?thesis
    by (simp add: Parser_parse_def q_def)
qed

theorem header_accepted_witness:
  "\<exists>p'. Parser_parse [0x36] 1 Parser_init = Some (protocolError, 1, p')"
  using header_accepted [OF parser_init_inv, where b = "0x36"] by (auto simp: Parser_init_def server_headers_def)

end
