(* ===== verification/PacketSource.thy ===== *)
theory PacketSource
  imports Packet
begin

text \<open>
  Sending a packet piece by piece: what \<open>Packet::available\<close> and \<open>Packet::data\<close> give the client, for
  packets that hold their bytes and for chunked PUBLISH packets, whose payload comes from a
  callback one window at a time.
\<close>

subsection \<open>Chunked packets\<close>

text \<open>
  What a packet shows is described position by position: \<open>C i b\<close> says that \<open>b\<close> may stand at position
  \<open>i\<close> of the packet, and \<open>shows C i bs\<close> that the bytes \<open>bs\<close> may stand from position \<open>i\<close> on.
\<close>

definition shows_at :: "(nat \<Rightarrow> u8 \<Rightarrow> bool) \<Rightarrow> nat \<Rightarrow> u8 list \<Rightarrow> bool" where
  "shows_at C i bs \<longleftrightarrow> (\<forall>j < length bs. C (i + j) (bs ! j))"

lemma shows_append: "shows_at C i (xs @ ys) \<longleftrightarrow> shows_at C i xs \<and> shows_at C (i + length xs) ys"
proof
  assume xy: "shows_at C i (xs @ ys)"
  have "C (i + length xs + j) (ys ! j)" if "j < length ys" for j
    using xy that unfolding shows_at_def by (metis add.assoc length_append nat_add_left_cancel_less nth_append_length_plus)
  moreover have "C (i + j) (xs ! j)" if "j < length xs" for j
    using xy that unfolding shows_at_def by (metis length_append nth_append trans_less_add1)
  ultimately show "shows_at C i xs \<and> shows_at C (i + length xs) ys"
    by (simp add: shows_at_def)
next
  assume xy: "shows_at C i xs \<and> shows_at C (i + length xs) ys"
  show "shows_at C i (xs @ ys)"
    unfolding shows_at_def
  proof (intro allI impI)
    fix j assume "j < length (xs @ ys)"
    with xy show "C (i + j) ((xs @ ys) ! j)"
      by (cases "j < length xs") (auto simp: shows_at_def nth_append dest: spec [of _ "j - length xs"])
  qed
qed

lemma shows_take: "shows_at C i bs \<Longrightarrow> shows_at C i (take n bs)"
  by (simp add: shows_at_def)

lemma shows_drop: "shows_at C i bs \<Longrightarrow> n \<le> length bs \<Longrightarrow> shows_at C (i + n) (drop n bs)"
  by (simp add: shows_at_def add.assoc)

lemma shows_window:
  assumes "shows_at C s (take k (drop h data))" and "j + n \<le> k" and "h + k \<le> length data"
  shows "shows_at C (s + j) (take n (drop (h + j) data))"
proof -
  have "shows_at C (s + j) (take n (drop j (take k (drop h data))))"
    by (rule shows_take, rule shows_drop [OF assms(1)]) (use assms(2,3) in simp)
  moreover have "take n (drop j (take k (drop h data))) = take n (drop (h + j) data)"
    using assms(2) by (simp add: drop_take min_def add.commute)
  ultimately show ?thesis by simp
qed

lemma shows_wire:
  "shows_at (\<lambda>i b. b = wire ! i) i bs \<Longrightarrow> i + length bs \<le> length wire \<Longrightarrow> bs = take (length bs) (drop i wire)"
  by (intro nth_equalityI) (simp_all add: shows_at_def)

text \<open>
  A chunked PUBLISH has \<open>extent\<close> bytes, of which the first \<open>hdr\<close> are in its buffer and the rest come
  from the callback, which stores at most as many bytes as it is allowed; a live one always stores
  some. The index it is given counts from the start of the packet; its bytes are shown from there on,
  or from the first payload byte on if the index lies in the header.
\<close>

definition serves :: "bool \<Rightarrow> nat \<Rightarrow> (nat \<Rightarrow> u8 \<Rightarrow> bool) \<Rightarrow> nat \<Rightarrow> PayloadCallback \<Rightarrow> bool" where
  "serves live extent C hdr f \<longleftrightarrow>
     (\<forall>m i. length (f m i) \<le> unat m \<and> (live \<and> 0 < m \<and> unat i < extent \<longrightarrow> f m i \<noteq> []) \<and>
       (0 < m \<and> unat m \<le> min 1440 (extent - max hdr (unat i)) \<longrightarrow> shows_at C (max hdr (unat i)) (f m i)))"

definition chunked :: "bool \<Rightarrow> nat \<Rightarrow> (nat \<Rightarrow> u8 \<Rightarrow> bool) \<Rightarrow> nat \<Rightarrow> Packet \<Rightarrow> bool" where
  "chunked live extent C hdr p \<longleftrightarrow>
     1 < hdr \<and> hdr < extent \<and> unat (p_size p) = extent \<and>
     unat (p_payloadIndex p) = hdr \<and>
     hdr \<le> unat (p_payloadStartIndex p) \<and> unat (p_payloadStartIndex p) < extent \<and>
     p_payloadEndIndex p \<noteq> 0 \<and>
     (\<exists>f data. p_getPayload p = Some f \<and> serves live extent C hdr f \<and> p_data p = Some data \<and>
        hdr + min 1440 (extent - hdr) \<le> length data \<and> shows_at C 0 (take hdr data))"

text \<open>The window of payload bytes in the buffer holds what the indices say.\<close>

definition loaded :: "nat \<Rightarrow> (nat \<Rightarrow> u8 \<Rightarrow> bool) \<Rightarrow> nat \<Rightarrow> Packet \<Rightarrow> bool" where
  "loaded extent C hdr p \<longleftrightarrow>
     (\<exists>k data. p_data p = Some data \<and>
        p_payloadEndIndex p = p_payloadStartIndex p + of_nat k - 1 \<and>
        unat (p_payloadStartIndex p) + k \<le> extent \<and> hdr + k \<le> length data \<and>
        shows_at C (unat (p_payloadStartIndex p)) (take k (drop hdr data)))"

lemma fetchPayload_chunked:
  assumes ch: "chunked live extent C hdr p" and at: "unat index < hdr \<or> p_payloadStartIndex p = index"
  shows "\<exists>k data'. fetchPayload index p = Some (of_nat k, p\<lparr>p_data := Some data'\<rparr>) \<and>
    k \<le> extent - max hdr (unat index) \<and> (live \<longrightarrow> 0 < k) \<and>
    hdr + k \<le> length data' \<and> hdr + min 1440 (extent - hdr) \<le> length data' \<and>
    shows_at C 0 (take hdr data') \<and> shows_at C (max hdr (unat index)) (take k (drop hdr data'))"
proof -
  from ch obtain f data where f: "p_getPayload p = Some f" "serves live extent C hdr f"
    and data: "p_data p = Some data" "hdr + min 1440 (extent - hdr) \<le> length data" "shows_at C 0 (take hdr data)"
    and hdr: "unat (p_payloadIndex p) = hdr" "hdr \<le> unat (p_payloadStartIndex p)"
      "unat (p_payloadStartIndex p) < extent" "unat (p_size p) = extent" "hdr < extent"
    by (auto simp: chunked_def)
  define m where "m = min EMC_TX_BUFFER_SIZE (p_size p - p_payloadStartIndex p)"
  define bytes where "bytes = f m index"
  have start: "p_payloadStartIndex p \<le> p_size p"
    using hdr by (simp add: word_le_nat_alt)
  have rest: "unat (p_size p - p_payloadStartIndex p) = extent - unat (p_payloadStartIndex p)"
    using start hdr by (simp add: unat_sub)
  have "unat m \<le> 1440" "unat m \<le> extent - unat (p_payloadStartIndex p)"
    using rest by (auto simp: m_def min_def word_le_nat_alt)
  then have m: "unat m \<le> min 1440 (extent - max hdr (unat index))"
    using at hdr(2) by (auto simp: max_def)
  have "0 < m"
    using hdr start rest by (simp add: m_def min_def word_less_nat_alt)
  moreover have "unat index < extent"
    using at hdr by auto
  ultimately have len: "length bytes \<le> unat m" and some: "live \<longrightarrow> 0 < length bytes"
    and shown: "shows_at C (max hdr (unat index)) bytes"
    using f(2) m unfolding serves_def bytes_def by blast+
  have room: "hdr + length bytes \<le> length data"
    using len m data(2) by (simp add: min_def max_def split: if_splits)
  define data' where "data' = take hdr data @ bytes @ drop (hdr + length bytes) data"
  have "fetchPayload index p = Some (of_nat (length bytes), p\<lparr>p_data := Some data'\<rparr>)"
    using f data hdr room
    by (simp add: fetchPayload_def put_def bytes_def m_def data'_def Let_def)
  moreover have hdr_len: "length (take hdr data) = hdr"
    using room by simp
  have "length data' = length data"
    using room by (simp add: data'_def hdr_len del: length_take)
  moreover have "take hdr data' = take hdr data" "take (length bytes) (drop hdr data') = bytes"
    using hdr_len by (simp_all add: data'_def del: length_take)
  ultimately show ?thesis
    using len m room data(2,3) some shown by (intro exI [of _ "length bytes"] exI [of _ data']) simp
qed

text \<open>\<open>chunked\<close> only depends on the buffer and the indices.\<close>

lemma chunked_moved:
  assumes "chunked live extent C hdr p" and "hdr \<le> unat start" and "unat start < extent" and "end \<noteq> 0"
    and "hdr + min 1440 (extent - hdr) \<le> length data" and "shows_at C 0 (take hdr data)"
  shows "chunked live extent C hdr (p\<lparr>p_data := Some data, p_payloadStartIndex := start, p_payloadEndIndex := end\<rparr>)"
  using assms by (auto simp: chunked_def)

text \<open>A call of \<open>available\<close> for a header byte loads the window that starts the payload.\<close>

lemma available_header:
  assumes ch: "chunked live extent C hdr p" and index: "unat index < hdr"
  shows "\<exists>n p' bs. Packet_available index p = Some (n, p') \<and> chunked live extent C hdr p' \<and> loaded extent C hdr p' \<and>
    Packet_bytes index n p' = Some bs \<and> length bs = unat n \<and> shows_at C (unat index) bs \<and>
    unat n \<le> extent - unat index \<and> 0 < unat n"
proof -
  have max: "max hdr (unat index) = hdr" using index by simp
  from fetchPayload_chunked [OF ch, of index] obtain k data' where
    fetch: "fetchPayload index p = Some (of_nat k, p\<lparr>p_data := Some data'\<rparr>)"
    and k: "k \<le> extent - hdr" "hdr + k \<le> length data'"
    and d: "hdr + min 1440 (extent - hdr) \<le> length data'" "shows_at C 0 (take hdr data')"
      "shows_at C hdr (take k (drop hdr data'))"
    using index unfolding max by blast
  from ch obtain f where hdr: "unat (p_payloadIndex p) = hdr" "1 < hdr" "hdr < extent"
    "unat (p_size p) = extent" "p_payloadEndIndex p \<noteq> 0" "p_getPayload p = Some f"
    by (auto simp: chunked_def)
  have small: "extent < 4294967296"
    using u32_bound [of "p_size p"] hdr(4) by simp
  define p' where "p' = p\<lparr>p_data := Some data', p_payloadStartIndex := p_payloadIndex p,
      p_payloadEndIndex := p_payloadIndex p + of_nat k - 1\<rparr>"
  define n where "n = p_payloadIndex p + of_nat k - index"
  have sum: "p_payloadIndex p + of_nat k = of_nat (hdr + k)"
    by (simp flip: hdr(1))
  have sum_val: "unat (p_payloadIndex p + of_nat k) = hdr + k"
    unfolding sum using k small hdr(3) by (intro unat_of_nat32) simp
  have n: "unat n = hdr + k - unat index"
    unfolding n_def using index by (subst unat_sub) (simp_all add: sum_val word_le_nat_alt)
  have end_val: "unat (p_payloadIndex p + of_nat k - 1) = hdr + k - 1"
    using hdr(2) by (subst unat_sub) (simp_all add: sum_val word_le_nat_alt)
  have "Packet_available index p = Some (n, p')"
    using hdr index fetch
    by (simp add: Packet_available_def chunkedAvailable_def word_le_nat_alt word_less_nat_alt
        n_def p'_def Let_def)
  moreover have "p_payloadIndex p + of_nat k - 1 \<noteq> 0"
  proof
    assume "p_payloadIndex p + of_nat k - 1 = 0"
    with end_val have "hdr + k - 1 = 0" by (metis unat_0)
    with hdr(2) show False by simp
  qed
  then have "chunked live extent C hdr p'"
    unfolding p'_def using ch hdr d by (intro chunked_moved) simp_all
  moreover have "loaded extent C hdr p'"
    using hdr k d by (auto simp: loaded_def p'_def intro!: exI [of _ k])
  moreover have "Packet_bytes index n p' = Some (take (unat n) (drop (unat index) data'))"
    using index hdr n k(2)
    by (simp add: Packet_bytes_def Packet_data_def chunkedData_def p'_def word_less_nat_alt)
  moreover have "shows_at C (0 + unat index) (take (unat n) (drop (0 + unat index) data'))"
  proof (rule shows_window)
    have "length (take hdr data') = hdr" using k(2) by simp
    with d(2,3) show "shows_at C 0 (take (hdr + k) (drop 0 data'))"
      by (simp add: take_add shows_append del: length_take)
  qed (use n index k(2) in simp_all)
  moreover have "unat n \<le> extent - unat index \<and> 0 < unat n"
    using n k hdr(3) index by simp
  ultimately show ?thesis
    using n k(2) by (intro exI [of _ n] exI [of _ p'] exI [of _ "take (unat n) (drop (unat index) data')"]) simp
qed

text \<open>A call for a payload byte outside the window moves the window there.\<close>

lemma available_refill:
  assumes ch: "chunked live extent C hdr p" and index: "hdr \<le> unat index" "unat index < extent"
    and miss: "index > p_payloadEndIndex p \<or> p_payloadStartIndex p > index"
  shows "\<exists>n p' bs. Packet_available index p = Some (n, p') \<and> chunked live extent C hdr p' \<and> loaded extent C hdr p' \<and>
    Packet_bytes index n p' = Some bs \<and> length bs = unat n \<and> shows_at C (unat index) bs \<and>
    unat n \<le> extent - unat index \<and> (live \<longrightarrow> 0 < unat n)"
proof -
  define q where "q = p\<lparr>p_payloadStartIndex := index\<rparr>"
  have ch': "chunked live extent C hdr q"
    using ch index by (auto simp: q_def chunked_def)
  have max: "max hdr (unat index) = unat index" using index by simp
  from fetchPayload_chunked [OF ch', of index] obtain k data' where
    fetch: "fetchPayload index q = Some (of_nat k, q\<lparr>p_data := Some data'\<rparr>)"
    and k: "k \<le> extent - unat index" "hdr + k \<le> length data'"
    and d: "hdr + min 1440 (extent - hdr) \<le> length data'" "shows_at C 0 (take hdr data')"
      "shows_at C (unat index) (take k (drop hdr data'))"
    and some: "live \<longrightarrow> 0 < k"
    unfolding max by (auto simp: q_def)
  from ch obtain f where hdr: "unat (p_payloadIndex p) = hdr" "1 < hdr"
    "unat (p_size p) = extent" "p_getPayload p = Some f"
    by (auto simp: chunked_def)
  have small: "extent < 4294967296"
    using u32_bound [of "p_size p"] hdr(3) by simp
  define p' where "p' = q\<lparr>p_data := Some data', p_payloadStartIndex := index,
      p_payloadEndIndex := index + of_nat k - 1\<rparr>"
  have k_val: "unat (of_nat k :: u32) = k"
    using k small by (intro unat_of_nat32) simp
  have end_val: "unat (index + of_nat k - 1) = unat index + k - 1"
  proof -
    have "unat (index + of_nat k) = unat index + k"
      using k small index k_val by (subst unat_add_lem [THEN iffD1]) simp_all
    with hdr(2) index show ?thesis by (subst unat_sub) (simp_all add: word_le_nat_alt)
  qed
  have "Packet_available index p = Some (of_nat k, p')"
    using hdr index miss fetch
    by (simp add: Packet_available_def chunkedAvailable_def word_le_nat_alt word_less_nat_alt
        q_def p'_def Let_def)
  moreover have "index + of_nat k - 1 \<noteq> 0"
  proof
    assume "index + of_nat k - 1 = 0"
    with end_val have "unat index + k - 1 = 0" by (metis unat_0)
    with hdr(2) index show False by simp
  qed
  then have "chunked live extent C hdr p'"
    unfolding p'_def using ch' index d by (intro chunked_moved) simp_all
  moreover have "loaded extent C hdr p'"
    using index k d by (auto simp: loaded_def p'_def intro!: exI [of _ k])
  moreover have "Packet_bytes index (of_nat k) p' = Some (take k (drop hdr data'))"
    using index hdr k
    by (simp add: Packet_bytes_def Packet_data_def chunkedData_def p'_def q_def word_less_nat_alt k_val)
  ultimately show ?thesis
    using k k_val some d(3)
    by (intro exI [of _ "of_nat k"] exI [of _ p'] exI [of _ "take k (drop hdr data')"]) simp
qed

text \<open>A call for a byte inside the window leaves the packet alone.\<close>

lemma available_hit:
  assumes ch: "chunked live extent C hdr p" and ld: "loaded extent C hdr p"
    and index: "hdr \<le> unat index" "unat index < extent"
    and hit: "\<not> (index > p_payloadEndIndex p \<or> p_payloadStartIndex p > index)"
  shows "\<exists>n bs. Packet_available index p = Some (n, p) \<and>
    Packet_bytes index n p = Some bs \<and> length bs = unat n \<and> shows_at C (unat index) bs \<and>
    unat n \<le> extent - unat index \<and> 0 < unat n"
proof -
  from ld obtain k data where data: "p_data p = Some data"
    and e: "p_payloadEndIndex p = p_payloadStartIndex p + of_nat k - 1"
    and k: "unat (p_payloadStartIndex p) + k \<le> extent" "hdr + k \<le> length data"
    and d: "shows_at C (unat (p_payloadStartIndex p)) (take k (drop hdr data))"
    by (auto simp: loaded_def)
  define s where "s = unat (p_payloadStartIndex p)"
  from ch obtain f where hdr: "unat (p_payloadIndex p) = hdr" "1 < hdr" "hdr \<le> s"
    "unat (p_size p) = extent" "p_getPayload p = Some f"
    by (auto simp: chunked_def s_def)
  have small: "extent < 4294967296"
    using u32_bound [of "p_size p"] hdr(4) by simp
  have sk: "unat (p_payloadStartIndex p + of_nat k) = s + k"
    using k small by (subst unat_add_lem [THEN iffD1]) (simp_all add: s_def unat_of_nat32)
  have end_val: "unat (p_payloadEndIndex p) = s + k - 1"
    unfolding e using hdr by (subst unat_sub) (simp_all add: sk word_le_nat_alt)
  have in_window: "s \<le> unat index" "unat index < s + k"
    using hit hdr end_val by (auto simp: s_def word_less_nat_alt)
  define n where "n = p_payloadEndIndex p - index + 1"
  have n_eq: "n = p_payloadStartIndex p + of_nat k - index"
    by (simp add: n_def e)
  have n: "unat n = s + k - unat index"
    unfolding n_eq using in_window by (subst unat_sub) (simp_all add: sk word_le_nat_alt)
  have off: "unat (index - p_payloadStartIndex p + p_payloadIndex p) = hdr + (unat index - s)"
  proof -
    have "unat (index - p_payloadStartIndex p) = unat index - s"
      using in_window by (subst unat_sub) (simp_all add: s_def word_le_nat_alt)
    then show ?thesis
      using hdr index small in_window
      by (subst unat_add_lem [THEN iffD1]) simp_all
  qed
  have "Packet_available index p = Some (n, p)"
    using hdr index hit
    by (simp add: Packet_available_def chunkedAvailable_def word_le_nat_alt word_less_nat_alt n_def Let_def)
  moreover have "shows_at C (s + (unat index - s)) (take (unat n) (drop (hdr + (unat index - s)) data))"
    using in_window n k by (intro shows_window [OF d [folded s_def]]) simp_all
  moreover have "Packet_bytes index n p = Some (take (unat n) (drop (hdr + (unat index - s)) data))"
    using hdr index data off n k in_window
    by (simp add: Packet_bytes_def Packet_data_def chunkedData_def word_less_nat_alt)
  ultimately show ?thesis
    using n k in_window by (auto simp: s_def)
qed

lemma Packet_available_step:
  assumes "chunked live extent C hdr p" and "loaded extent C hdr p \<or> unat index < hdr" and "unat index < extent"
  shows "\<exists>n p' bs. Packet_available index p = Some (n, p') \<and> chunked live extent C hdr p' \<and> loaded extent C hdr p' \<and>
    Packet_bytes index n p' = Some bs \<and> length bs = unat n \<and> shows_at C (unat index) bs \<and>
    unat n \<le> extent - unat index \<and> (live \<longrightarrow> 0 < unat n)"
proof (cases "unat index < hdr")
  case True
  then show ?thesis using available_header [OF assms(1)] by blast
next
  case False
  then have "hdr \<le> unat index" and "loaded extent C hdr p" using assms by auto
  then show ?thesis
    using available_refill [OF assms(1) _ assms(3)] available_hit [OF assms(1) _ _ assms(3)] assms(1)
    by (cases "index > p_payloadEndIndex p \<or> p_payloadStartIndex p > index") blast+
qed

text \<open>The constructor starts a chunked packet, with room in the buffer for one window.\<close>

lemma length_encode_mono:
  assumes "unat n \<le> 16383" and "unat n \<le> unat m \<or> 128 \<le> unat m"
  shows "length (encodeRemainingLength n) \<le> length (encodeRemainingLength m)"
  using assms by (auto simp: length_encode_cases)

lemma Packet_publish_callback_eq:
  fixes packetId topic qos retain and n :: nat
  defines "hl \<equiv> length (publish_body packetId topic [] qos)"
  defines "hdr \<equiv> publish_header False qos retain #
      encodeRemainingLength (of_nat (hl + n)) @ publish_body packetId topic [] qos"
  assumes qos: "qos \<le> 2" and topic: "length topic \<le> 65535" and short: "hl + n \<le> 268435455"
  shows "Packet_publish_callback mem packetId topic f (of_nat n) qos retain =
    Some (if accepts mem True (of_nat (hl + min n 1440))
          then (SUCCESS, blank (if qos = 0 then 0 else packetId) (Some f)
            \<lparr>p_size := of_nat (length hdr + n),
             p_data := Some (hdr @ replicate (1 + length (encodeRemainingLength
                 (of_nat (hl + min n 1440))) + hl + min n 1440 - length hdr) 0),
             p_payloadIndex := of_nat (length hdr), p_payloadStartIndex := of_nat (length hdr),
             p_payloadEndIndex := of_nat (length hdr)\<rparr>)
          else (OUT_OF_MEMORY, blank (if qos = 0 then 0 else packetId) (Some f)))"
proof -
  define rl :: u32 where "rl = of_nat (hl + n)"
  define al :: u32 where "al = of_nat (hl + min n 1440)"
  define pid where "pid = (if qos = 0 then 0 else packetId)"
  have vals: "unat rl = hl + n" "unat al = hl + min n 1440"
    using short unfolding rl_def al_def by (intro unat_of_nat32; simp)+
  have small: "al \<le> 268435455"
    using short by (simp add: word_le_nat_alt vals)
  have rl: "publishRemainingLength topic (of_nat n) qos = rl"
    by (simp add: publishRemainingLength_def rl_def hl_def length_publish_body Let_def)
  have "min (of_nat n :: u32) 1440 = of_nat (min n 1440)"
    using short by (simp add: min_def word_le_nat_alt unat_of_nat32)
  then have al: "rl - of_nat n + min (of_nat n) EMC_RX_BUFFER_SIZE = al"
    by (simp add: rl_def al_def)
  define enc where "enc = encodeRemainingLength rl"
  define room where "room = length (encodeRemainingLength al) + hl + min n 1440"
  have "length enc \<le> 5" and "1 \<le> length (encodeRemainingLength al)"
    and "n \<le> 1440 \<Longrightarrow> rl = al"
    by (simp_all add: enc_def length_encode_cases rl_def al_def)
  then have room: "length enc + hl \<le> room"
    by (cases "n \<le> 1440") (simp_all add: room_def enc_def)
  have header: "fillPublishHeader (replicate (Suc room) 0) packetId topic rl qos retain =
      Some (filled hdr (room - length enc - hl))"
    using fillPublishHeader_filled [OF qos topic, of rl packetId room retain] room
    unfolding hdr_def rl_def [symmetric] by (simp add: hl_def [symmetric] enc_def [symmetric])
  have len: "length hdr = 1 + length enc + hl"
    unfolding hdr_def rl_def [symmetric] by (simp add: hl_def enc_def)
  show ?thesis
  proof (cases "accepts mem True al")
    case True
    have alloc: "allocate mem al True (blank pid (Some f)) =
        (True, blank pid (Some f)\<lparr>p_size := 1 + ucast (remainingLengthLength al) + al,
          p_data := Some (replicate (Suc room) 0)\<rparr>)"
      using allocate_accepted [OF True small, of "blank pid (Some f)"] by (simp add: vals room_def)
    have rest: "1 + length (encodeRemainingLength al) + hl + min n 1440 - length hdr =
        room - length enc - hl"
      by (simp add: len room_def)
    show ?thesis
      unfolding Packet_publish_callback_def rl al Let_def al_def [symmetric] pid_def [symmetric] rest alloc
      using True by (simp add: header [simplified] filled_def blank_def)
  next
    case False
    then show ?thesis
      unfolding Packet_publish_callback_def rl al Let_def al_def [symmetric] pid_def [symmetric]
      by (simp add: allocate_refused blank_def)
  qed
qed


text \<open>A packet it returns has its header in the buffer and room for a window of the payload.\<close>

definition callback_header :: "u16 \<Rightarrow> cstring \<Rightarrow> nat \<Rightarrow> u8 \<Rightarrow> bool \<Rightarrow> u8 list" where
  "callback_header packetId topic n qos retain = publish_header False qos retain #
     encodeRemainingLength (of_nat (length (publish_body packetId topic [] qos) + n)) @
     publish_body packetId topic [] qos"

lemma wire_publish_header:
  "wire_publish False packetId topic payload qos retain =
     callback_header packetId topic (length payload) qos retain @ payload"
proof -
  have body: "length (publish_body packetId topic payload qos) =
      length (publish_body packetId topic [] qos) + length payload"
    by (simp add: length_publish_body)
  show ?thesis
    unfolding wire_publish_def wire_packet_def body callback_header_def
    by (subst publish_body_split) simp
qed

lemma Packet_publish_callback_chunked:
  fixes packetId topic qos retain and n :: nat
  defines "hdr \<equiv> callback_header packetId topic n qos retain"
  assumes qos: "qos \<le> 2" and topic: "length topic \<le> 65535" and n: "0 < n"
    and short: "length (publish_body packetId topic [] qos) + n \<le> 16383"
    and f: "serves live (length hdr + n) C (length hdr) f" and C: "shows_at C 0 hdr"
    and made: "Packet_publish_callback mem packetId topic f (of_nat n) qos retain = Some (SUCCESS, p)"
  shows "chunked live (length hdr + n) C (length hdr) p"
proof -
  define hl where "hl = length (publish_body packetId topic [] qos)"
  define enc where "enc = encodeRemainingLength (of_nat (hl + n))"
  have hdr: "hdr = publish_header False qos retain # enc @ publish_body packetId topic [] qos"
    by (simp add: hdr_def callback_header_def enc_def hl_def)
  define al :: u32 where "al = of_nat (hl + min n 1440)"
  have len: "length hdr = 1 + length enc + hl"
    by (simp add: hdr hl_def)
  have v: "unat (of_nat (hl + n) :: u32) = hl + n" "unat al = hl + min n 1440"
    using short unfolding al_def hl_def by (intro unat_of_nat32; simp)+
  have "length enc \<le> length (encodeRemainingLength al)"
    unfolding enc_def using v short hl_def by (intro length_encode_mono) (auto simp del: of_nat_add)
  moreover have "length enc \<le> 5" and hl: "2 \<le> hl"
    by (auto simp: enc_def length_encode_cases hl_def length_publish_body)
  ultimately have small: "length hdr + n < 2 ^ 32"
    and room: "length hdr + min n 1440 \<le> 1 + length (encodeRemainingLength al) + hl + min n 1440"
    using short len by (simp_all add: hl_def)
  have vals: "unat (of_nat (length hdr) :: u32) = length hdr"
    "unat (of_nat (length hdr + n) :: u32) = length hdr + n"
    using small by (intro unat_of_nat32; simp)+
  have long: "1 < length hdr"
    using len hl by simp
  have nonzero: "(of_nat (length hdr) :: u32) \<noteq> 0"
    using vals(1) len by (metis unat_0 add_is_0 one_neq_zero)
  from made Packet_publish_callback_eq [OF qos topic, where n = n
      and packetId = packetId and mem = mem and f = f and retain = retain] short
  have p: "p = blank (if qos = 0 then 0 else packetId) (Some f)
            \<lparr>p_size := of_nat (length hdr + n),
             p_data := Some (hdr @ replicate (1 + length (encodeRemainingLength al)
                 + hl + min n 1440 - length hdr) 0),
             p_payloadIndex := of_nat (length hdr), p_payloadStartIndex := of_nat (length hdr),
             p_payloadEndIndex := of_nat (length hdr)\<rparr>"
    unfolding hl_def [symmetric] enc_def [symmetric] hdr [symmetric] al_def [symmetric]
    by (simp split: if_splits)
  show ?thesis
    unfolding p using f C n room nonzero long
    by (simp add: chunked_def blank_def vals min.commute del: of_nat_add)
qed


subsection \<open>Packets as byte sources\<close>

text \<open>
  The client sends a packet in pieces: it asks what is available from an index on, hands the
  transport those bytes unless there are none, and advances the index by what the transport took.
  \<open>send_run\<close> is that loop for a transport that takes at most the given number in each round.
\<close>

fun send_run :: "size_t list \<Rightarrow> size_t \<Rightarrow> Packet \<Rightarrow> (u8 list \<times> size_t \<times> Packet) option" where
  "send_run [] index p = Some ([], index, p)"
| "send_run (room # rooms) index p = do {
     (n, p) \<leftarrow> Packet_available index p;
     if n = 0 then send_run rooms index p
     else do {
       bytes \<leftarrow> Packet_bytes index (min room n) p;
       (sent, index, p) \<leftarrow> send_run rooms (index + min room n) p;
       Some (bytes @ sent, index, p)
     }
   }"

lemma Packet_bytes_prefix:
  "Packet_bytes index n p = Some bs \<Longrightarrow> m \<le> n \<Longrightarrow> Packet_bytes index m p = Some (take (unat m) bs)"
  by (auto simp: Packet_bytes_def region_def word_le_nat_alt bind_eq_Some split: if_splits)

text \<open>
  What the client relies on: the packet has \<open>extent\<close> bytes described by \<open>C\<close>, whatever is available at an
  index may stand at that index, and taking some of it leaves such a source. \<open>live\<close> says that
  bytes are always available before the end.
\<close>

locale packet_source =
  fixes extent :: nat and C :: "nat \<Rightarrow> u8 \<Rightarrow> bool" and source :: "size_t \<Rightarrow> Packet \<Rightarrow> bool" and live :: bool
  assumes source_size: "source index p \<Longrightarrow> unat (p_size p) = extent"
    and source_step: "source index p \<Longrightarrow> unat index < extent \<Longrightarrow>
      \<exists>n p' bs. Packet_available index p = Some (n, p') \<and> unat n \<le> extent - unat index \<and>
        (live \<longrightarrow> 0 < unat n) \<and> Packet_bytes index n p' = Some bs \<and> length bs = unat n \<and>
        shows_at C (unat index) bs \<and> (\<forall>m \<le> n. source (index + m) p')"
begin

lemma step:
  assumes src: "source index p" and index: "unat index < extent"
  obtains n p' bs where "Packet_available index p = Some (n, p')"
    and "Packet_bytes index (min room n) p' = Some bs" and "length bs = unat (min room n)"
    and "shows_at C (unat index) bs"
    and "source (index + min room n) p'"
    and "unat (index + min room n) = unat index + unat (min room n)"
    and "unat index + unat (min room n) \<le> extent"
    and "live \<Longrightarrow> 0 < room \<Longrightarrow> 0 < unat (min room n)"
proof -
  from source_step [OF assms] obtain n p' bs where avail: "Packet_available index p = Some (n, p')"
    and n: "unat n \<le> extent - unat index" "live \<longrightarrow> 0 < unat n"
    and bs: "Packet_bytes index n p' = Some bs" "length bs = unat n" "shows_at C (unat index) bs"
    and all: "\<forall>m \<le> n. source (index + m) p'"
    by blast
  have room: "min room n \<le> n" "unat (min room n) \<le> unat n"
    by (metis min.cobounded2 word_le_nat_alt)+
  then have le: "unat index + unat (min room n) \<le> extent"
    using n index by simp
  have "extent < 2 ^ 32"
    using source_size [OF src] u32_bound [of "p_size p"] by simp
  with le have sum: "unat (index + min room n) = unat index + unat (min room n)"
    by (subst unat_add_lem [THEN iffD1]) simp_all
  have "0 < unat (min room n)" if "live" "0 < room"
    using n that by (auto simp: min_def word_less_nat_alt)
  moreover have "Packet_bytes index (min room n) p' = Some (take (unat (min room n)) bs)"
    by (rule Packet_bytes_prefix [OF bs(1) room(1)])
  ultimately show thesis
    using that [OF avail _ _ shows_take [OF bs(3)]] all room bs(2) le sum by auto
qed

lemma run_prefix:
  "source index p \<Longrightarrow> unat index \<le> extent \<Longrightarrow>
   \<exists>bs index' p'. send_run rooms index p = Some (bs, index', p') \<and>
     length bs = unat index' - unat index \<and> shows_at C (unat index) bs \<and>
     source index' p' \<and> unat index \<le> unat index' \<and> unat index' \<le> extent \<and>
     (live \<and> (\<forall>room \<in> set rooms. 0 < room) \<longrightarrow>
       unat index' = extent \<or> unat index + length rooms \<le> unat index')"
proof (induction rooms arbitrary: index p)
  case Nil
  then show ?case by (simp add: shows_at_def)
next
  case (Cons room rooms)
  show ?case
  proof (cases "unat index < extent")
    case True
    from step [OF Cons.prems(1) True, where room = room] obtain n p' bs where
      s: "Packet_available index p = Some (n, p')"
      "Packet_bytes index (min room n) p' = Some bs" "length bs = unat (min room n)" "shows_at C (unat index) bs"
      "source (index + min room n) p'"
      "unat (index + min room n) = unat index + unat (min room n)"
      "unat index + unat (min room n) \<le> extent"
      "live \<Longrightarrow> 0 < room \<Longrightarrow> 0 < unat (min room n)"
      by blast
    define k where "k = unat (min room n)"
    from Cons.IH [OF s(5)] s(6,7) obtain bs' index' p'' where
      run: "send_run rooms (index + min room n) p' = Some (bs', index', p'')"
      "length bs' = unat index' - (unat index + k)" "shows_at C (unat index + k) bs'"
      and rest: "source index' p''" "unat index + k \<le> unat index'" "unat index' \<le> extent"
      "live \<and> (\<forall>room \<in> set rooms. 0 < room) \<longrightarrow>
         unat index' = extent \<or> unat index + k + length rooms \<le> unat index'"
      by (auto simp: k_def)
    have "shows_at C (unat index) (bs @ bs')"
      using s(3,4) run(3) by (simp add: shows_append k_def)
    moreover have "length (bs @ bs') = unat index' - unat index"
      using s(3) run(2) rest(2) by (simp add: k_def)
    moreover have "n = 0 \<Longrightarrow> k = 0 \<and> bs = []"
      using s(3) by (simp add: k_def)
    moreover have "live \<and> (\<forall>r \<in> set (room # rooms). 0 < r) \<longrightarrow>
        unat index' = extent \<or> unat index + length (room # rooms) \<le> unat index'"
      using rest(4) s(8) by (auto simp: k_def [symmetric])
    ultimately show ?thesis
      using s run rest by (cases "n = 0") (auto simp: k_def [symmetric])
  next
    case False
    then have "p_size p \<le> index"
      using source_size [OF Cons.prems(1)] by (simp add: word_le_nat_alt)
    then have "Packet_available index p = Some (0, p)"
      by (simp add: Packet_available_def)
    with Cons.IH [OF Cons.prems] False Cons.prems(2) show ?thesis by auto
  qed
qed

end


text \<open>A packet whose buffer holds the whole wire format is a live source of it.\<close>

interpretation whole_packet: packet_source "length wire" "\<lambda>i b. b = wire ! i"
    "\<lambda>index p. p_size p = of_nat (length wire) \<and> length wire < 2 ^ 32 \<and> p_getPayload p = None \<and>
       p_data p = Some wire" True
  for wire
proof (unfold_locales, goal_cases)
  case (1 index p)
  then show ?case by (simp add: unat_of_nat32)
next
  case (2 index p)
  let ?n = "of_nat (length wire) - index"
  have size: "unat (of_nat (length wire) :: u32) = length wire"
    using 2 by (simp add: unat_of_nat32)
  have n: "unat ?n = length wire - unat index"
    using 2 by (subst unat_sub) (simp_all add: size word_le_nat_alt)
  have avail: "Packet_available index p = Some (?n, p)"
    using 2 size by (simp add: Packet_available_def word_le_nat_alt)
  have "Packet_bytes index ?n p = Some (take (unat ?n) (drop (unat index) wire))"
    using 2 size n by (simp add: Packet_bytes_def Packet_data_def word_le_nat_alt)
  moreover have "shows_at (\<lambda>i b. b = wire ! i) (unat index) (take (unat ?n) (drop (unat index) wire))"
    using 2 by (auto simp: shows_at_def nth_drop)
  ultimately show ?case
    using avail n 2 by (intro exI [of _ ?n] exI [of _ p] exI [of _ "take (unat ?n) (drop (unat index) wire)"]) auto
qed

text \<open>So is a chunked packet, once its first window is loaded or while its header is being read.\<close>

interpretation chunked_packet: packet_source extent C
    "\<lambda>index p. chunked live extent C hdr p \<and> (loaded extent C hdr p \<or> unat index < hdr)" live
  for live extent C hdr
proof (unfold_locales, goal_cases)
  case (1 index p)
  then show ?case by (simp add: chunked_def)
next
  case (2 index p)
  then show ?case
    using Packet_available_step [of live extent C hdr p index] by auto
qed


text \<open>
  A callback that fills the window it is given overruns the buffer of a large packet: the buffer
  is sized with the length bytes of the shortened packet, and the header is written with those of
  the full one.
\<close>

lemma chunked_overrun:
  fixes packetId topic qos retain and n :: nat
  defines "hl \<equiv> length (publish_body packetId topic [] qos)"
  assumes qos: "qos \<le> 2" and small: "hl + 1440 \<le> 16383" and large: "16384 \<le> n" "n \<le> 134217728"
    and f: "length (f 1440 0) = 1440" and acc: "accepts mem True (of_nat (hl + 1440))"
    and made: "Packet_publish_callback mem packetId topic f (of_nat n) qos retain = Some (SUCCESS, p)"
  shows "Packet_available 0 p = None"
proof -
  define rl al :: u32 where "rl = of_nat (hl + n)" and "al = of_nat (hl + 1440)"
  define enc where "enc = encodeRemainingLength rl"
  define hdr where "hdr = publish_header False qos retain # enc @ publish_body packetId topic [] qos"
  have hl: "hl = 2 + length topic + (if qos = 0 then 0 else 2)"
    by (simp add: hl_def length_publish_body)
  have vals: "unat rl = hl + n" "unat al = hl + 1440"
    unfolding rl_def al_def using small large by (intro unat_of_nat32; simp)+
  have len: "length hdr = 1 + length enc + hl"
    by (simp add: hdr_def hl_def)
  have lens: "3 \<le> length enc" "length enc \<le> 4" "length (encodeRemainingLength al) = 2"
    unfolding enc_def length_encode_cases using vals small large hl by auto
  have n_min: "min n 1440 = 1440"
    using large by simp
  have topic: "length topic \<le> 65535" and sum: "hl + n \<le> 268435455"
    using small large hl by (auto split: if_splits)
  from made Packet_publish_callback_eq [OF qos topic, where n = n and packetId = packetId
      and mem = mem and f = f and retain = retain] sum acc
  have p: "p = blank (if qos = 0 then 0 else packetId) (Some f)
            \<lparr>p_size := of_nat (length hdr + n),
             p_data := Some (hdr @ replicate (1 + 2 + hl + 1440 - length hdr) 0),
             p_payloadIndex := of_nat (length hdr), p_payloadStartIndex := of_nat (length hdr),
             p_payloadEndIndex := of_nat (length hdr)\<rparr>"
    unfolding hl_def [symmetric] rl_def [symmetric] enc_def [symmetric] hdr_def [symmetric] n_min
      al_def [symmetric] lens(3)
    by (simp split: if_splits)
  have ix: "unat (of_nat (length hdr) :: u32) = length hdr"
    "unat (of_nat (length hdr + n) :: u32) = length hdr + n"
    using len lens small large by (intro unat_of_nat32; simp)+
  have pos: "(0 :: u32) < of_nat (length hdr)" "(of_nat (length hdr) :: u32) < of_nat (length hdr + n)"
    "(0 :: u32) < of_nat (length hdr + n)" "(of_nat (length hdr) :: u32) \<noteq> 0"
    "(of_nat (length hdr + n) :: u32) \<noteq> 0"
    unfolding word_less_nat_alt word_unat_eq_iff ix using len large by simp_all
  have window: "min 1440 (of_nat (length hdr + n) - of_nat (length hdr)) = (1440 :: u32)"
  proof -
    have "unat (of_nat (length hdr + n) - of_nat (length hdr) :: u32) = n"
      using ix by (subst unat_sub [OF order_less_imp_le [OF pos(2)]]) simp
    with large show ?thesis
      by (simp add: min_def word_le_nat_alt)
  qed
  have long: "3 + hl < length hdr" "1443 + hl - length hdr < 1440"
    using len lens by simp_all
  show ?thesis
    using pos window f long
    by (simp add: p Packet_available_def chunkedAvailable_def fetchPayload_def blank_def put_def ix
        linorder_not_le Let_def del: of_nat_add)
qed


text \<open>Without a payload \<open>available\<close> skips the fetch and computes the end of the window as if a byte of it
  were there.\<close>

lemma chunked_empty:
  fixes packetId topic qos retain
  assumes qos: "qos \<le> 2" and small: "length (publish_body packetId topic [] qos) + 1440 \<le> 16383"
    and acc: "accepts mem True (of_nat (length (publish_body packetId topic [] qos)))"
  shows "\<exists>p k. Packet_publish_callback mem packetId topic g 0 qos retain = Some (SUCCESS, p) \<and>
    Packet_available 0 p = Some (k, p) \<and> k = p_size p + 1 \<and> k \<noteq> 0 \<and> Packet_bytes 0 k p = None"
proof -
  define hdr where "hdr = callback_header packetId topic 0 qos retain"
  have topic: "length topic \<le> 65535" and sum: "length (publish_body packetId topic [] qos) + 0 \<le> 268435455"
    using small by (simp_all add: length_publish_body split: if_splits)
  define p where "p = blank (if qos = 0 then 0 else packetId) (Some g)\<lparr>p_size := of_nat (length hdr),
      p_data := Some hdr, p_payloadIndex := of_nat (length hdr), p_payloadStartIndex := of_nat (length hdr),
      p_payloadEndIndex := of_nat (length hdr)\<rparr>"
  have len: "length hdr \<le> 16383" "0 < length hdr"
    using small by (auto simp: hdr_def callback_header_def length_encode_cases split: if_splits)
  have made: "Packet_publish_callback mem packetId topic g 0 qos retain = Some (SUCCESS, p)"
    using Packet_publish_callback_eq [OF qos topic sum, of mem g retain] acc
    by (simp add: p_def hdr_def callback_header_def)
  have v: "unat (of_nat (length hdr) :: u32) = length hdr" "unat (of_nat (length hdr) + 1 :: u32) = length hdr + 1"
    using len unat_of_nat32 [of "length hdr + 1"] by (simp_all add: unat_of_nat32 add.commute)
  have pos: "(0 :: u32) < of_nat (length hdr)"
    using len by (simp add: word_less_nat_alt v)
  have "Packet_available 0 p = Some (of_nat (length hdr) + 1, p)"
    using pos by (simp add: p_def blank_def Packet_available_def chunkedAvailable_def linorder_not_le)
  moreover have "Packet_bytes 0 (of_nat (length hdr) + 1) p = None"
    using pos by (simp add: p_def blank_def Packet_bytes_def Packet_data_def chunkedData_def region_def v)
  moreover have "of_nat (length hdr) + 1 \<noteq> (0 :: u32)"
    using v(2) by (metis add_is_0 unat_0 one_neq_zero)
  ultimately show ?thesis
    using made by (simp add: p_def)
qed


subsection \<open>Correctness\<close>

lemma length_packet_of_bytes: "p_size (packet_of packetId wire) = of_nat (length wire)"
  by (simp add: packet_of_def)

text \<open>However the transport splits the sending of a packet built in one piece, what it is given
  are the bytes of the packet in order, none twice and none left out; and if it takes at least one
  byte in each round, the whole packet is sent after at most as many rounds as it has bytes.\<close>

lemma packet_transmission:
  assumes "length wire < 2 ^ 32"
  shows "\<exists>index' p'. send_run rooms 0 (packet_of packetId wire) =
      Some (take (unat index') wire, index', p') \<and> unat index' \<le> length wire \<and>
    ((\<forall>room \<in> set rooms. 0 < room) \<and> length wire \<le> length rooms \<longrightarrow> unat index' = length wire)"
proof -
  have src: "p_size (packet_of packetId wire) = of_nat (length wire) \<and> length wire < 2 ^ 32 \<and>
      p_getPayload (packet_of packetId wire) = None \<and> p_data (packet_of packetId wire) = Some wire"
    using assms by (simp add: packet_of_def blank_def)
  from whole_packet.run_prefix [OF src, of 0 rooms] obtain bs index' p' where
    run: "send_run rooms 0 (packet_of packetId wire) = Some (bs, index', p')" "length bs = unat index'"
    "shows_at (\<lambda>i b. b = wire ! i) 0 bs" "unat index' \<le> length wire"
    "(\<forall>room \<in> set rooms. 0 < room) \<longrightarrow> unat index' = length wire \<or> length rooms \<le> unat index'"
    by auto
  from shows_wire [OF run(3)] run(2,4) have "bs = take (unat index') wire" by simp
  with run show ?thesis by (intro exI [of _ index'] exI [of _ p']) auto
qed

lemma packet_transmission_witness:
  "\<exists>p'. send_run [2, 1, 5] 0 (packet_of 0 [0xC0, 0, 1]) = Some ([0xC0, 0, 1], 3, p')"
proof -
  from packet_transmission [of "[0xC0, 0, 1]" "[2, 1, 5]" 0]
  obtain index' p' where "send_run [2, 1, 5] 0 (packet_of 0 [0xC0, 0, 1]) =
      Some (take (unat index') [0xC0, 0, 1], index', p')" and "unat index' = 3"
    by (auto simp: word_less_nat_alt)
  moreover from this have "index' = 3" by (simp add: word_unat_eq_iff)
  ultimately show ?thesis by simp
qed

text \<open>
  The bytes a payload callback may contribute at position \<open>i\<close> of the packet: those it stores when it is
  asked for a window that starts at a payload position up to \<open>i\<close>, or for the first window, while the
  header is sent.
\<close>

definition callback_byte :: "PayloadCallback \<Rightarrow> nat \<Rightarrow> nat \<Rightarrow> nat \<Rightarrow> u8 \<Rightarrow> bool" where
  "callback_byte f hdr extent i b \<longleftrightarrow>
     (\<exists>index m. 0 < m \<and> unat m \<le> min 1440 (extent - max hdr (unat index)) \<and> max hdr (unat index) \<le> i \<and>
        i - max hdr (unat index) < length (f m index) \<and> b = f m index ! (i - max hdr (unat index)))"

definition callback_content :: "PayloadCallback \<Rightarrow> u8 list \<Rightarrow> nat \<Rightarrow> nat \<Rightarrow> u8 \<Rightarrow> bool" where
  "callback_content f hdr n i b \<longleftrightarrow>
     (if i < length hdr then b = hdr ! i else callback_byte f (length hdr) (length hdr + n) i b)"

lemma callback_serves:
  assumes "\<forall>m i. length (f m i) \<le> unat m"
  shows "serves (\<forall>m i. 0 < m \<and> unat i < length hdr + n \<longrightarrow> f m i \<noteq> []) (length hdr + n)
    (callback_content f hdr n) (length hdr) f"
proof -
  have "shows_at (callback_content f hdr n) (max (length hdr) (unat i)) (f m i)"
    if "0 < m" "unat m \<le> min 1440 (length hdr + n - max (length hdr) (unat i))" for m i
    unfolding shows_at_def
  proof (intro allI impI)
    fix j assume j: "j < length (f m i)"
    have "callback_byte f (length hdr) (length hdr + n) (max (length hdr) (unat i) + j) (f m i ! j)"
      unfolding callback_byte_def using that j by (intro exI [of _ i] exI [of _ m]) simp
    moreover have "\<not> max (length hdr) (unat i) + j < length hdr" by simp
    ultimately show "callback_content f hdr n (max (length hdr) (unat i) + j) (f m i ! j)"
      unfolding callback_content_def by (simp only: if_False)
  qed
  with assms show ?thesis
    unfolding serves_def by blast
qed

text \<open>A callback that delivers the bytes of one payload, and takes its index for what it is, a position
  in the packet.\<close>

definition answers_from :: "u8 list \<Rightarrow> nat \<Rightarrow> PayloadCallback \<Rightarrow> bool" where
  "answers_from payload hdr f \<longleftrightarrow> (\<forall>m i. f m i = take (length (f m i)) (drop (unat i - hdr) payload))"

lemma answered_byte:
  assumes f: "answers_from payload hdr f" and b: "callback_byte f hdr extent i b"
  shows "i - hdr < length payload \<and> b = payload ! (i - hdr)"
proof -
  from b obtain index m where j: "max hdr (unat index) \<le> i" "i - max hdr (unat index) < length (f m index)"
    and b: "b = f m index ! (i - max hdr (unat index))"
    by (auto simp: callback_byte_def)
  have eq: "f m index = take (length (f m index)) (drop (unat index - hdr) payload)"
    using f by (simp add: answers_from_def)
  have pos: "(unat index - hdr) + (i - max hdr (unat index)) = i - hdr"
    using j(1) by (auto simp: max_def)
  have "length (f m index) \<le> length payload - (unat index - hdr)"
    by (subst eq) simp
  with j pos have len: "i - hdr < length payload" by linarith
  have "b = take (length (f m index)) (drop (unat index - hdr) payload) ! (i - max hdr (unat index))"
    using b eq by metis
  also have "\<dots> = payload ! (i - hdr)"
    using j(2) len pos by (simp add: nth_drop)
  finally show ?thesis using len by blast
qed

text \<open>C12: A PUBLISH whose payload comes from a callback is sent as its header, with the length of the
  whole, followed by bytes of the callback, however the transport splits the sending and however much
  the callback delivers at a time: the byte at a position is one the callback stored there when asked
  for a window that starts at or before it. If the callback delivers the bytes of a payload by position in
  the packet, which is what the index it is given counts, these are exactly the bytes of a PUBLISH with
  that payload, in order; and all is sent if transport and callback always make progress. This
  is for a callback that stores no more than it is allowed, and for payloads of at least one byte in a body of
  at most 16383 bytes.\<close>

theorem chunked_transmission:
  fixes packetId topic qos retain and n :: nat
  assumes "qos \<le> 2" and "length topic \<le> 65535" and "0 < n"
    and "length (publish_body packetId topic [] qos) + n \<le> 16383"
    and "\<forall>m i. length (f m i) \<le> unat m"
    and "accepts mem True (of_nat (length (publish_body packetId topic [] qos) + min n 1440))"
    and "hdr = callback_header packetId topic n qos retain"
  shows "\<exists>p bytes index' p'.
    Packet_publish_callback mem packetId topic f (of_nat n) qos retain = Some (SUCCESS, p) \<and>
    send_run rooms 0 p = Some (bytes, index', p') \<and>
    length bytes = unat index' \<and> unat index' \<le> length hdr + n \<and>
    (\<forall>i < length bytes. if i < length hdr then bytes ! i = hdr ! i
       else callback_byte f (length hdr) (length hdr + n) i (bytes ! i)) \<and>
    (\<forall>payload. length payload = n \<and> answers_from payload (length hdr) f \<longrightarrow>
       bytes = take (unat index') (wire_publish False packetId topic payload qos retain)) \<and>
    ((\<forall>m i. 0 < m \<and> unat i < length hdr + n \<longrightarrow> f m i \<noteq> []) \<and> (\<forall>room \<in> set rooms. 0 < room) \<and>
       length hdr + n \<le> length rooms \<longrightarrow> unat index' = length hdr + n)"
proof -
  let ?C = "callback_content f hdr n"
  define live where "live \<longleftrightarrow> (\<forall>m i. 0 < m \<and> unat i < length hdr + n \<longrightarrow> f m i \<noteq> [])"
  have "length (publish_body packetId topic [] qos) + n \<le> 268435455"
    using assms(4) by simp
  from Packet_publish_callback_eq [OF assms(1,2) this, of mem f retain] assms(6)
  obtain p where made: "Packet_publish_callback mem packetId topic f (of_nat n) qos retain = Some (SUCCESS, p)"
    by auto
  have "shows_at ?C 0 hdr"
    by (simp add: shows_at_def callback_content_def)
  with Packet_publish_callback_chunked [OF assms(1-4) _ _ made, where live = live and C = ?C]
    callback_serves [OF assms(5), of hdr n, folded live_def]
  have ch: "chunked live (length hdr + n) ?C (length hdr) p"
    by (simp only: assms(7) [symmetric] simp_thms)
  then have src: "chunked live (length hdr + n) ?C (length hdr) p \<and>
      (loaded (length hdr + n) ?C (length hdr) p \<or> unat (0 :: u32) < length hdr)"
    by (auto simp: chunked_def)
  from chunked_packet.run_prefix [OF src, of rooms] obtain bytes index' p' where
    run: "send_run rooms 0 p = Some (bytes, index', p')" "length bytes = unat index'"
      "shows_at ?C 0 bytes" "unat index' \<le> length hdr + n"
      "live \<and> (\<forall>room \<in> set rooms. 0 < room) \<longrightarrow> unat index' = length hdr + n \<or> length rooms \<le> unat index'"
    by auto
  have at: "?C i (bytes ! i)" if "i < length bytes" for i
    using run(3) that by (simp add: shows_at_def)
  have "bytes = take (unat index') (wire_publish False packetId topic payload qos retain)"
    if payload: "length payload = n" "answers_from payload (length hdr) f" for payload
  proof (rule nth_equalityI)
    have wire: "wire_publish False packetId topic payload qos retain = hdr @ payload"
      using payload(1) by (simp add: wire_publish_header assms(7))
    then show "length bytes = length (take (unat index') (wire_publish False packetId topic payload qos retain))"
      using payload(1) run(2,4) by simp
    fix i assume i: "i < length bytes"
    with at [OF i] answered_byte [OF payload(2)] show
      "bytes ! i = take (unat index') (wire_publish False packetId topic payload qos retain) ! i"
      using run(2) by (auto simp: wire callback_content_def nth_append split: if_splits)
  qed
  moreover have "live \<and> (\<forall>room \<in> set rooms. 0 < room) \<and> length hdr + n \<le> length rooms \<longrightarrow>
      unat index' = length hdr + n"
    using run(4,5) by auto
  moreover have "\<forall>i < length bytes. if i < length hdr then bytes ! i = hdr ! i
      else callback_byte f (length hdr) (length hdr + n) i (bytes ! i)"
    using at by (simp add: callback_content_def)
  ultimately show ?thesis
    using made run(1,2,4) unfolding live_def by blast
qed

theorem chunked_transmission_witness:
  "\<exists>p index' p'. Packet_publish_callback ample 0 [97] (\<lambda>m i. take (min 2 (unat m)) (drop (unat i - 5) [1, 2, 3])) 3 0 False =
      Some (SUCCESS, p) \<and>
    send_run [3, 3, 3, 3, 3, 3, 3, 3] 0 p = Some ([0x30, 6, 0, 1, 97, 1, 2, 3], index', p')"
proof -
  have body: "publish_body 0 [97] [1, 2, 3] 0 = [0, 1, 97, 1, 2, 3]" "length (publish_body 0 [97] [] 0) = 3"
    by (simp_all add: publish_body_def wire_string_def wire_u16_def hi8_def lo8_def)
  have wire: "wire_publish False 0 [97] [1, 2, 3] 0 False = [0x30, 6, 0, 1, 97, 1, 2, 3]"
    unfolding wire_publish_def wire_packet_def body by (simp add: encode_last publish_header_def)
  define f where "f = (\<lambda>(m :: size_t) (i :: size_t). take (min 2 (unat m)) (drop (unat i - 5) [1, 2, 3 :: u8]))"
  define rooms :: "size_t list" where "rooms = [3, 3, 3, 3, 3, 3, 3, 3]"
  define hdr where "hdr = callback_header 0 [97] 3 0 False"
  have hdr: "length hdr = 5"
    by (simp only: hdr_def callback_header_def body) (simp add: encode_last body)
  have f: "\<forall>m i. length (f m i) \<le> unat m" "answers_from [1, 2, 3] 5 f"
    "\<And>m i. 0 < m \<and> unat i < 8 \<longrightarrow> f m i \<noteq> []"
    by (auto simp: answers_from_def f_def min_def word_less_nat_alt)
  have rooms: "\<forall>room \<in> set rooms. 0 < room" "length rooms = 8"
    by (simp_all add: rooms_def)
  from chunked_transmission [of 0 "[97]" 3 0 f ample hdr False rooms] f rooms
  obtain p bytes index' p' where made: "Packet_publish_callback ample 0 [97] f 3 0 False = Some (SUCCESS, p)"
    "send_run rooms 0 p = Some (bytes, index', p')" "unat index' = 8"
    and bytes: "\<forall>payload. length payload = 3 \<and> answers_from payload 5 f \<longrightarrow>
      bytes = take (unat index') (wire_publish False 0 [97] payload 0 False)"
    by (auto simp: body hdr hdr_def [symmetric])
  have "bytes = [0x30, 6, 0, 1, 97, 1, 2, 3]"
    using spec [OF bytes, of "[1, 2, 3]"] f(2) made(3) by (simp add: wire)
  with made show ?thesis
    unfolding f_def rooms_def by (intro exI conjI) simp_all
qed

text \<open>C40: Two kinds of callback PUBLISH are read outside their buffer. With a payload of 16384 bytes or
  more the buffer is too small: a callback that fills the window it is offered makes the first read of
  the packet write outside it. With an empty payload and any callback, which is never called, the packet
  announces one byte more than it has, and handing these bytes to the transport reads behind the
  buffer.\<close>

theorem chunked_large_overrun:
  assumes "qos \<le> 2" and "length (publish_body packetId topic [] qos) + 1440 \<le> 16383"
    and "16384 \<le> n" and "n \<le> 134217728" and "length (f 1440 0) = 1440"
    and "accepts mem True (of_nat (length (publish_body packetId topic [] qos) + 1440))"
    and "accepts mem' True (of_nat (length (publish_body packetId topic [] qos)))"
  shows "(\<exists>p. Packet_publish_callback mem packetId topic f (of_nat n) qos retain = Some (SUCCESS, p) \<and>
      Packet_available 0 p = None) \<and>
    (\<exists>p k. Packet_publish_callback mem' packetId topic g 0 qos retain = Some (SUCCESS, p) \<and>
      Packet_available 0 p = Some (k, p) \<and> k = p_size p + 1 \<and> Packet_bytes 0 k p = None)"
proof (intro conjI)
  have "length topic \<le> 65535" and "length (publish_body packetId topic [] qos) + n \<le> 268435455"
    using assms(2,3,4) by (simp_all add: length_publish_body split: if_splits)
  from Packet_publish_callback_eq [OF assms(1) this, of mem f retain] assms(3,6)
  obtain p where made: "Packet_publish_callback mem packetId topic f (of_nat n) qos retain = Some (SUCCESS, p)"
    by (auto simp: min_def)
  with chunked_overrun [OF assms(1-5,6) made]
  show "\<exists>p. Packet_publish_callback mem packetId topic f (of_nat n) qos retain = Some (SUCCESS, p) \<and>
      Packet_available 0 p = None" by blast
  show "\<exists>p k. Packet_publish_callback mem' packetId topic g 0 qos retain = Some (SUCCESS, p) \<and>
      Packet_available 0 p = Some (k, p) \<and> k = p_size p + 1 \<and> Packet_bytes 0 k p = None"
    using chunked_empty [OF assms(1,2,7)] by blast
qed

theorem chunked_large_overrun_witness:
  "(\<exists>p. Packet_publish_callback ample 0 [97] (\<lambda>m i. replicate (unat m) 0) 20000 0 False = Some (SUCCESS, p) \<and>
      Packet_available 0 p = None) \<and>
   (\<exists>p. Packet_publish_callback ample 0 [97] (\<lambda>m i. []) 0 0 False = Some (SUCCESS, p) \<and>
      (\<exists>k. Packet_available 0 p = Some (k, p) \<and> Packet_bytes 0 k p = None))"
  using chunked_large_overrun [of 0 0 "[97]" 20000 "\<lambda>m i. replicate (unat m) 0" ample ample False "\<lambda>m i. []"]
  by (auto simp: length_publish_body)

end
