(* ===== verification/Outbox.thy ===== *)
theory Outbox
  imports Prelude
begin

text \<open>
  \<open>src/src/Outbox.h\<close>: the singly linked queue of outgoing packets, with its built-in cursor
  (\<open>_current\<close>, \<open>_prev\<close>) and its iterators. Nodes live in a heap, a map from addresses; a null
  pointer is \<open>None\<close>. An operation faults when it dereferences a pointer to no node.

  Where the code allocates a node, the model takes the address the allocation returned, or
  \<open>None\<close> when it failed.
\<close>

type_synonym ptr = "nat option"

record 'a Node =
  n_data :: 'a
  n_next :: ptr

record 'a Outbox =
  o_nodes :: "nat \<rightharpoonup> 'a Node"
  o_first :: ptr
  o_last :: ptr
  o_current :: ptr
  o_prev :: ptr

record Iterator =
  it_node :: ptr
  it_prev :: ptr

definition Outbox_init :: "'a Outbox" where
  "Outbox_init = \<lparr>o_nodes = Map.empty, o_first = None, o_last = None, o_current = None, o_prev = None\<rparr>"

text \<open>\<open>p->next\<close> and \<open>p->next = q\<close>\<close>

definition Node_at :: "ptr \<Rightarrow> 'a Outbox \<Rightarrow> 'a Node option" where
  "Node_at p ob = (case p of None \<Rightarrow> None | Some a \<Rightarrow> o_nodes ob a)"

definition set_next :: "ptr \<Rightarrow> ptr \<Rightarrow> 'a Outbox \<Rightarrow> 'a Outbox option" where
  "set_next p q ob = do {
     a \<leftarrow> p;
     n \<leftarrow> o_nodes ob a;
     Some (ob\<lparr>o_nodes := (o_nodes ob)(a \<mapsto> n\<lparr>n_next := q\<rparr>)\<rparr>)
   }"

subsection \<open>Iterators\<close>

definition Iterator_next :: "'a Outbox \<Rightarrow> Iterator \<Rightarrow> Iterator option" where
  "Iterator_next ob it =
     (if it_node it \<noteq> None then do {
        n \<leftarrow> Node_at (it_node it) ob;
        Some \<lparr>it_node = n_next n, it_prev = it_node it\<rparr>
      } else Some it)"

definition Iterator_bool :: "Iterator \<Rightarrow> bool" where
  "Iterator_bool it = (if it_node it \<noteq> None then True else False)"

definition Iterator_get :: "'a Outbox \<Rightarrow> Iterator \<Rightarrow> 'a option option" where
  "Iterator_get ob it =
     (if it_node it \<noteq> None then map_option (\<lambda>n. Some (n_data n)) (Node_at (it_node it) ob)
      else Some None)"

definition Outbox_front :: "'a Outbox \<Rightarrow> Iterator" where
  "Outbox_front ob = \<lparr>it_node = o_first ob, it_prev = None\<rparr>"

subsection \<open>Operations\<close>

definition Outbox_emplace :: "ptr \<Rightarrow> 'a \<Rightarrow> 'a Outbox \<Rightarrow> (Iterator \<times> 'a Outbox) option" where
  "Outbox_emplace node data ob =
     (case node of
        None \<Rightarrow> Some (\<lparr>it_node = None, it_prev = None\<rparr>, ob)
      | Some a \<Rightarrow> do {
          let ob = ob\<lparr>o_nodes := (o_nodes ob)(a \<mapsto> \<lparr>n_data = data, n_next = None\<rparr>)\<rparr>;
          (ob, prev) \<leftarrow>
            (if o_first ob = None then Some (ob\<lparr>o_first := node, o_current := node\<rparr>, None)
             else do { ob' \<leftarrow> set_next (o_last ob) node ob; Some (ob', o_last ob) });
          let ob = ob\<lparr>o_last := node\<rparr>;
          let ob = (if o_current ob = None then ob\<lparr>o_current := o_last ob\<rparr> else ob);
          Some (\<lparr>it_node = node, it_prev = prev\<rparr>, ob)
        })"

definition Outbox_emplaceFront :: "ptr \<Rightarrow> 'a \<Rightarrow> 'a Outbox \<Rightarrow> (Iterator \<times> 'a Outbox) option" where
  "Outbox_emplaceFront node data ob =
     (case node of
        None \<Rightarrow> Some (\<lparr>it_node = None, it_prev = None\<rparr>, ob)
      | Some a \<Rightarrow> do {
          let ob = ob\<lparr>o_nodes := (o_nodes ob)(a \<mapsto> \<lparr>n_data = data, n_next = None\<rparr>)\<rparr>;
          ob \<leftarrow>
            (if o_first ob = None then Some (ob\<lparr>o_last := node\<rparr>)
             else set_next node (o_first ob) ob);
          Some (\<lparr>it_node = node, it_prev = None\<rparr>,
                ob\<lparr>o_first := node, o_current := node, o_prev := None\<rparr>)
        })"

text \<open>\<open>_remove\<close>; the last step gives the node back.\<close>

definition Outbox_unlink :: "ptr \<Rightarrow> ptr \<Rightarrow> 'a Outbox \<Rightarrow> 'a Outbox option" where
  "Outbox_unlink prev node ob =
     (case node of
        None \<Rightarrow> Some ob
      | Some a \<Rightarrow> do {
          n \<leftarrow> Node_at node ob;
          let ob = (if o_current ob = node then ob\<lparr>o_current := n_next n\<rparr> else ob);
          let ob = (if o_prev ob = node then ob\<lparr>o_prev := prev\<rparr> else ob);
          ob \<leftarrow>
            (if o_first ob = o_last ob then Some (ob\<lparr>o_first := None, o_last := None\<rparr>)
             else if o_first ob = node then Some (ob\<lparr>o_first := n_next n\<rparr>)
             else if o_last ob = node then set_next prev None (ob\<lparr>o_last := prev\<rparr>)
             else set_next prev (n_next n) ob);
          Some (ob\<lparr>o_nodes := (o_nodes ob)(a := None)\<rparr>)
        })"

definition Outbox_remove :: "Iterator \<Rightarrow> 'a Outbox \<Rightarrow> (Iterator \<times> 'a Outbox) option" where
  "Outbox_remove it ob =
     (if \<not> Iterator_bool it then Some (it, ob)
      else do {
        n \<leftarrow> Node_at (it_node it) ob;
        ob \<leftarrow> Outbox_unlink (it_prev it) (it_node it) ob;
        Some (\<lparr>it_node = n_next n, it_prev = it_prev it\<rparr>, ob)
      })"

definition Outbox_removeCurrent :: "'a Outbox \<Rightarrow> 'a Outbox option" where
  "Outbox_removeCurrent ob = Outbox_unlink (o_prev ob) (o_current ob) ob"

definition Outbox_getCurrent :: "'a Outbox \<Rightarrow> 'a option option" where
  "Outbox_getCurrent ob =
     (if o_current ob \<noteq> None then map_option (\<lambda>n. Some (n_data n)) (Node_at (o_current ob) ob)
      else Some None)"

definition Outbox_resetCurrent :: "'a Outbox \<Rightarrow> 'a Outbox" where
  "Outbox_resetCurrent ob = ob\<lparr>o_current := o_first ob\<rparr>"

definition Outbox_next :: "'a Outbox \<Rightarrow> 'a Outbox option" where
  "Outbox_next ob =
     (if o_current ob \<noteq> None then do {
        n \<leftarrow> Node_at (o_current ob) ob;
        Some (ob\<lparr>o_prev := o_current ob, o_current := n_next n\<rparr>)
      } else Some ob)"

definition Outbox_empty :: "'a Outbox \<Rightarrow> bool" where
  "Outbox_empty ob = (if o_first ob = None then True else False)"

text \<open>A write through the pointer that \<open>get\<close> or \<open>getCurrent\<close> returned.\<close>

definition Outbox_write :: "ptr \<Rightarrow> ('a \<Rightarrow> 'a) \<Rightarrow> 'a Outbox \<Rightarrow> 'a Outbox option" where
  "Outbox_write p f ob = do {
     a \<leftarrow> p;
     n \<leftarrow> Node_at p ob;
     Some (ob\<lparr>o_nodes := (o_nodes ob)(a \<mapsto> n\<lparr>n_data := f (n_data n)\<rparr>)\<rparr>)
   }"

text \<open>The two loops along the list: counting it, and the destructor.\<close>

partial_function (option) Outbox_count :: "ptr \<Rightarrow> nat \<Rightarrow> 'a Outbox \<Rightarrow> nat option" where
  "Outbox_count p count ob =
     (case p of
        None \<Rightarrow> Some count
      | Some a \<Rightarrow> do { n \<leftarrow> Node_at p ob; Outbox_count (n_next n) (count + 1) ob })"

definition Outbox_size :: "'a Outbox \<Rightarrow> nat option" where
  "Outbox_size ob = Outbox_count (o_first ob) 0 ob"

partial_function (option) Outbox_destroy :: "'a Outbox \<Rightarrow> 'a Outbox option" where
  "Outbox_destroy ob =
     (case o_first ob of
        None \<Rightarrow> Some ob
      | Some a \<Rightarrow> do {
          n \<leftarrow> Node_at (o_first ob) ob;
          Outbox_destroy (ob\<lparr>o_nodes := (o_nodes ob)(a := None), o_first := n_next n\<rparr>)
        })"

declare Outbox_count.simps [code] Outbox_destroy.simps [code]


subsection \<open>The queue an outbox stands for\<close>

text \<open>
  Abstractly an outbox is a list and a position in it, the cursor; the cursor at the length of the
  list is past the end. \<open>rep as xs i ob\<close> says that \<open>ob\<close> stores \<open>xs\<close> at the addresses \<open>as\<close>, with
  the cursor at \<open>i\<close>. Only a cursor past the first element needs its predecessor: the code leaves a
  stale \<open>_prev\<close> behind in \<open>resetCurrent\<close>, and never uses it.
\<close>

type_synonym 'a queue = "'a list \<times> nat"

definition at :: "'b list \<Rightarrow> nat \<Rightarrow> 'b option" where
  "at as k = (if k < length as then Some (as ! k) else None)"

definition del :: "nat \<Rightarrow> 'b list \<Rightarrow> 'b list" where
  "del k xs = take k xs @ drop (Suc k) xs"

definition q_emplace :: "'a \<Rightarrow> 'a queue \<Rightarrow> 'a queue" where
  "q_emplace x = (\<lambda>(xs, i). (xs @ [x], i))"

definition q_emplaceFront :: "'a \<Rightarrow> 'a queue \<Rightarrow> 'a queue" where
  "q_emplaceFront x = (\<lambda>(xs, i). (x # xs, 0))"

definition q_remove :: "nat \<Rightarrow> 'a queue \<Rightarrow> 'a queue" where
  "q_remove k = (\<lambda>(xs, i). if k < length xs then (del k xs, if k < i then i - 1 else i) else (xs, i))"

definition q_removeCurrent :: "'a queue \<Rightarrow> 'a queue" where
  "q_removeCurrent q = q_remove (snd q) q"

definition q_next :: "'a queue \<Rightarrow> 'a queue" where
  "q_next = (\<lambda>(xs, i). (xs, if i < length xs then Suc i else i))"

definition q_resetCurrent :: "'a queue \<Rightarrow> 'a queue" where
  "q_resetCurrent = (\<lambda>(xs, i). (xs, 0))"

definition q_current :: "'a queue \<Rightarrow> 'a option" where
  "q_current = (\<lambda>(xs, i). at xs i)"

definition q_write :: "nat \<Rightarrow> ('a \<Rightarrow> 'a) \<Rightarrow> 'a queue \<Rightarrow> 'a queue" where
  "q_write k f = (\<lambda>(xs, i). (if k < length xs then xs[k := f (xs ! k)] else xs, i))"

definition rep :: "nat list \<Rightarrow> 'a queue \<Rightarrow> 'a Outbox \<Rightarrow> bool" where
  "rep as = (\<lambda>(xs, i) ob. distinct as \<and> length xs = length as \<and> dom (o_nodes ob) = set as \<and>
     (\<forall>k < length as. o_nodes ob (as ! k) = Some \<lparr>n_data = xs ! k, n_next = at as (Suc k)\<rparr>) \<and>
     o_first ob = at as 0 \<and> o_last ob = at as (length as - 1) \<and>
     i \<le> length as \<and> o_current ob = at as i \<and> (0 < i \<longrightarrow> o_prev ob = at as (i - 1)))"

lemma at_simps [simp]:
  "at [] k = None" "at (x # xs) 0 = Some x" "at (x # xs) (Suc k) = at xs k"
  "k < length xs \<Longrightarrow> at xs k = Some (xs ! k)" "length xs \<le> k \<Longrightarrow> at xs k = None"
  by (simp_all add: at_def)

lemma at_append: "at (as @ [a]) k = (if k = length as then Some a else at as k)"
  by (auto simp: at_def nth_append)

lemma length_del [simp]: "k < length xs \<Longrightarrow> length (del k xs) = length xs - 1"
  by (simp add: del_def)

lemma nth_del: "k < length xs \<Longrightarrow> j < length xs - 1 \<Longrightarrow> del k xs ! j = xs ! (if j < k then j else Suc j)"
  by (auto simp: del_def nth_append)

lemma at_del: "k < length xs \<Longrightarrow> at (del k xs) j = at xs (if j < k then j else Suc j)"
  by (auto simp: at_def nth_del)

lemma set_del: "distinct xs \<Longrightarrow> k < length xs \<Longrightarrow> set (del k xs) = set xs - {xs ! k}"
proof -
  assume "distinct xs" and "k < length xs"
  then have "xs = take k xs @ xs ! k # drop (Suc k) xs" and "distinct (take k xs @ xs ! k # drop (Suc k) xs)"
    by (simp_all add: id_take_nth_drop [symmetric])
  then show ?thesis
    by (metis (no_types) Diff_insert_absorb Un_insert_right del_def disjoint_insert(1)
        distinct.simps(2) distinct_append list.simps(15) set_append UnE insert_absorb)
qed

lemma distinct_del: "distinct xs \<Longrightarrow> distinct (del k xs)"
  by (auto simp: del_def distinct_drop dest: in_set_takeD set_take_disj_set_drop_if_distinct [of xs k "Suc k"])

subsection \<open>Each operation does to the queue what it should\<close>

lemma rep_init: "rep [] ([], 0) Outbox_init"
  by (simp add: rep_def Outbox_init_def)

lemma rep_empty: "rep as (xs, i) ob \<Longrightarrow> Outbox_empty ob \<longleftrightarrow> xs = []"
  by (cases as) (auto simp: rep_def Outbox_empty_def)

lemma rep_current: "rep as (xs, i) ob \<Longrightarrow> Outbox_getCurrent ob = Some (at xs i)"
  by (auto simp: rep_def Outbox_getCurrent_def Node_at_def at_def)

lemma rep_resetCurrent: "rep as (xs, i) ob \<Longrightarrow> rep as (q_resetCurrent (xs, i)) (Outbox_resetCurrent ob)"
  by (simp add: rep_def q_resetCurrent_def Outbox_resetCurrent_def)

lemma rep_next:
  "rep as (xs, i) ob \<Longrightarrow> ok (Outbox_next ob) (rep as (q_next (xs, i)))"
  by (auto simp: rep_def q_next_def Outbox_next_def Node_at_def wp at_def)

lemma rep_emplace_none:
  "Outbox_emplace None x ob = Some (\<lparr>it_node = None, it_prev = None\<rparr>, ob)"
  "Outbox_emplaceFront None x ob = Some (\<lparr>it_node = None, it_prev = None\<rparr>, ob)"
  by (simp_all add: Outbox_emplace_def Outbox_emplaceFront_def)

lemma rep_emplace:
  assumes rep: "rep as (xs, i) ob" and fresh: "a \<notin> dom (o_nodes ob)"
  shows "ok (Outbox_emplace (Some a) x ob) (\<lambda>(it, ob'). rep (as @ [a]) (q_emplace x (xs, i)) ob' \<and>
    it = \<lparr>it_node = Some a, it_prev = at as (length as - 1)\<rparr>)"
proof (cases "as = []")
  case True
  with rep show ?thesis
    by (simp add: Outbox_emplace_def wp rep_def q_emplace_def)
next
  case False
  define n where "n = length as"
  have n: "0 < n" "length as = n" using False by (simp_all add: n_def)
  have a: "a \<notin> set as" using rep fresh by (auto simp: rep_def)
  then have ne: "k < n \<Longrightarrow> as ! k \<noteq> a" for k using n by auto
  have inj: "as ! k = as ! j \<longleftrightarrow> k = j" if "k < n" "j < n" for k j
    using rep that n by (simp add: rep_def nth_eq_iff_index_eq)
  from rep have nodes: "\<And>k. k < n \<Longrightarrow> o_nodes ob (as ! k) = Some \<lparr>n_data = xs ! k, n_next = at as (Suc k)\<rparr>"
    and ptrs: "o_first ob = Some (as ! 0)" "o_last ob = Some (as ! (n - 1))" "o_current ob = at as i"
      "i \<le> n" "0 < i \<longrightarrow> o_prev ob = at as (i - 1)" "length xs = n" "dom (o_nodes ob) = set as" "distinct as"
    using n by (auto simp: rep_def)
  have last_node: "o_nodes ob (as ! (n - 1)) = Some \<lparr>n_data = xs ! (n - 1), n_next = None\<rparr>"
    using nodes [of "n - 1"] n by simp
  have at_new: "at (as @ [a]) k = (if k = n then Some a else at as k)" for k
    using at_append [of as a k] n by simp
  have cur: "o_current ob = None \<longleftrightarrow> i = n"
    using ptrs n by (auto simp: at_def)
  define ob' where "ob' = ob\<lparr>o_nodes := (o_nodes ob)(a \<mapsto> \<lparr>n_data = x, n_next = None\<rparr>,
        as ! (n - 1) \<mapsto> \<lparr>n_data = xs ! (n - 1), n_next = Some a\<rparr>),
      o_last := Some a, o_current := (if i = n then Some a else at as i)\<rparr>"
  have "Outbox_emplace (Some a) x ob = Some (\<lparr>it_node = Some a, it_prev = at as (n - 1)\<rparr>, ob')"
    using ptrs(1-3) ne [of "n - 1"] n cur last_node
    by (cases "i = n") (simp_all add: Outbox_emplace_def set_next_def ob'_def Let_def)
  moreover have "o_nodes ob' ((as @ [a]) ! k) =
      Some \<lparr>n_data = (xs @ [x]) ! k, n_next = at (as @ [a]) (Suc k)\<rparr>" if "k < Suc n" for k
  proof -
    consider "k = n" | "k = n - 1" | "k < n - 1" using \<open>k < Suc n\<close> by linarith
    then show ?thesis
    proof cases
      case 1
      then show ?thesis
        using ne [of "n - 1"] n ptrs(6) by (simp add: ob'_def nth_append at_new)
    next
      case 2
      then show ?thesis
        using n ptrs(6) by (simp add: ob'_def nth_append at_new)
    next
      case 3
      then have "k < n" "Suc k < n" "Suc k \<noteq> n" "k \<noteq> n - 1" by simp_all
      then show ?thesis
        using n ptrs(6) ne [of k] inj [of k "n - 1"] nodes [of k] by (simp add: ob'_def nth_append at_new)
    qed
  qed
  then have "rep (as @ [a]) (xs @ [x], i) ob'"
    using ptrs n a by (auto simp: rep_def ob'_def at_new nth_append insert_absorb)
  ultimately show ?thesis
    using n by (simp add: wp q_emplace_def)
qed

lemma rep_emplaceFront:
  assumes rep: "rep as (xs, i) ob" and fresh: "a \<notin> dom (o_nodes ob)"
  shows "ok (Outbox_emplaceFront (Some a) x ob) (\<lambda>(it, ob'). rep (a # as) (q_emplaceFront x (xs, i)) ob' \<and>
    it = \<lparr>it_node = Some a, it_prev = None\<rparr>)"
proof -
  define ob' where "ob' = ob\<lparr>o_nodes := (o_nodes ob)(a \<mapsto> \<lparr>n_data = x, n_next = at as 0\<rparr>),
      o_first := Some a, o_last := at (a # as) (length as), o_current := Some a, o_prev := None\<rparr>"
  have a: "a \<notin> set as" using rep fresh by (auto simp: rep_def)
  then have ne: "k < length as \<Longrightarrow> as ! k \<noteq> a" for k by auto
  have "Outbox_emplaceFront (Some a) x ob = Some (\<lparr>it_node = Some a, it_prev = None\<rparr>, ob')"
    using rep by (cases as) (simp_all add: Outbox_emplaceFront_def set_next_def ob'_def rep_def Let_def)
  moreover have "rep (a # as) (x # xs, 0) ob'"
    using rep a ne unfolding rep_def ob'_def
    by (auto simp: nth_Cons' less_Suc_eq_0_disj at_def)
  ultimately show ?thesis
    by (simp add: wp q_emplaceFront_def)
qed


lemma unlink_after:
  assumes "o_nodes ob a = Some n" and "o_nodes ob b = Some m" and "a \<noteq> b"
    and "o_first ob \<noteq> o_last ob" and "o_first ob \<noteq> Some a"
    and "o_last ob = Some a \<Longrightarrow> n_next n = None"
    and "L = (if o_last ob = Some a then Some b else o_last ob)"
    and "C = (if o_current ob = Some a then n_next n else o_current ob)"
    and "P = (if o_prev ob = Some a then Some b else o_prev ob)"
  shows "Outbox_unlink (Some b) (Some a) ob = Some \<lparr>
     o_nodes = (o_nodes ob)(b \<mapsto> m\<lparr>n_next := n_next n\<rparr>, a := None),
     o_first = o_first ob, o_last = L, o_current = C, o_prev = P\<rparr>"
  using assms
  by (cases ob; cases "o_last ob = Some a")
    (simp_all add: Outbox_unlink_def Node_at_def set_next_def Let_def)

lemma rep_unlink:
  assumes rep: "rep as (xs, i) ob" and k: "k < length as" and prev: "0 < k \<Longrightarrow> prev = at as (k - 1)"
  shows "ok (Outbox_unlink prev (at as k) ob) (rep (del k as) (q_remove k (xs, i)))"
proof -
  define n where "n = length as"
  have n: "k < n" "length as = n" using k by (simp_all add: n_def)
  have inj: "as ! l = as ! j \<longleftrightarrow> l = j" if "l < n" "j < n" for l j
    using rep that n by (simp add: rep_def nth_eq_iff_index_eq)
  from rep have nodes: "\<And>k. k < n \<Longrightarrow> o_nodes ob (as ! k) = Some \<lparr>n_data = xs ! k, n_next = at as (Suc k)\<rparr>"
    and ptrs: "o_first ob = Some (as ! 0)" "o_last ob = Some (as ! (n - 1))" "o_current ob = at as i"
      "i \<le> n" "0 < i \<longrightarrow> o_prev ob = at as (i - 1)" "length xs = n" "dom (o_nodes ob) = set as" "distinct as"
    using n by (auto simp: rep_def)
  obtain h f l c pr where ob: "ob = \<lparr>o_nodes = h, o_first = f, o_last = l, o_current = c, o_prev = pr\<rparr>"
    by (cases ob)
  let ?a = "as ! k"
  define i' where "i' = (if k < i then i - 1 else i)"
  define heap where "heap = (if k = 0 then o_nodes ob else (o_nodes ob)(as ! (k - 1) \<mapsto>
      \<lparr>n_data = xs ! (k - 1), n_next = at as (Suc k)\<rparr>))(?a := None)"
  define p' where "p' = (if o_prev ob = Some ?a then prev else o_prev ob)"
  define F where "F = at (del k as) 0"
  define L where "L = at (del k as) (n - 2)"
  define C where "C = at (del k as) i'"
  define ob' where "ob' = ob\<lparr>o_nodes := heap, o_first := F, o_last := L, o_current := C, o_prev := p'\<rparr>"
  have cur: "C = (if at as i = Some ?a then at as (Suc k) else at as i)"
    using n ptrs(4) inj [of i k] by (cases "i < n") (auto simp: i'_def at_del nth_del at_def C_def)
  have first_last: "o_first ob = o_last ob \<longleftrightarrow> n = 1"
    using inj [of 0 "n - 1"] n by (auto simp: ptrs)
  have first: "o_first ob = Some ?a \<longleftrightarrow> k = 0"
    using inj [of 0 k] n by (auto simp: ptrs)
  have last: "o_last ob = Some ?a \<longleftrightarrow> k = n - 1"
    using inj [of "n - 1" k] n by (auto simp: ptrs)
  have new_first: "F = (if k = 0 then at as (Suc 0) else Some (as ! 0))"
    using n by (auto simp: F_def at_del nth_del at_def)
  have new_last: "L = (if n = 1 then None else if k = n - 1 then Some (as ! (k - 1)) else Some (as ! (n - 1)))"
  proof -
    have "n \<noteq> 1 \<Longrightarrow> Suc (n - 2) = n - 1" and "n \<noteq> 1 \<Longrightarrow> k = n - 1 \<Longrightarrow> n - 2 = k - 1"
      using n by simp_all
    moreover have "n = 1 \<Longrightarrow> L = None" and "n \<noteq> 1 \<Longrightarrow> L = at as (if n - 2 < k then n - 2 else Suc (n - 2))"
      using n at_del [of k as "n - 2"] by (simp_all add: L_def del_def)
    ultimately show ?thesis
      using n by auto
  qed
  have "Outbox_unlink prev (Some ?a) ob = Some ob'"
  proof (cases "k = 0")
    case True
    then show ?thesis
      using first_last first ptrs(2,3) cur nodes [of k] n new_first new_last
      by (cases "n = 1") (simp_all add: ob Outbox_unlink_def Node_at_def ob'_def heap_def p'_def Let_def)
  next
    case False
    then have prev_eq: "prev = Some (as ! (k - 1))"
      and pk: "o_nodes ob (as ! (k - 1)) = Some \<lparr>n_data = xs ! (k - 1), n_next = Some ?a\<rparr>"
      and n1: "n \<noteq> 1" and ne: "?a \<noteq> as ! (k - 1)"
      using prev nodes [of "k - 1"] n inj [of k "k - 1"] by auto
    have fl: "o_first ob \<noteq> o_last ob" "o_first ob \<noteq> Some ?a"
      using first_last first n1 False by simp_all
    have tail: "at as (Suc k) = None" if "o_last ob = Some ?a"
      using that last n by simp
    have F: "F = o_first ob"
      using new_first False ptrs(1) by simp
    have L: "L = (if o_last ob = Some ?a then Some (as ! (k - 1)) else o_last ob)"
      using new_last last n1 ptrs(2) by auto
    have C: "C = (if o_current ob = Some ?a then at as (Suc k) else o_current ob)"
      unfolding ptrs(3) cur ..
    have P: "p' = (if o_prev ob = Some ?a then Some (as ! (k - 1)) else o_prev ob)"
      by (simp only: p'_def prev_eq)
    have "ob' = \<lparr>o_nodes = heap, o_first = o_first ob, o_last = L, o_current = C, o_prev = p'\<rparr>"
      using F by (simp add: ob'_def ob)
    moreover have "heap = (o_nodes ob)(as ! (k - 1) \<mapsto> \<lparr>n_data = xs ! (k - 1), n_next = at as (Suc k)\<rparr>, ?a := None)"
      using False by (simp add: heap_def)
    ultimately show ?thesis
      unfolding prev_eq
      using unlink_after [OF nodes [OF n(1)] pk ne fl, of L C p'] tail L C P by simp
  qed
  moreover have "rep (del k as) (del k xs, i') ob'"
  proof -
    have nodes': "o_nodes ob' = heap" by (simp add: ob'_def)
    have "o_nodes ob' (del k as ! j) = Some \<lparr>n_data = del k xs ! j, n_next = at (del k as) (Suc j)\<rparr>"
      if "j < n - 1" for j
    proof (cases "j < k")
      case True
      then have j: "del k as ! j = as ! j" "del k xs ! j = xs ! j" "as ! j \<noteq> ?a"
        using n ptrs(6) nth_del [of k as j] nth_del [of k xs j] inj [of j k] by simp_all
      show ?thesis
      proof (cases "Suc j = k")
        case kj: True
        then have "k - 1 = j" "k \<noteq> 0" by auto
        moreover have "at (del k as) (Suc j) = at as (Suc k)"
          using kj n at_del [of k as "Suc j"] by (simp only: if_False less_irrefl)
        ultimately show ?thesis
          using j by (simp only: nodes' heap_def fun_upd_apply if_False if_True refl)
      next
        case False
        then have "as ! j \<noteq> as ! (k - 1)"
          using True n inj [of j "k - 1"] by simp
        moreover have "at (del k as) (Suc j) = at as (Suc j)"
          using False True n at_del [of k as "Suc j"] by simp
        ultimately show ?thesis
          using True j n nodes [of j] by (simp add: nodes' heap_def)
      qed
    next
      case False
      have sj: "Suc j < n" using that by simp
      have j: "del k as ! j = as ! Suc j" "del k xs ! j = xs ! Suc j"
        using False that n ptrs(6) nth_del [of k as j] nth_del [of k xs j] by simp_all
      have ne: "as ! Suc j \<noteq> ?a" "as ! Suc j \<noteq> as ! (k - 1)"
        using False sj n inj [of "Suc j" k] inj [of "Suc j" "k - 1"] by simp_all
      have next_eq: "at (del k as) (Suc j) = at as (Suc (Suc j))"
        using False n at_del [of k as "Suc j"] by simp
      show ?thesis
        unfolding j next_eq using ne nodes [OF sj] by (simp add: nodes' heap_def)
    qed
    moreover have "dom heap = set (del k as)"
      using n ptrs(7,8) set_del [OF ptrs(8)] by (auto simp: heap_def)
    moreover have "p' = at (del k as) (i' - 1)" if "0 < i'"
      using that n ptrs(4,5) prev inj [of "i - 1" k]
      by (cases "k < i"; cases "i - 1 = k") (auto simp: p'_def i'_def at_del nth_del Suc_diff_Suc)
    ultimately show ?thesis
      using n ptrs distinct_del [OF ptrs(8)]
      by (simp add: rep_def ob'_def F_def L_def C_def numeral_2_eq_2) (auto simp: i'_def)
  qed
  ultimately show ?thesis
    using n ptrs(6) by (simp add: wp q_remove_def i'_def)
qed


lemma rep_removeCurrent:
  assumes rep: "rep as (xs, i) ob"
  shows "ok (Outbox_removeCurrent ob) (\<lambda>ob'. \<exists>as'. rep as' (q_removeCurrent (xs, i)) ob')"
proof (cases "i < length as")
  case True
  have ptrs: "o_current ob = at as i" "0 < i \<Longrightarrow> o_prev ob = at as (i - 1)"
    using rep by (auto simp: rep_def)
  from rep_unlink [OF rep True ptrs(2)] show ?thesis
    unfolding Outbox_removeCurrent_def ptrs(1) q_removeCurrent_def
    by (rule ok_mono) auto
next
  case False
  then have "o_current ob = None" and "i = length xs"
    using rep by (auto simp: rep_def)
  with rep show ?thesis
    by (auto simp: Outbox_removeCurrent_def Outbox_unlink_def wp q_removeCurrent_def q_remove_def)
qed

subsection \<open>Iterators point at positions\<close>

definition it_at :: "nat list \<Rightarrow> nat \<Rightarrow> Iterator \<Rightarrow> bool" where
  "it_at as k it \<longleftrightarrow> k \<le> length as \<and> it_node it = at as k \<and> (0 < k \<longrightarrow> it_prev it = at as (k - 1))"

lemma it_front: "rep as (xs, i) ob \<Longrightarrow> it_at as 0 (Outbox_front ob)"
  by (simp add: it_at_def Outbox_front_def rep_def)

lemma it_bool: "it_at as k it \<Longrightarrow> Iterator_bool it \<longleftrightarrow> k < length as"
  by (auto simp: it_at_def Iterator_bool_def at_def)

lemma it_next:
  "rep as (xs, i) ob \<Longrightarrow> it_at as k it \<Longrightarrow>
     ok (Iterator_next ob it) (it_at as (if k < length as then Suc k else k))"
  by (auto simp: rep_def it_at_def Iterator_next_def Node_at_def wp at_def)

lemma it_get: "rep as (xs, i) ob \<Longrightarrow> it_at as k it \<Longrightarrow> Iterator_get ob it = Some (at xs k)"
  by (auto simp: rep_def it_at_def Iterator_get_def Node_at_def at_def)

lemma it_remove:
  assumes rep: "rep as (xs, i) ob" and it: "it_at as k it" and k: "k < length as"
  shows "ok (Outbox_remove it ob) (\<lambda>(it', ob'). rep (del k as) (q_remove k (xs, i)) ob' \<and> it_at (del k as) k it')"
proof -
  have node: "it_node it = Some (as ! k)" "it_node it = at as k" and prev: "0 < k \<Longrightarrow> it_prev it = at as (k - 1)"
    using it k by (auto simp: it_at_def)
  have at_k: "Node_at (Some (as ! k)) ob = Some \<lparr>n_data = xs ! k, n_next = at as (Suc k)\<rparr>"
    using rep k by (simp add: rep_def Node_at_def)
  have b: "Iterator_bool it" using it_bool [OF it] k by simp
  obtain ob' where "Outbox_unlink (it_prev it) (at as k) ob = Some ob'" "rep (del k as) (q_remove k (xs, i)) ob'"
    using rep_unlink [OF rep k prev] by (auto simp: ok_def)
  moreover have "it_at (del k as) k \<lparr>it_node = at as (Suc k), it_prev = it_prev it\<rparr>"
    using k prev by (auto simp: it_at_def at_del nth_del)
  ultimately show ?thesis
    using b at_k node by (simp add: Outbox_remove_def wp)
qed

lemma rep_write:
  assumes rep: "rep as (xs, i) ob" and k: "k < length as"
  shows "ok (Outbox_write (at as k) f ob) (rep as (xs[k := f (xs ! k)], i))"
proof -
  have "o_nodes ob (as ! k) = Some \<lparr>n_data = xs ! k, n_next = at as (Suc k)\<rparr>"
    using rep k by (simp add: rep_def)
  moreover have "as ! j = as ! k \<longleftrightarrow> j = k" if "j < length as" for j
    using rep k that by (simp add: rep_def nth_eq_iff_index_eq)
  ultimately show ?thesis
    using rep k by (auto simp: Outbox_write_def Node_at_def wp rep_def nth_list_update insert_absorb)
qed

subsection \<open>The loops end\<close>

lemma count_from:
  "rep as (xs, i) ob \<Longrightarrow> k \<le> length as \<Longrightarrow> Outbox_count (at as k) c ob = Some (c + (length as - k))"
proof (induction "length as - k" arbitrary: k c)
  case 0
  then show ?case by (subst Outbox_count.simps) simp
next
  case (Suc m)
  then have k: "k < length as" by simp
  have "Node_at (Some (as ! k)) ob = Some \<lparr>n_data = xs ! k, n_next = at as (Suc k)\<rparr>"
    using Suc.prems k by (simp add: rep_def Node_at_def)
  with Suc.hyps(1) [of "Suc k" "c + 1"] Suc.hyps(2) Suc.prems k show ?case
    by (subst Outbox_count.simps) simp
qed

lemma rep_size: "rep as (xs, i) ob \<Longrightarrow> Outbox_size ob = Some (length xs)"
  using count_from [of as xs i ob 0 0] by (simp add: Outbox_size_def rep_def)

text \<open>The destructor frees every node.\<close>

lemma destroy_all:
  "distinct as \<Longrightarrow> dom (o_nodes ob) = set as \<Longrightarrow> o_first ob = at as 0 \<Longrightarrow>
   \<forall>k < length as. \<exists>d. o_nodes ob (as ! k) = Some \<lparr>n_data = d, n_next = at as (Suc k)\<rparr> \<Longrightarrow>
   ok (Outbox_destroy ob) (\<lambda>ob'. o_nodes ob' = Map.empty \<and> o_first ob' = None)"
proof (induction as arbitrary: ob)
  case Nil
  then show ?case by (subst Outbox_destroy.simps) (simp add: wp)
next
  case (Cons a as)
  obtain d where d: "o_nodes ob a = Some \<lparr>n_data = d, n_next = at as 0\<rparr>"
    using Cons.prems(4) by force
  let ?ob = "ob\<lparr>o_nodes := (o_nodes ob)(a := None), o_first := at as 0\<rparr>"
  have nodes: "\<exists>d. o_nodes ?ob (as ! k) = Some \<lparr>n_data = d, n_next = at as (Suc k)\<rparr>" if "k < length as" for k
  proof -
    have "as ! k \<noteq> a" using Cons.prems(1) that by auto
    with Cons.prems(4) that show ?thesis by force
  qed
  have dom: "dom (o_nodes ?ob) = set as"
    using Cons.prems(1,2) by auto
  have "ok (Outbox_destroy ?ob) (\<lambda>ob'. o_nodes ob' = Map.empty \<and> o_first ob' = None)"
    by (rule Cons.IH [OF _ dom]) (use Cons.prems(1) nodes in auto)
  then show ?case
    using Cons.prems(3) d by (subst Outbox_destroy.simps) (simp add: wp Node_at_def)
qed

lemma rep_destroy:
  "rep as (xs, i) ob \<Longrightarrow> ok (Outbox_destroy ob) (\<lambda>ob'. o_nodes ob' = Map.empty \<and> o_first ob' = None)"
  by (rule destroy_all [of as]) (auto simp: rep_def)


subsection \<open>Programs over the outbox\<close>

text \<open>
  The operations a client performs; an address comes with each for the node it may have to
  allocate. \<open>RemoveAt k\<close> and \<open>WriteAt k f\<close> reach their packet with an iterator, from the front.
\<close>

datatype 'a qop =
    Emplace 'a
  | EmplaceFront 'a
  | RemoveCurrent
  | Next
  | ResetCurrent
  | RemoveAt nat
  | WriteAt nat "'a \<Rightarrow> 'a"

fun Outbox_walk :: "nat \<Rightarrow> 'a Outbox \<Rightarrow> Iterator \<Rightarrow> Iterator option" where
  "Outbox_walk 0 ob it = Some it"
| "Outbox_walk (Suc k) ob it = do { it \<leftarrow> Iterator_next ob it; Outbox_walk k ob it }"

fun Outbox_op :: "ptr \<Rightarrow> 'a qop \<Rightarrow> 'a Outbox \<Rightarrow> 'a Outbox option" where
  "Outbox_op p (Emplace x) ob = map_option snd (Outbox_emplace p x ob)"
| "Outbox_op p (EmplaceFront x) ob = map_option snd (Outbox_emplaceFront p x ob)"
| "Outbox_op p RemoveCurrent ob = Outbox_removeCurrent ob"
| "Outbox_op p Next ob = Outbox_next ob"
| "Outbox_op p ResetCurrent ob = Some (Outbox_resetCurrent ob)"
| "Outbox_op p (RemoveAt k) ob = do {
     it \<leftarrow> Outbox_walk k ob (Outbox_front ob);
     (it, ob) \<leftarrow> Outbox_remove it ob;
     Some ob
   }"
| "Outbox_op p (WriteAt k f) ob = do {
     it \<leftarrow> Outbox_walk k ob (Outbox_front ob);
     if Iterator_bool it then Outbox_write (it_node it) f ob else Some ob
   }"

fun q_op :: "bool \<Rightarrow> 'a qop \<Rightarrow> 'a queue \<Rightarrow> 'a queue" where
  "q_op allocated (Emplace x) q = (if allocated then q_emplace x q else q)"
| "q_op allocated (EmplaceFront x) q = (if allocated then q_emplaceFront x q else q)"
| "q_op allocated RemoveCurrent q = q_removeCurrent q"
| "q_op allocated Next q = q_next q"
| "q_op allocated ResetCurrent q = q_resetCurrent q"
| "q_op allocated (RemoveAt k) q = q_remove k q"
| "q_op allocated (WriteAt k f) q = q_write k f q"

text \<open>
  What a client of the queue relies on, whatever the representation: a step behaves like the
  abstract one if the address it may use is not one in use.
\<close>

locale cursor_queue =
  fixes models :: "'q \<Rightarrow> 'a queue \<Rightarrow> bool"
    and new :: 'q
    and step :: "ptr \<Rightarrow> 'a qop \<Rightarrow> 'q \<Rightarrow> 'q option"
    and used :: "'q \<Rightarrow> nat set"
    and current :: "'q \<Rightarrow> 'a option option"
    and count :: "'q \<Rightarrow> nat option"
  assumes models_new: "models new ([], 0)"
    and models_step: "models s q \<Longrightarrow> (\<And>a. p = Some a \<Longrightarrow> a \<notin> used s) \<Longrightarrow>
      \<exists>s'. step p op s = Some s' \<and> models s' (q_op (p \<noteq> None) op q)"
    and models_current: "models s q \<Longrightarrow> current s = Some (q_current q)"
    and models_count: "models s q \<Longrightarrow> count s = Some (length (fst q))"
begin

primrec run :: "(ptr \<times> 'a qop) list \<Rightarrow> 'q \<Rightarrow> 'q option" where
  "run [] s = Some s"
| "run (c # cs) s = Option.bind (step (fst c) (snd c) s) (run cs)"

primrec fresh :: "(ptr \<times> 'a qop) list \<Rightarrow> 'q \<Rightarrow> bool" where
  "fresh [] s = True"
| "fresh (c # cs) s = ((\<forall>a. fst c = Some a \<longrightarrow> a \<notin> used s) \<and>
     (\<forall>s'. step (fst c) (snd c) s = Some s' \<longrightarrow> fresh cs s'))"

lemma run_models:
  "models s q \<Longrightarrow> fresh cs s \<Longrightarrow>
     \<exists>s'. run cs s = Some s' \<and> models s' (fold (\<lambda>(p, op). q_op (p \<noteq> None) op) cs q)"
proof (induction cs arbitrary: s q)
  case Nil
  then show ?case by simp
next
  case (Cons c cs)
  obtain p op where c: "c = (p, op)" by (cases c)
  from models_step [OF Cons.prems(1), of p op] Cons.prems(2) c obtain s' where
    "step p op s = Some s'" "models s' (q_op (p \<noteq> None) op q)" by auto
  with Cons.IH [of s'] Cons.prems(2) c show ?case by auto
qed

lemma run_observed:
  assumes "fresh cs new"
  shows "\<exists>s. run cs new = Some s \<and>
    current s = Some (q_current (fold (\<lambda>(p, op). q_op (p \<noteq> None) op) cs ([], 0))) \<and>
    count s = Some (length (fst (fold (\<lambda>(p, op). q_op (p \<noteq> None) op) cs ([], 0))))"
  using run_models [OF models_new assms] models_current models_count by blast

end

subsection \<open>The outbox is such a queue\<close>

definition Outbox_models :: "'a Outbox \<Rightarrow> 'a queue \<Rightarrow> bool" where
  "Outbox_models ob q \<longleftrightarrow> (\<exists>as. rep as q ob)"

lemma walk_at:
  "rep as (xs, i) ob \<Longrightarrow> it_at as j it \<Longrightarrow>
     ok (Outbox_walk k ob it) (\<lambda>it'. it_at as (min (j + k) (length as)) it')"
proof (induction k arbitrary: j it)
  case 0
  then show ?case by (auto simp: wp it_at_def min_def)
next
  case (Suc k)
  from it_next [OF Suc.prems] obtain it' where it': "Iterator_next ob it = Some it'"
    "it_at as (if j < length as then Suc j else j) it'"
    by (auto simp: ok_def)
  have "j \<le> length as" using Suc.prems(2) by (simp add: it_at_def)
  then have "min ((if j < length as then Suc j else j) + k) (length as) = min (j + Suc k) (length as)"
    by auto
  with Suc.IH [OF Suc.prems(1) it'(2)] it'(1) show ?case
    by (simp add: wp)
qed

lemma Outbox_op_models:
  assumes "Outbox_models ob q" and fresh: "\<And>a. p = Some a \<Longrightarrow> a \<notin> dom (o_nodes ob)"
  shows "\<exists>ob'. Outbox_op p op ob = Some ob' \<and> Outbox_models ob' (q_op (p \<noteq> None) op q)"
proof -
  obtain xs i where q: "q = (xs, i)" by (cases q)
  with assms(1) obtain as where rep: "rep as (xs, i) ob" by (auto simp: Outbox_models_def)
  have len: "length xs = length as" using rep by (simp add: rep_def)
  have walk: "\<exists>it. Outbox_walk k ob (Outbox_front ob) = Some it \<and> it_at as (min k (length as)) it" for k
    using walk_at [OF rep it_front [OF rep], of k] by (auto simp: ok_def)
  show ?thesis
  proof (cases op)
    case (Emplace x)
    show ?thesis
    proof (cases p)
      case None
      with Emplace rep q show ?thesis by (auto simp: rep_emplace_none Outbox_models_def)
    next
      case (Some a)
      with rep_emplace [OF rep, of a x] fresh Emplace q show ?thesis
        by (auto simp: ok_def Outbox_models_def)
    qed
  next
    case (EmplaceFront x)
    show ?thesis
    proof (cases p)
      case None
      with EmplaceFront rep q show ?thesis by (auto simp: rep_emplace_none Outbox_models_def)
    next
      case (Some a)
      with rep_emplaceFront [OF rep, of a x] fresh EmplaceFront q show ?thesis
        by (auto simp: ok_def Outbox_models_def)
    qed
  next
    case RemoveCurrent
    with rep_removeCurrent [OF rep] q show ?thesis by (auto simp: ok_def Outbox_models_def)
  next
    case Next
    with rep_next [OF rep] q show ?thesis by (auto simp: ok_def Outbox_models_def)
  next
    case ResetCurrent
    with rep_resetCurrent [OF rep] q show ?thesis by (auto simp: Outbox_models_def)
  next
    case (RemoveAt k)
    from walk obtain it where it: "Outbox_walk k ob (Outbox_front ob) = Some it"
      "it_at as (min k (length as)) it" by blast
    show ?thesis
    proof (cases "k < length as")
      case True
      with it_remove [OF rep _ True, of it] it RemoveAt q show ?thesis
        by (auto simp: ok_def Outbox_models_def)
    next
      case False
      then have "\<not> Iterator_bool it" using it_bool [OF it(2)] by simp
      with False it(1) RemoveAt q rep len show ?thesis
        by (auto simp: Outbox_remove_def q_remove_def Outbox_models_def)
    qed
  next
    case (WriteAt k f)
    from walk obtain it where it: "Outbox_walk k ob (Outbox_front ob) = Some it"
      "it_at as (min k (length as)) it" by blast
    show ?thesis
    proof (cases "k < length as")
      case True
      then have "Iterator_bool it" "it_node it = at as k"
        using it_bool [OF it(2)] it(2) by (simp_all add: it_at_def)
      with rep_write [OF rep True, of f] it True WriteAt q len show ?thesis
        by (auto simp: ok_def Outbox_models_def q_write_def)
    next
      case False
      then have "\<not> Iterator_bool it" using it_bool [OF it(2)] by simp
      with False it(1) WriteAt q rep len show ?thesis
        by (auto simp: Outbox_models_def q_write_def)
    qed
  qed
qed

interpretation outbox: cursor_queue Outbox_models Outbox_init Outbox_op "\<lambda>ob. dom (o_nodes ob)"
    Outbox_getCurrent Outbox_size
proof (unfold_locales, goal_cases)
  case 1
  show ?case using rep_init by (auto simp: Outbox_models_def)
next
  case 2
  then show ?case by (rule Outbox_op_models)
next
  case (3 s q)
  then show ?case using rep_current by (cases q) (auto simp: Outbox_models_def q_current_def)
next
  case (4 s q)
  then show ?case using rep_size by (cases q) (auto simp: Outbox_models_def)
qed


text \<open>The programs and their freshness condition, for the outbox itself.\<close>

fun Outbox_run :: "(ptr \<times> 'a qop) list \<Rightarrow> 'a Outbox \<Rightarrow> 'a Outbox option" where
  "Outbox_run [] ob = Some ob"
| "Outbox_run ((p, op) # cs) ob = do { ob \<leftarrow> Outbox_op p op ob; Outbox_run cs ob }"

fun fresh_addresses :: "(ptr \<times> 'a qop) list \<Rightarrow> 'a Outbox \<Rightarrow> bool" where
  "fresh_addresses [] ob = True"
| "fresh_addresses ((p, op) # cs) ob =
     ((case p of None \<Rightarrow> True | Some a \<Rightarrow> o_nodes ob a = None) \<and>
      (case Outbox_op p op ob of None \<Rightarrow> True | Some ob' \<Rightarrow> fresh_addresses cs ob'))"

lemma outbox_run_eq: "outbox.run cs ob = Outbox_run cs ob"
proof (induction cs ob rule: Outbox_run.induct)
  case (2 p op cs ob)
  then show ?case by (cases "Outbox_op p op ob") simp_all
qed simp

lemma outbox_fresh: "fresh_addresses cs ob \<Longrightarrow> outbox.fresh cs ob"
  by (induction cs ob rule: fresh_addresses.induct) (auto split: option.splits)

subsection \<open>Correctness\<close>

text \<open>C17: Whatever sequence of operations runs on a new outbox, with nodes allocated at addresses
  that are not in use or allocations that fail, no pointer to no node is ever dereferenced, and
  the current item and the size are those of the list with a cursor the outbox stands for. So the
  stale \<open>_prev\<close> that \<open>resetCurrent\<close> leaves is harmless.\<close>

theorem outbox_refines_queue:
  assumes "fresh_addresses cs Outbox_init"
  shows "\<exists>ob. Outbox_run cs Outbox_init = Some ob \<and>
    Outbox_getCurrent ob = Some (q_current (fold (\<lambda>(p, op). q_op (p \<noteq> None) op) cs ([], 0))) \<and>
    Outbox_size ob = Some (length (fst (fold (\<lambda>(p, op). q_op (p \<noteq> None) op) cs ([], 0))))"
  using outbox.run_observed [OF outbox_fresh [OF assms]] by (simp add: outbox_run_eq)

theorem outbox_refines_queue_witness:
  "\<exists>ob. Outbox_run [(Some 1, Emplace ''a''), (Some 2, Emplace ''b''), (None, Next), (None, ResetCurrent),
      (None, RemoveCurrent), (Some 1, EmplaceFront ''c''), (None, RemoveAt 1)] Outbox_init = Some ob \<and>
    Outbox_getCurrent ob = Some (Some ''c'') \<and> Outbox_size ob = Some 1"
proof -
  let ?cs = "[(Some 1, Emplace ''a''), (Some 2, Emplace ''b''), (None, Next), (None, ResetCurrent),
      (None, RemoveCurrent), (Some 1, EmplaceFront ''c''), (None, RemoveAt 1)]"
  have "fresh_addresses ?cs Outbox_init"
    by (simp add: Outbox_init_def Outbox_emplace_def set_next_def Outbox_next_def Node_at_def
        Outbox_resetCurrent_def Outbox_removeCurrent_def Outbox_unlink_def Outbox_emplaceFront_def
        Outbox_front_def Iterator_next_def Outbox_remove_def Iterator_bool_def numeral_eq_Suc
        split: option.splits)
  from outbox_refines_queue [OF this] show ?thesis
    by (simp add: q_emplace_def q_next_def q_resetCurrent_def q_removeCurrent_def q_remove_def
        q_emplaceFront_def q_current_def del_def)
qed

text \<open>Walking the outbox with an iterator visits its items in order, and removing through the
  iterator takes out exactly that item, leaves the iterator at the next one and the cursor at the
  packet it was at (or at the next one if that was removed). Destroying the outbox frees every
  node.\<close>

lemma outbox_iteration:
  assumes "rep as (xs, i) ob" and "k < length xs"
  shows "\<exists>it. Outbox_walk k ob (Outbox_front ob) = Some it \<and> Iterator_get ob it = Some (Some (xs ! k)) \<and>
    (\<exists>it' ob'. Outbox_remove it ob = Some (it', ob') \<and>
       rep (del k as) (del k xs, if k < i then i - 1 else i) ob' \<and>
       Iterator_get ob' it' = Some (at xs (Suc k)) \<and>
       ok (Outbox_destroy ob') (\<lambda>ob''. o_nodes ob'' = Map.empty))"
proof -
  have k: "k < length as" using assms by (simp add: rep_def)
  obtain it where it: "Outbox_walk k ob (Outbox_front ob) = Some it" "it_at as k it"
    using walk_at [OF assms(1) it_front [OF assms(1)], of k] k by (auto simp: ok_def min_def)
  obtain it' ob' where rm: "Outbox_remove it ob = Some (it', ob')"
    "rep (del k as) (q_remove k (xs, i)) ob'" "it_at (del k as) k it'"
    using it_remove [OF assms(1) it(2) k] by (auto simp: ok_def)
  have rep': "rep (del k as) (del k xs, if k < i then i - 1 else i) ob'"
    using rm(2) assms(2) by (simp add: q_remove_def)
  have "Iterator_get ob it = Some (Some (xs ! k))"
    using it_get [OF assms(1) it(2)] assms(2) by simp
  moreover have "Iterator_get ob' it' = Some (at xs (Suc k))"
    using it_get [OF rep' rm(3)] assms(2) by (simp add: at_del)
  moreover have "ok (Outbox_destroy ob') (\<lambda>ob''. o_nodes ob'' = Map.empty)"
    using rep_destroy [OF rep'] by (auto simp: ok_def)
  ultimately show ?thesis
    using it(1) rm(1) rep' by blast
qed

end
