(* ===== verification/MqttClient.thy ===== *)
theory MqttClient
  imports PacketSource Parser Outbox
begin

text \<open>
  \<open>src/src/MqttClient.h\<close> and \<open>src/src/MqttClient.cpp\<close>: the client. The record \<open>Client\<close> holds the
  members of the class, \<open>Config\<close> those that \<open>MqttClientSetup\<close> sets. What lies outside the class, the
  transport, the clock and the memory, is the parameter \<open>Env\<close>: functions that answer a call and
  move on a world \<open>'w\<close> that the client carries along.

  The outbox is the list with a cursor that \<open>Outbox.thy\<close> shows the linked list to be; an iterator is
  a position in it. A callback is recorded as an event, in the order they are called, and then runs:
  it is user code, the parameter \<open>e_react\<close>, and may call the client again. The semaphore that keeps
  other threads out is part of the state; to take it when it is taken is \<open>None\<close>, since such a call
  never returns, and so is to give it back when it is not.
\<close>

subsection \<open>State\<close>

datatype State =
    disconnected
  | connectingTcp1
  | connectingTcp2
  | connectingMqtt
  | connected
  | disconnectingMqtt1
  | disconnectingMqtt2
  | disconnectingTcp1
  | disconnectingTcp2

fun State_value :: "State \<Rightarrow> nat" where
  "State_value disconnected = 0"
| "State_value connectingTcp1 = 1"
| "State_value connectingTcp2 = 2"
| "State_value connectingMqtt = 3"
| "State_value connected = 4"
| "State_value disconnectingMqtt1 = 5"
| "State_value disconnectingMqtt2 = 6"
| "State_value disconnectingTcp1 = 7"
| "State_value disconnectingTcp2 = 8"

record OutgoingPacket =
  op_timeSent :: u32
  op_packet :: Packet

text \<open>The callbacks of the user, with the arguments they are called with.\<close>

record MessageProperties =
  mp_qos :: u8
  mp_dup :: bool
  mp_retain :: bool
  mp_packetId :: u16

datatype Event =
    OnConnect bool
  | OnDisconnect DisconnectReason
  | OnSubscribe u16 "u8 list"
  | OnUnsubscribe u16
  | OnMessage MessageProperties cstring "u8 list" size_t size_t size_t
  | OnPublish u16
  | OnError u16 Error

record Config =
  g_onConnectCallback :: bool
  g_onDisconnectCallback :: bool
  g_onSubscribeCallback :: bool
  g_onUnsubscribeCallback :: bool
  g_onMessageCallback :: bool
  g_onPublishCallback :: bool
  g_onErrorCallback :: bool
  g_clientId :: "cstring option"
  g_ip :: u32
  g_host :: "cstring option"
  g_port :: u16
  g_useIp :: bool
  g_keepAlive :: u32
  g_cleanSession :: bool
  g_username :: "cstring option"
  g_password :: "cstring option"
  g_willTopic :: "cstring option"
  g_willPayload :: "u8 list option"
  g_willPayloadLength :: u16
  g_willQos :: u8
  g_willRetain :: bool
  g_timeout :: u32

record 'w Client =
  c_config :: Config
  c_state :: State
  c_packetId :: u16
  c_outbox :: "OutgoingPacket queue"
  c_bytesSent :: size_t
  c_parser :: Parser
  c_lastClientActivity :: u32
  c_lastServerActivity :: u32
  c_pingSent :: bool
  c_disconnectReason :: DisconnectReason
  c_taken :: bool
  c_events :: "Event list"
  c_world :: 'w

text \<open>
  The transport (\<open>src/src/Transport/Transport.h\<close>), the clock, and an allocation: whether a node of the
  outbox can be allocated, and the memory its packet is then built in. \<open>read\<close> answers with its
  return value and the contents of the receive buffer. \<open>e_clock\<close> is the value of \<open>millis()\<close>, and
  \<open>e_wideClock\<close> says whether it is of type \<open>int64_t\<close>, as in the macro for Linux in
  \<open>src/src/Helpers.h\<close>, or an \<open>uint32_t\<close>, as in the Arduino core. \<open>e_react\<close> is what the user's callbacks, and the
  threads that get the semaphore meanwhile, do to the client. The last two fields are the build
  flags \<open>EMC_WAIT_FOR_CONNACK\<close> and \<open>EMC_ALLOW_NOT_CONNECTED_PUBLISH\<close>.
\<close>

record 'w Env =
  e_connectIp :: "u32 \<Rightarrow> u16 \<Rightarrow> 'w \<Rightarrow> bool \<times> 'w"
  e_connectHost :: "cstring option \<Rightarrow> u16 \<Rightarrow> 'w \<Rightarrow> bool \<times> 'w"
  e_write :: "u8 list \<Rightarrow> 'w \<Rightarrow> size_t \<times> 'w"
  e_read :: "size_t \<Rightarrow> 'w \<Rightarrow> (u32 \<times> u8 list) \<times> 'w"
  e_stop :: "'w \<Rightarrow> 'w"
  e_connected :: "'w \<Rightarrow> bool \<times> 'w"
  e_disconnected :: "'w \<Rightarrow> bool \<times> 'w"
  e_clock :: "'w \<Rightarrow> int \<times> 'w"
  e_wideClock :: bool
  e_alloc :: "'w \<Rightarrow> (bool \<times> Memory) \<times> 'w"
  e_react :: "Event \<Rightarrow> 'w Client \<Rightarrow> 'w Client option"
  e_waitForConnack :: bool
  e_allowNotConnectedPublish :: bool

text \<open>The value of \<open>millis()\<close> where the code assigns it to a variable of type \<open>uint32_t\<close>.\<close>

definition e_millis :: "'w Env \<Rightarrow> 'w \<Rightarrow> u32 \<times> 'w" where
  "e_millis env w = (case e_clock env w of (now, w) \<Rightarrow> (word_of_int now, w))"

lemma fst_millis: "fst (e_millis env w) = word_of_int (fst (e_clock env w))"
  and snd_millis [simp]: "snd (e_millis env w) = snd (e_clock env w)"
  by (simp_all add: e_millis_def case_prod_beta)

definition Config_init :: "cstring \<Rightarrow> Config" where
  "Config_init generatedClientId =
     \<lparr>g_onConnectCallback = False, g_onDisconnectCallback = False, g_onSubscribeCallback = False,
      g_onUnsubscribeCallback = False, g_onMessageCallback = False, g_onPublishCallback = False,
      g_onErrorCallback = False, g_clientId = Some generatedClientId, g_ip = 0, g_host = None,
      g_port = 1883, g_useIp = False, g_keepAlive = 15000, g_cleanSession = True, g_username = None,
      g_password = None, g_willTopic = None, g_willPayload = None, g_willPayloadLength = 0,
      g_willQos = 0, g_willRetain = False, g_timeout = EMC_TX_TIMEOUT\<rparr>"

definition MqttClient_init :: "cstring \<Rightarrow> 'w \<Rightarrow> 'w Client" where
  "MqttClient_init generatedClientId world =
     \<lparr>c_config = Config_init generatedClientId, c_state = disconnected, c_packetId = 0,
      c_outbox = ([], 0), c_bytesSent = 0, c_parser = Parser_init, c_lastClientActivity = 0,
      c_lastServerActivity = 0, c_pingSent = False, c_disconnectReason = TCP_DISCONNECTED,
      c_taken = False, c_events = [], c_world = world\<rparr>"

text \<open>The semaphore (\<open>EMC_SEMAPHORE_TAKE\<close> and \<open>EMC_SEMAPHORE_GIVE\<close> of \<open>src/src/Helpers.h\<close>).\<close>

definition semaphore_take :: "'w Client \<Rightarrow> 'w Client option" where
  "semaphore_take c = (if c_taken c then None else Some (c\<lparr>c_taken := True\<rparr>))"

definition semaphore_give :: "'w Client \<Rightarrow> 'w Client option" where
  "semaphore_give c = (if c_taken c then Some (c\<lparr>c_taken := False\<rparr>) else None)"

definition with_semaphore :: "('w Client \<Rightarrow> 'w Client option) \<Rightarrow> 'w Client \<Rightarrow> 'w Client option" where
  "with_semaphore f c = do { c \<leftarrow> semaphore_take c; c \<leftarrow> f c; semaphore_give c }"

text \<open>
  A call into the environment, a call of a callback, which gives the semaphore back meanwhile, the
  same where the semaphore is not taken, and a write to the current packet.
\<close>

definition ask :: "('w \<Rightarrow> 'x \<times> 'w) \<Rightarrow> 'w Client \<Rightarrow> 'x \<times> 'w Client" where
  "ask f c = (case f (c_world c) of (x, w) \<Rightarrow> (x, c\<lparr>c_world := w\<rparr>))"

definition notify :: "'w Env \<Rightarrow> (Config \<Rightarrow> bool) \<Rightarrow> Event \<Rightarrow> 'w Client \<Rightarrow> 'w Client option" where
  "notify env isSet e c =
     (if isSet (c_config c) then e_react env e (c\<lparr>c_events := c_events c @ [e]\<rparr>) else Some c)"

definition callback :: "'w Env \<Rightarrow> (Config \<Rightarrow> bool) \<Rightarrow> Event \<Rightarrow> 'w Client \<Rightarrow> 'w Client option" where
  "callback env isSet e c =
     (if isSet (c_config c) then do {
        c \<leftarrow> semaphore_give c;
        c \<leftarrow> e_react env e (c\<lparr>c_events := c_events c @ [e]\<rparr>);
        semaphore_take c
      }
      else Some c)"

definition writeCurrent :: "(OutgoingPacket \<Rightarrow> OutgoingPacket) \<Rightarrow> 'w Client \<Rightarrow> 'w Client" where
  "writeCurrent f c = c\<lparr>c_outbox := q_write (snd (c_outbox c)) f (c_outbox c)\<rparr>"

definition op_packetType :: "OutgoingPacket \<Rightarrow> u8" where
  "op_packetType p = Packet_packetType (op_packet p)"

definition op_packetId :: "OutgoingPacket \<Rightarrow> u16" where
  "op_packetId p = Packet_packetId (op_packet p)"

subsection \<open>Adding packets\<close>

definition MqttClient_setState :: "State \<Rightarrow> 'w Client \<Rightarrow> 'w Client" where
  "MqttClient_setState newState c = c\<lparr>c_state := newState\<rparr>"

definition MqttClient_getNextPacketId :: "'w Client \<Rightarrow> u16 \<times> 'w Client" where
  "MqttClient_getNextPacketId c =
     (let packetId = c_packetId c + 1;
          packetId = (if packetId = 0 then packetId + 1 else packetId)
      in (packetId, c\<lparr>c_packetId := packetId\<rparr>))"

text \<open>
  \<open>build\<close> is the constructor of the packet. The iterator that \<open>emplace\<close> returns points at the new
  item, the last or the first one.
\<close>

definition MqttClient_addPacket ::
    "'w Env \<Rightarrow> (Memory \<Rightarrow> (Error \<times> Packet) option) \<Rightarrow> 'w Client \<Rightarrow> (bool \<times> 'w Client) option" where
  "MqttClient_addPacket env build c =
     (let ((node, mem), c) = ask (e_alloc env) c
      in if \<not> node then Some (False, c)
         else do {
           (error, p) \<leftarrow> build mem;
           let k = length (fst (c_outbox c));
           let c = c\<lparr>c_outbox := q_emplace \<lparr>op_timeSent = 0, op_packet = p\<rparr> (c_outbox c)\<rparr>;
           if error = SUCCESS then Some (True, c)
           else Some (False, c\<lparr>c_outbox := q_remove k (c_outbox c)\<rparr>)
         })"

definition MqttClient_addPacketFront ::
    "'w Env \<Rightarrow> (Memory \<Rightarrow> (Error \<times> Packet) option) \<Rightarrow> 'w Client \<Rightarrow> (bool \<times> 'w Client) option" where
  "MqttClient_addPacketFront env build c =
     (let ((node, mem), c) = ask (e_alloc env) c
      in if \<not> node then Some (False, c)
         else do {
           (error, p) \<leftarrow> build mem;
           let c = c\<lparr>c_outbox := q_emplaceFront \<lparr>op_timeSent = 0, op_packet = p\<rparr> (c_outbox c)\<rparr>;
           if error = SUCCESS then Some (True, c)
           else Some (False, c\<lparr>c_outbox := q_remove 0 (c_outbox c)\<rparr>)
         })"

definition MqttClient_onError :: "'w Env \<Rightarrow> u16 \<Rightarrow> Error \<Rightarrow> 'w Client \<Rightarrow> 'w Client option" where
  "MqttClient_onError env packetId error c = notify env g_onErrorCallback (OnError packetId error) c"

text \<open>Where a packet could not be added, the error is reported with the semaphore given back.\<close>

definition report :: "'w Env \<Rightarrow> u16 \<Rightarrow> 'w Client \<Rightarrow> 'w Client option" where
  "report env packetId c = do {
     c \<leftarrow> semaphore_give c;
     c \<leftarrow> MqttClient_onError env packetId OUT_OF_MEMORY c;
     semaphore_take c
   }"

subsection \<open>The calls of the user\<close>

definition MqttClient_connected :: "'w Client \<Rightarrow> bool" where
  "MqttClient_connected c = (if c_state c = connected then True else False)"

definition MqttClient_disconnected :: "'w Client \<Rightarrow> bool" where
  "MqttClient_disconnected c = (if c_state c = disconnected then True else False)"

definition MqttClient_connect :: "'w Env \<Rightarrow> 'w Client \<Rightarrow> (bool \<times> 'w Client) option" where
  "MqttClient_connect env c =
     (let g = c_config c
      in if c_state c = disconnected then do {
           c \<leftarrow> semaphore_take c;
           (added, c) \<leftarrow> MqttClient_addPacketFront env
             (\<lambda>mem. Packet_connect mem (g_cleanSession g) (g_username g) (g_password g)
               (g_willTopic g) (g_willRetain g) (g_willQos g) (g_willPayload g)
               (g_willPayloadLength g) (ucast (g_keepAlive g div 1000)) (g_clientId g)) c;
           c \<leftarrow> (if added then Some (MqttClient_setState connectingTcp1 c) else report env 0 c);
           c \<leftarrow> semaphore_give c;
           Some (added, c)
         }
         else Some (False, c))"

definition MqttClient_disconnect :: "bool \<Rightarrow> 'w Client \<Rightarrow> bool \<times> 'w Client" where
  "MqttClient_disconnect force c =
     (if force \<and> c_state c \<noteq> disconnected \<and> c_state c \<noteq> disconnectingTcp1 \<and> c_state c \<noteq> disconnectingTcp2
      then (True, MqttClient_setState disconnectingTcp1 c)
      else if \<not> force \<and> c_state c = connected
      then (True, MqttClient_setState disconnectingMqtt1 c)
      else (False, c))"

text \<open>The two PUBLISH calls differ in the constructor; a packet id of 0 says that the call failed.\<close>

definition mayPublish :: "'w Env \<Rightarrow> 'w Client \<Rightarrow> bool" where
  "mayPublish env c =
     (if \<not> e_allowNotConnectedPublish env then c_state c = connected
      else \<not> State_value (c_state c) > State_value connected)"

definition MqttClient_publish ::
    "'w Env \<Rightarrow> cstring \<Rightarrow> u8 \<Rightarrow> bool \<Rightarrow> u8 list \<Rightarrow> size_t \<Rightarrow> 'w Client \<Rightarrow> (u16 \<times> 'w Client) option" where
  "MqttClient_publish env topic qos retain payload len c =
     (if \<not> mayPublish env c then Some (0, c)
      else do {
        c \<leftarrow> semaphore_take c;
        let (packetId, c) = (if qos > 0 then MqttClient_getNextPacketId c else (1, c));
        (added, c) \<leftarrow> MqttClient_addPacket env
          (\<lambda>mem. Packet_publish mem packetId topic payload len qos retain) c;
        c \<leftarrow> (if added then Some c else report env packetId c);
        c \<leftarrow> semaphore_give c;
        Some (if added then packetId else 0, c)
      })"

definition MqttClient_publish_string ::
    "'w Env \<Rightarrow> cstring \<Rightarrow> u8 \<Rightarrow> bool \<Rightarrow> u8 list \<Rightarrow> 'w Client \<Rightarrow> (u16 \<times> 'w Client) option" where
  "MqttClient_publish_string env topic qos retain payload c = do {
     len \<leftarrow> strlen payload;
     MqttClient_publish env topic qos retain payload (of_nat len) c
   }"

definition MqttClient_publish_callback ::
    "'w Env \<Rightarrow> cstring \<Rightarrow> u8 \<Rightarrow> bool \<Rightarrow> PayloadCallback \<Rightarrow> size_t \<Rightarrow> 'w Client \<Rightarrow> (u16 \<times> 'w Client) option"
where
  "MqttClient_publish_callback env topic qos retain getPayload len c =
     (if \<not> mayPublish env c then Some (0, c)
      else do {
        c \<leftarrow> semaphore_take c;
        let (packetId, c) = (if qos > 0 then MqttClient_getNextPacketId c else (1, c));
        (added, c) \<leftarrow> MqttClient_addPacket env
          (\<lambda>mem. Packet_publish_callback mem packetId topic getPayload len qos retain) c;
        c \<leftarrow> (if added then Some c else report env packetId c);
        c \<leftarrow> semaphore_give c;
        Some (if added then packetId else 0, c)
      })"

definition MqttClient_subscribe ::
    "'w Env \<Rightarrow> (cstring \<times> u8) list \<Rightarrow> 'w Client \<Rightarrow> (u16 \<times> 'w Client) option" where
  "MqttClient_subscribe env items c =
     (if c_state c \<noteq> connected then Some (0, c)
      else do {
        c \<leftarrow> semaphore_take c;
        let (packetId, c) = MqttClient_getNextPacketId c;
        (added, c) \<leftarrow> MqttClient_addPacket env (\<lambda>mem. Packet_subscribe mem packetId items) c;
        c \<leftarrow> semaphore_give c;
        Some (if added then packetId else 0, c)
      })"

definition MqttClient_unsubscribe ::
    "'w Env \<Rightarrow> cstring list \<Rightarrow> 'w Client \<Rightarrow> (u16 \<times> 'w Client) option" where
  "MqttClient_unsubscribe env topics c =
     (if c_state c \<noteq> connected then Some (0, c)
      else do {
        c \<leftarrow> semaphore_take c;
        let (packetId, c) = MqttClient_getNextPacketId c;
        (added, c) \<leftarrow> MqttClient_addPacket env (\<lambda>mem. Packet_unsubscribe mem packetId topics) c;
        c \<leftarrow> semaphore_give c;
        Some (if added then packetId else 0, c)
      })"

subsection \<open>Clearing the queue\<close>

text \<open>One loop with an iterator at \<open>k\<close>: \<open>++it\<close> over what is kept, \<open>remove(it)\<close> of the rest.\<close>

function clear_from :: "(OutgoingPacket \<Rightarrow> bool) \<Rightarrow> nat \<Rightarrow> OutgoingPacket queue \<Rightarrow> OutgoingPacket queue" where
  "clear_from keep k q =
     (if k < length (fst q) then
        if keep (fst q ! k) then clear_from keep (Suc k) q
        else clear_from keep k (q_remove k q)
      else q)"
  by pat_completeness auto
termination
  by (relation "measure (\<lambda>(keep, k, q). length (fst q) - k)") (auto simp: q_remove_def)

declare clear_from.simps [simp del]

definition kept :: "int \<Rightarrow> OutgoingPacket \<Rightarrow> bool" where
  "kept clearData p =
     (if clearData = 0 then
        op_packetType p = PUBREC \<or> op_packetType p = PUBREL \<or>
        (op_packetType p = PUBLISH \<and> op_packetId p \<noteq> 0)
      else if clearData = 1 then op_packetType p = PUBLISH
      else False)"

definition MqttClient_clearQueueData :: "int \<Rightarrow> 'w Client \<Rightarrow> 'w Client" where
  "MqttClient_clearQueueData clearData c = c\<lparr>c_outbox := clear_from (kept clearData) 0 (c_outbox c)\<rparr>"

definition MqttClient_clearQueue :: "bool \<Rightarrow> 'w Client \<Rightarrow> 'w Client option" where
  "MqttClient_clearQueue deleteSessionData =
     with_semaphore (\<lambda>c. Some (MqttClient_clearQueueData (if deleteSessionData then 2 else 0) c))"

definition MqttClient_queueSize :: "'w Client \<Rightarrow> (size_t \<times> 'w Client) option" where
  "MqttClient_queueSize c = do {
     c \<leftarrow> semaphore_take c;
     let ret = of_nat (length (fst (c_outbox c)));
     c \<leftarrow> semaphore_give c;
     Some (ret, c)
   }"

definition MqttClient_getClientId :: "'w Client \<Rightarrow> cstring option" where
  "MqttClient_getClientId c = g_clientId (c_config c)"

text \<open>The destructor; the members are destroyed after it.\<close>

definition MqttClient_destroy :: "'w Client \<Rightarrow> 'w Client" where
  "MqttClient_destroy c = MqttClient_clearQueueData 2 (snd (MqttClient_disconnect True c))"


subsection \<open>Sending\<close>

text \<open>The arguments of \<open>write\<close> are what \<open>data\<close> points at; its result is converted to an \<open>int\<close>.\<close>

definition MqttClient_sendPacket :: "'w Env \<Rightarrow> 'w Client \<Rightarrow> (int \<times> 'w Client) option" where
  "MqttClient_sendPacket env c =
     (case q_current (c_outbox c) of
        None \<Rightarrow> Some (0, c)
      | Some current \<Rightarrow> do {
          (wantToWrite, p) \<leftarrow> Packet_available (c_bytesSent c) (op_packet current);
          let c = writeCurrent (\<lambda>x. x\<lparr>op_packet := p\<rparr>) c;
          if wantToWrite = 0 then Some (0, c)
          else do {
            bytes \<leftarrow> Packet_bytes (c_bytesSent c) wantToWrite p;
            let (written, c) = ask (e_write env bytes) c;
            let (now, c) = ask (e_millis env) c;
            let c = writeCurrent (\<lambda>x. x\<lparr>op_timeSent := now\<rparr>) c;
            let (now, c) = ask (e_millis env) c;
            Some (sint written,
              c\<lparr>c_lastClientActivity := now, c_bytesSent := c_bytesSent c + written\<rparr>)
          }
        })"

definition MqttClient_advanceOutbox :: "'w Client \<Rightarrow> bool \<times> 'w Client" where
  "MqttClient_advanceOutbox c =
     (case q_current (c_outbox c) of
        None \<Rightarrow> (False, c)
      | Some current \<Rightarrow>
          if c_bytesSent c = Packet_size (op_packet current) then
            (let c = (if op_packetType current = DISCONNECT
                      then (MqttClient_setState disconnectingTcp1 c)\<lparr>c_disconnectReason := USER_OK\<rparr>
                      else c);
                 c = (if Packet_removable (op_packet current)
                      then c\<lparr>c_outbox := q_removeCurrent (c_outbox c)\<rparr>
                      else
                        (let c = (if op_packetType current = PUBLISH
                                  then writeCurrent (\<lambda>x. x\<lparr>op_packet := Packet_setDup (op_packet x)\<rparr>) c
                                  else c)
                         in c\<lparr>c_outbox := q_next (c_outbox c)\<rparr>));
                 any = (q_current (c_outbox c) \<noteq> None)
             in (any, c\<lparr>c_bytesSent := 0\<rparr>))
          else (True, c))"

partial_function (option) MqttClient_checkOutbox :: "'w Env \<Rightarrow> 'w Client \<Rightarrow> 'w Client option" where
  "MqttClient_checkOutbox env c = do {
     (sent, c) \<leftarrow> MqttClient_sendPacket env c;
     if sent > 0 then
       case MqttClient_advanceOutbox c of (any, c) \<Rightarrow>
         if \<not> any then Some c else MqttClient_checkOutbox env c
     else Some c
   }"

declare MqttClient_checkOutbox.simps [code]

subsection \<open>Keep-alive and retries\<close>

definition MqttClient_checkPing :: "'w Env \<Rightarrow> 'w Client \<Rightarrow> 'w Client option" where
  "MqttClient_checkPing env c =
     (let keepAlive = g_keepAlive (c_config c)
      in if keepAlive = 0 then Some c
         else
           let (currentMillis, c) = ask (e_millis env) c
           in if currentMillis - c_lastServerActivity c > 2 * keepAlive then
                Some ((MqttClient_setState disconnectingTcp1 c)\<lparr>c_disconnectReason := TCP_DISCONNECTED\<rparr>)
              else if \<not> c_pingSent c \<and>
                  (currentMillis - c_lastClientActivity c > keepAlive \<or>
                   currentMillis - c_lastServerActivity c > keepAlive) then do {
                (added, c) \<leftarrow> MqttClient_addPacket env (\<lambda>mem. Packet_simple mem PINGREQ) c;
                if \<not> added then Some c else Some (c\<lparr>c_pingSent := True\<rparr>)
              }
              else Some c)"

text \<open>
  \<open>millis() - it.get()->timeSent\<close>, in the type of \<open>millis()\<close>: with a 64-bit clock the stored time, which
  has 32 bits, is subtracted from all of it.
\<close>

definition sinceSent :: "'w Env \<Rightarrow> int \<Rightarrow> u32 \<Rightarrow> int" where
  "sinceSent env now timeSent =
     (if e_wideClock env then now - uint timeSent else uint ((word_of_int now :: u32) - timeSent))"

definition MqttClient_checkTimeout :: "'w Env \<Rightarrow> 'w Client \<Rightarrow> 'w Client" where
  "MqttClient_checkTimeout env c =
     (case fst (c_outbox c) of
        [] \<Rightarrow> c
      | front # _ \<Rightarrow>
          if c_bytesSent c = 0 \<and> 0 \<noteq> snd (c_outbox c) then
            (let (now, c) = ask (e_clock env) c
             in if sinceSent env now (op_timeSent front) > uint (g_timeout (c_config c))
                then c\<lparr>c_outbox := q_resetCurrent (c_outbox c)\<rparr> else c)
          else c)"

subsection \<open>Handlers of incoming packets\<close>

text \<open>
  The scans of the outbox from the front. \<open>first_of_type\<close> looks at the first packet of a type only
  and gives its position if its id matches; \<open>first_match\<close> is the first position with a property.
\<close>

fun first_of_type :: "u8 \<Rightarrow> u16 \<Rightarrow> nat \<Rightarrow> OutgoingPacket list \<Rightarrow> nat option" where
  "first_of_type type idToMatch k [] = None"
| "first_of_type type idToMatch k (p # ps) =
     (if op_packetType p = type then
        if op_packetId p = idToMatch then Some k else None
      else first_of_type type idToMatch (k + 1) ps)"

fun first_match :: "(OutgoingPacket \<Rightarrow> bool) \<Rightarrow> nat \<Rightarrow> OutgoingPacket list \<Rightarrow> nat option" where
  "first_match P k [] = None"
| "first_match P k (p # ps) = (if P p then Some k else first_match P (k + 1) ps)"

definition removeAt :: "nat \<Rightarrow> 'w Client \<Rightarrow> 'w Client" where
  "removeAt k c = c\<lparr>c_outbox := q_remove k (c_outbox c)\<rparr>"

definition incoming :: "'w Client \<Rightarrow> IncomingPacket" where
  "incoming c = r_packet (c_parser c)"

definition MqttClient_onConnack :: "'w Env \<Rightarrow> 'w Client \<Rightarrow> 'w Client option" where
  "MqttClient_onConnack env c =
     (if i_returnCode (incoming c) = 0x00 then
        (let c = c\<lparr>c_pingSent := False\<rparr>;
             c = MqttClient_setState connected c;
             c = snd (MqttClient_advanceOutbox c);
             c = (if i_sessionPresent (incoming c) = 0 then MqttClient_clearQueueData 1 c else c)
         in callback env g_onConnectCallback (OnConnect (i_sessionPresent (incoming c) \<noteq> 0)) c)
      else do {
        reason \<leftarrow> DisconnectReason_cast (i_returnCode (incoming c));
        Some ((MqttClient_setState disconnectingTcp1 c)\<lparr>c_disconnectReason := reason\<rparr>)
      })"

text \<open>
  The message callback gets the topic as a C string, and reads \<open>length\<close> bytes of the payload; for
  an empty message there is nothing to read.
\<close>

definition messageEvent :: "'w Client \<Rightarrow> Event option" where
  "messageEvent c = do {
     let p = incoming c;
     n \<leftarrow> strlen (i_topic p);
     payload \<leftarrow> (if i_length p = 0 then Some [] else Parser_payload (c_parser c));
     Some (OnMessage \<lparr>mp_qos = IncomingPacket_qos p, mp_dup = IncomingPacket_dup p,
         mp_retain = IncomingPacket_retain p, mp_packetId = i_packetId p\<rparr>
       (take n (i_topic p)) payload (i_length p) (i_index p) (i_total p))
   }"

definition MqttClient_onPublish :: "'w Env \<Rightarrow> 'w Client \<Rightarrow> 'w Client option" where
  "MqttClient_onPublish env c = do {
     let p = incoming c;
     let qos = IncomingPacket_qos p;
     let packetId = i_packetId p;
     let complete = (i_index p + i_length p = i_total p);
     (deliver, c) \<leftarrow>
       (if qos = 1 then do {
          c \<leftarrow> (if complete then map_option snd (MqttClient_addPacket env (\<lambda>mem. Packet_ack mem PUBACK packetId) c)
               else Some c);
          Some (True, c)
        }
        else if qos = 2 then do {
          let known = first_match (\<lambda>x. op_packetType x = PUBREC \<and> op_packetId x = packetId) 0 (fst (c_outbox c));
          c \<leftarrow> (if complete then map_option snd (MqttClient_addPacket env (\<lambda>mem. Packet_ack mem PUBREC packetId) c)
               else Some c);
          Some (known = None, c)
        }
        else Some (True, c));
     if deliver \<and> g_onMessageCallback (c_config c) then do {
       e \<leftarrow> messageEvent c;
       callback env g_onMessageCallback e c
     }
     else Some c
   }"

definition MqttClient_onPuback :: "'w Env \<Rightarrow> 'w Client \<Rightarrow> 'w Client option" where
  "MqttClient_onPuback env c =
     (let idToMatch = i_packetId (incoming c)
      in case first_of_type PUBLISH idToMatch 0 (fst (c_outbox c)) of
           Some k \<Rightarrow> callback env g_onPublishCallback (OnPublish idToMatch) (removeAt k c)
         | None \<Rightarrow> Some c)"

definition MqttClient_onPubrec :: "'w Env \<Rightarrow> 'w Client \<Rightarrow> 'w Client option" where
  "MqttClient_onPubrec env c =
     (let idToMatch = i_packetId (incoming c)
      in case first_of_type PUBLISH idToMatch 0 (fst (c_outbox c)) of
           Some k \<Rightarrow> do {
             (added, c) \<leftarrow> MqttClient_addPacket env (\<lambda>mem. Packet_ack mem PUBREL idToMatch) c;
             Some (removeAt k c)
           }
         | None \<Rightarrow> Some c)"

definition MqttClient_onPubrel :: "'w Env \<Rightarrow> 'w Client \<Rightarrow> 'w Client option" where
  "MqttClient_onPubrel env c =
     (let idToMatch = i_packetId (incoming c)
      in case first_of_type PUBREC idToMatch 0 (fst (c_outbox c)) of
           Some k \<Rightarrow> do {
             (added, c) \<leftarrow> MqttClient_addPacket env (\<lambda>mem. Packet_ack mem PUBCOMP idToMatch) c;
             Some (removeAt k c)
           }
         | None \<Rightarrow> Some c)"

definition MqttClient_onPubcomp :: "'w Env \<Rightarrow> 'w Client \<Rightarrow> 'w Client option" where
  "MqttClient_onPubcomp env c =
     (let idToMatch = i_packetId (incoming c)
      in case first_of_type PUBREL idToMatch 0 (fst (c_outbox c)) of
           Some k \<Rightarrow> callback env g_onPublishCallback (OnPublish idToMatch) (removeAt k c)
         | None \<Rightarrow> Some c)"

text \<open>The subscribe callback reads \<open>payload.total\<close> return codes.\<close>

definition returnCodes :: "Parser \<Rightarrow> u8 list option" where
  "returnCodes p =
     (case i_data (r_packet p) of
        NullPtr \<Rightarrow> if i_total (r_packet p) = 0 then Some [] else None
      | PayloadBuffer \<Rightarrow> region (r_payloadBuffer p) 0 (unat (i_total (r_packet p)))
      | Input off \<Rightarrow> region (r_data p) (unat off) (unat (i_total (r_packet p))))"

definition MqttClient_onSuback :: "'w Env \<Rightarrow> 'w Client \<Rightarrow> 'w Client option" where
  "MqttClient_onSuback env c =
     (let idToMatch = i_packetId (incoming c)
      in case first_match (\<lambda>x. op_packetType x = SUBSCRIBE \<and> op_packetId x = idToMatch) 0 (fst (c_outbox c)) of
           Some k \<Rightarrow>
             let c = removeAt k c
             in if g_onSubscribeCallback (c_config c) then do {
                  codes \<leftarrow> returnCodes (c_parser c);
                  callback env g_onSubscribeCallback (OnSubscribe idToMatch codes) c
                }
                else Some c
         | None \<Rightarrow> Some c)"

definition MqttClient_onUnsuback :: "'w Env \<Rightarrow> 'w Client \<Rightarrow> 'w Client option" where
  "MqttClient_onUnsuback env c =
     (let idToMatch = i_packetId (incoming c)
      in case first_match (\<lambda>x. op_packetId x = idToMatch) 0 (fst (c_outbox c)) of
           Some k \<Rightarrow> callback env g_onUnsubscribeCallback (OnUnsubscribe idToMatch) (removeAt k c)
         | None \<Rightarrow> Some c)"

subsection \<open>Receiving\<close>

text \<open>The body of the receive loop: the flag says whether the loop goes on.\<close>

definition MqttClient_dispatch :: "'w Env \<Rightarrow> ParserResult \<Rightarrow> 'w Client \<Rightarrow> (bool \<times> 'w Client) option" where
  "MqttClient_dispatch env result c =
     (let type = i_packetType (incoming c) AND 0xF0
      in if result = packet then
           if c_state c = connectingMqtt \<and> type \<noteq> CONNACK then
             Some (False, MqttClient_setState disconnectingTcp1 c)
           else if type = CONNACK then do {
             c \<leftarrow> MqttClient_onConnack env c;
             Some (c_state c = connected, c)
           }
           else if type = PUBLISH then
             if State_value (c_state c) \<ge> State_value disconnectingMqtt1 then Some (True, c)
             else map_option (Pair True) (MqttClient_onPublish env c)
           else if type = PUBACK then map_option (Pair True) (MqttClient_onPuback env c)
           else if type = PUBREC then map_option (Pair True) (MqttClient_onPubrec env c)
           else if type = PUBREL then map_option (Pair True) (MqttClient_onPubrel env c)
           else if type = PUBCOMP then map_option (Pair True) (MqttClient_onPubcomp env c)
           else if type = SUBACK then map_option (Pair True) (MqttClient_onSuback env c)
           else if type = UNSUBACK then map_option (Pair True) (MqttClient_onUnsuback env c)
           else if type = PINGRESP then Some (True, c\<lparr>c_pingSent := False\<rparr>)
           else Some (True, c)
         else if result = protocolError then
           Some (False, (MqttClient_setState disconnectingTcp1 c)\<lparr>c_disconnectReason := TCP_DISCONNECTED\<rparr>)
         else Some (True, c))"

partial_function (option) MqttClient_receive ::
    "'w Env \<Rightarrow> u8 list \<Rightarrow> u32 \<Rightarrow> size_t \<Rightarrow> 'w Client \<Rightarrow> 'w Client option" where
  "MqttClient_receive env rxBuffer remaining index c =
     (if sint remaining > 0 then do {
        (result, bytesParsed, p) \<leftarrow> Parser_parse (drop (unat index) rxBuffer) remaining (c_parser c);
        (continue, c) \<leftarrow> MqttClient_dispatch env result (c\<lparr>c_parser := p\<rparr>);
        if continue then MqttClient_receive env rxBuffer (remaining - bytesParsed) (index + bytesParsed) c
        else Some c
      }
      else Some c)"

declare MqttClient_receive.simps [code]

definition MqttClient_checkIncoming :: "'w Env \<Rightarrow> 'w Client \<Rightarrow> 'w Client option" where
  "MqttClient_checkIncoming env c =
     (let ((remaining, rxBuffer), c) = ask (e_read env EMC_RX_BUFFER_SIZE) c
      in if sint remaining > 0 then
           (let (now, c) = ask (e_millis env) c
            in MqttClient_receive env rxBuffer remaining 0 (c\<lparr>c_lastServerActivity := now\<rparr>))
         else Some c)"

subsection \<open>The main loop\<close>

definition tcpLost :: "'w Client \<Rightarrow> 'w Client" where
  "tcpLost c = (MqttClient_setState disconnectingTcp1 c)\<lparr>c_disconnectReason := TCP_DISCONNECTED\<rparr>"

text \<open>The cases of the switch, in its order; the first falls through to the second.\<close>

definition loop_connectingTcp2 :: "'w Env \<Rightarrow> 'w Client \<Rightarrow> 'w Client" where
  "loop_connectingTcp2 env c =
     (let (isConnected, c) = ask (e_connected env) c
      in if isConnected then
           (let c = c\<lparr>c_parser := Parser_reset (c_parser c)\<rparr>;
                (now, c) = ask (e_millis env) c
            in MqttClient_setState connectingMqtt
                 (c\<lparr>c_lastServerActivity := now, c_lastClientActivity := now\<rparr>))
         else
           let (isDisconnected, c) = ask (e_disconnected env) c
           in if isDisconnected then tcpLost c else c)"

definition loop_connectingTcp1 :: "'w Env \<Rightarrow> 'w Client \<Rightarrow> 'w Client" where
  "loop_connectingTcp1 env c =
     (let g = c_config c;
          (success, c) = ask (if g_useIp g then e_connectIp env (g_ip g) (g_port g)
                              else e_connectHost env (g_host g) (g_port g)) c
      in if success then loop_connectingTcp2 env (MqttClient_setState connectingTcp2 c)
         else tcpLost c)"

definition loop_exchange :: "'w Env \<Rightarrow> 'w Client \<Rightarrow> 'w Client option" where
  "loop_exchange env c = do {
     c \<leftarrow> MqttClient_checkOutbox env c;
     c \<leftarrow> MqttClient_checkIncoming env c;
     c \<leftarrow> MqttClient_checkPing env c;
     Some (MqttClient_checkTimeout env c)
   }"

definition loop_connected :: "'w Env \<Rightarrow> 'w Client \<Rightarrow> 'w Client option" where
  "loop_connected env c =
     (let (isConnected, c) = ask (e_connected env) c
      in if isConnected then with_semaphore (loop_exchange env) c else Some (tcpLost c))"

definition loop_connectingMqtt :: "'w Env \<Rightarrow> 'w Client \<Rightarrow> 'w Client option" where
  "loop_connectingMqtt env c =
     (if e_waitForConnack env then
        (let (isConnected, c) = ask (e_connected env) c
         in if isConnected then
              with_semaphore (\<lambda>c. do {
                (sent, c) \<leftarrow> MqttClient_sendPacket env c;
                c \<leftarrow> MqttClient_checkIncoming env c;
                MqttClient_checkPing env c
              }) c
            else Some (tcpLost c))
      else loop_connected env c)"

definition loop_disconnectingMqtt1 :: "'w Env \<Rightarrow> 'w Client \<Rightarrow> 'w Client option" where
  "loop_disconnectingMqtt1 env =
     with_semaphore (\<lambda>c. do {
       c \<leftarrow>
         (if fst (c_outbox c) = [] then do {
            (added, c) \<leftarrow> MqttClient_addPacket env (\<lambda>mem. Packet_simple mem DISCONNECT) c;
            if \<not> added then report env 0 c
            else Some (MqttClient_setState disconnectingMqtt2 c)
          }
          else Some c);
       loop_exchange env c
     })"

definition loop_disconnectingTcp1 :: "'w Env \<Rightarrow> 'w Client \<Rightarrow> 'w Client" where
  "loop_disconnectingTcp1 env c =
     MqttClient_setState disconnectingTcp2 (c\<lparr>c_world := e_stop env (c_world c)\<rparr>)"

definition loop_disconnectingTcp2 :: "'w Env \<Rightarrow> 'w Client \<Rightarrow> 'w Client option" where
  "loop_disconnectingTcp2 env c =
     (let (isDisconnected, c) = ask (e_disconnected env) c
      in if isDisconnected then do {
           c \<leftarrow> with_semaphore (\<lambda>c. Some (MqttClient_clearQueueData 0 c)) c;
           let c = MqttClient_setState disconnected (c\<lparr>c_bytesSent := 0\<rparr>);
           notify env g_onDisconnectCallback (OnDisconnect (c_disconnectReason c)) c
         }
         else Some c)"

definition MqttClient_loop :: "'w Env \<Rightarrow> 'w Client \<Rightarrow> 'w Client option" where
  "MqttClient_loop env c =
     (case c_state c of
        disconnected \<Rightarrow> Some c
      | connectingTcp1 \<Rightarrow> Some (loop_connectingTcp1 env c)
      | connectingTcp2 \<Rightarrow> Some (loop_connectingTcp2 env c)
      | connectingMqtt \<Rightarrow> loop_connectingMqtt env c
      | connected \<Rightarrow> loop_connected env c
      | disconnectingMqtt1 \<Rightarrow> loop_disconnectingMqtt1 env c
      | disconnectingMqtt2 \<Rightarrow> loop_connected env c
      | disconnectingTcp1 \<Rightarrow> Some (loop_disconnectingTcp1 env c)
      | disconnectingTcp2 \<Rightarrow> loop_disconnectingTcp2 env c)"

end
