(* ===== verification/PacketSafety.thy ===== *)
theory PacketSafety
  imports PacketSource
begin

text \<open>
  Which packets can be sent without a fault, whatever index the client asks for: those that hold
  their bytes, and chunked ones whose window of payload lies inside the buffer. Every constructor
  builds such a packet, and \<open>available\<close> and \<open>setDup\<close> keep it one.
\<close>

definition whole :: "Packet \<Rightarrow> bool" where
  "whole p \<longleftrightarrow> p_getPayload p = None \<and> (\<exists>data. p_data p = Some data \<and> length data = unat (p_size p))"

text \<open>\<open>windowed\<close> asks of the callback only that it does not store more than it may.\<close>

definition windowed :: "Packet \<Rightarrow> bool" where
  "windowed p \<longleftrightarrow>
     1 < unat (p_payloadIndex p) \<and> p_payloadIndex p \<le> p_payloadStartIndex p \<and>
     p_payloadStartIndex p < p_size p \<and> p_payloadEndIndex p < p_size p \<and>
     unat (p_payloadStartIndex p) \<le> unat (p_payloadEndIndex p) + 1 \<and>
     unat (p_payloadEndIndex p) + 1 \<le>
       unat (p_payloadStartIndex p) + min 1440 (unat (p_size p) - unat (p_payloadIndex p)) \<and>
     (\<exists>f data. p_getPayload p = Some f \<and> (\<forall>m i. length (f m i) \<le> unat m) \<and> p_data p = Some data \<and>
        unat (p_payloadIndex p) + min 1440 (unat (p_size p) - unat (p_payloadIndex p)) \<le> length data)"

definition sendable :: "Packet \<Rightarrow> bool" where
  "sendable p \<longleftrightarrow> whole p \<or> windowed p"

text \<open>What a step of sending leaves alone.\<close>

definition same_packet :: "Packet \<Rightarrow> Packet \<Rightarrow> bool" where
  "same_packet p p' \<longleftrightarrow> p_size p' = p_size p \<and> p_packetId p' = p_packetId p \<and>
     Packet_packetType p' = Packet_packetType p"

lemma packetType_prefix:
  assumes "p_data p = Some data" and "p_data p' = Some data'" and "take n data' = take n data" and "0 < n"
  shows "Packet_packetType p' = Packet_packetType p"
  using assms by (cases data; cases data'; cases n) (auto simp: Packet_packetType_def)

lemma fetchPayload_windowed:
  assumes w: "windowed p" and start: "p_payloadIndex p \<le> start" "start < p_size p"
  shows "\<exists>k data data'. p_data p = Some data \<and>
    fetchPayload index (p\<lparr>p_payloadStartIndex := start\<rparr>) =
      Some (of_nat k, p\<lparr>p_payloadStartIndex := start, p_data := Some data'\<rparr>) \<and>
    k \<le> min 1440 (unat (p_size p) - unat start) \<and> length data' = length data \<and>
    take (unat (p_payloadIndex p)) data' = take (unat (p_payloadIndex p)) data"
proof -
  from w obtain f data where f: "p_getPayload p = Some f" "\<And>m i. length (f m i) \<le> unat m"
    and data: "p_data p = Some data"
      "unat (p_payloadIndex p) + min 1440 (unat (p_size p) - unat (p_payloadIndex p)) \<le> length data"
    by (auto simp: windowed_def)
  define h where "h = unat (p_payloadIndex p)"
  define m where "m = min EMC_TX_BUFFER_SIZE (p_size p - start)"
  define bytes where "bytes = f m index"
  have "unat (p_size p - start) = unat (p_size p) - unat start"
    using start(2) by (simp add: unat_sub)
  then have m: "unat m \<le> min 1440 (unat (p_size p) - unat start)"
    by (auto simp: m_def min_def word_le_nat_alt)
  then have len: "length bytes \<le> min 1440 (unat (p_size p) - unat start)"
    using f(2) [of m index] by (simp add: bytes_def)
  have "h \<le> unat start" using start(1) by (simp add: h_def word_le_nat_alt)
  then have room: "h + length bytes \<le> length data"
    using len data(2) unfolding h_def by linarith
  define data' where "data' = take h data @ bytes @ drop (h + length bytes) data"
  have "fetchPayload index (p\<lparr>p_payloadStartIndex := start\<rparr>) =
      Some (of_nat (length bytes), p\<lparr>p_payloadStartIndex := start, p_data := Some data'\<rparr>)"
    using f data room
    by (simp add: fetchPayload_def put_def bytes_def m_def data'_def h_def Let_def)
  moreover have "length data' = length data" and "take h data' = take h data"
    using room by (simp_all add: data'_def)
  ultimately show ?thesis
    using data(1) len by (auto simp: h_def)
qed

lemma windowed_moved:
  assumes "windowed p" and "p_data p = Some data" and "p_payloadIndex p \<le> start" and "start < p_size p"
    and "k \<le> min 1440 (unat (p_size p) - unat start)" and "length data' = length data"
    and "unat end' = unat start + k - 1"
  shows "windowed (p\<lparr>p_payloadStartIndex := start, p_data := Some data', p_payloadEndIndex := end'\<rparr>)"
proof -
  have s: "unat (p_payloadIndex p) \<le> unat start" "unat start < unat (p_size p)" "1 < unat (p_payloadIndex p)"
    using assms by (auto simp: word_le_nat_alt word_less_nat_alt windowed_def)
  have "end' < p_size p"
    using s assms(5,7) unfolding word_less_nat_alt by linarith
  with assms s show ?thesis
    by (auto simp: windowed_def)
qed

text \<open>The value \<open>start + copied - 1\<close> in machine arithmetic.\<close>

lemma window_end:
  assumes "1 < unat (start :: u32)" and "unat start + k < 2 ^ 32"
  shows "unat (start + of_nat k - 1) = unat start + k - 1"
proof -
  have "unat (start + of_nat k) = unat start + k"
    using assms by (subst unat_add_lem [THEN iffD1]) (simp_all add: unat_of_nat32)
  with assms(1) show ?thesis by (subst unat_sub) (simp_all add: word_le_nat_alt)
qed

lemma window_size:
  assumes "i \<le> e" and "unat (e :: u32) < unat (s :: u32)"
  shows "unat (e - i + 1) = unat e + 1 - unat i"
proof -
  have "unat (e - i) = unat e - unat i" using assms(1) by (simp add: unat_sub)
  moreover have "unat e - unat i + 1 < 2 ^ 32" using u32_bound [of s] assms(2) by simp
  ultimately have "unat (e - i + 1) = unat e - unat i + 1"
    by (subst unat_add_lem [THEN iffD1]) simp_all
  with assms(1) show ?thesis by (simp add: word_le_nat_alt)
qed


definition sends :: "size_t \<Rightarrow> Packet \<Rightarrow> size_t \<times> Packet \<Rightarrow> bool" where
  "sends i p = (\<lambda>(n, p'). sendable p' \<and> same_packet p p' \<and> unat n \<le> unat (p_size p) - unat i \<and>
     (n \<noteq> 0 \<longrightarrow> (\<exists>bytes. Packet_bytes i n p' = Some bytes \<and> length bytes = unat n)))"

lemma available_whole:
  assumes "whole p"
  shows "ok (Packet_available i p) (sends i p)"
proof (cases "i \<ge> p_size p")
  case True
  with assms show ?thesis
    by (simp add: Packet_available_def wp sends_def sendable_def same_packet_def)
next
  case False
  then have "i < p_size p" by simp
  then have "unat (p_size p - i) = unat (p_size p) - unat i" and "unat i < unat (p_size p)"
    by (simp add: unat_sub less_imp_le, simp add: word_less_nat_alt)
  with False assms show ?thesis
    by (auto simp: Packet_available_def wp sends_def sendable_def same_packet_def whole_def
        Packet_bytes_def Packet_data_def)
qed

lemma available_header_window:
  assumes w: "windowed p" and i: "i < p_payloadIndex p"
  shows "ok (Packet_available i p) (sends i p)"
proof -
  from w obtain f where b: "1 < unat (p_payloadIndex p)" "p_payloadIndex p \<le> p_payloadStartIndex p"
    "p_payloadStartIndex p < p_size p" "unat (p_payloadStartIndex p) \<le> unat (p_payloadEndIndex p) + 1"
    "p_getPayload p = Some f"
    and room: "\<And>data. p_data p = Some data \<Longrightarrow>
      unat (p_payloadIndex p) + min 1440 (unat (p_size p) - unat (p_payloadIndex p)) \<le> length data"
    by (auto simp: windowed_def)
  note word_less_nat_alt [simp] word_le_nat_alt [simp]
  from fetchPayload_windowed [OF w b(2,3), of i] obtain k data data' where
    fetch: "p_data p = Some data" "fetchPayload i p = Some (of_nat k, p\<lparr>p_data := Some data'\<rparr>)"
    and k: "k \<le> min 1440 (unat (p_size p) - unat (p_payloadStartIndex p))"
    and d: "length data' = length data" "take (unat (p_payloadIndex p)) data' = take (unat (p_payloadIndex p)) data"
    by auto
  have k': "k \<le> min 1440 (unat (p_size p) - unat (p_payloadIndex p))"
    using k b(2) unfolding word_le_nat_alt by linarith
  define e where "e = p_payloadIndex p + of_nat k - 1"
  have e: "unat e = unat (p_payloadIndex p) + k - 1"
    unfolding e_def using b(1-3) k' u32_bound [of "p_size p"] by (intro window_end) auto
  define p' where "p' = p\<lparr>p_payloadStartIndex := p_payloadIndex p, p_data := Some data', p_payloadEndIndex := e\<rparr>"
  have "p_payloadEndIndex p \<noteq> 0"
  proof
    assume "p_payloadEndIndex p = 0"
    with b(1,2,4) show False by simp
  qed
  with fetch i b have avail: "Packet_available i p = Some (e - i + 1, p')"
    by (simp add: Packet_available_def chunkedAvailable_def p'_def e_def Let_def)
  have n: "unat (e - i + 1) = unat (p_payloadIndex p) + k - unat i"
  proof -
    have "i \<le> e" and "unat e < unat (p_size p)"
      using e i b(1-3) k' unfolding word_le_nat_alt word_less_nat_alt by linarith+
    from window_size [OF this] show ?thesis using e b(1) by simp
  qed
  have "windowed p'"
    unfolding p'_def using b k' e fetch(1) d(1) by (intro windowed_moved [OF w]) auto
  moreover have "same_packet p p'"
    using packetType_prefix [OF fetch(1), of p' data'] d(2) b(1) by (simp add: same_packet_def p'_def)
  moreover have "\<exists>bytes. Packet_bytes i (e - i + 1) p' = Some bytes \<and> length bytes = unat (e - i + 1)"
  proof -
    have "unat i + unat (e - i + 1) \<le> length data'"
      using room [OF fetch(1)] i k' d(1) n unfolding word_less_nat_alt by linarith
    then show ?thesis
      using i b(5) by (simp add: Packet_bytes_def Packet_data_def chunkedData_def p'_def)
  qed
  moreover have "unat (e - i + 1) \<le> unat (p_size p) - unat i"
    using n k' b(2,3) unfolding word_le_nat_alt word_less_nat_alt by linarith
  ultimately show ?thesis
    by (simp add: avail wp sends_def sendable_def)
qed

text \<open>Reading a payload byte inside the window.\<close>

lemma window_bytes:
  assumes w: "windowed q" and i: "p_payloadStartIndex q \<le> i" "i \<le> p_payloadEndIndex q"
  shows "unat (p_payloadEndIndex q - i + 1) \<le> unat (p_size q) - unat i"
    and "\<exists>bytes. Packet_bytes i (p_payloadEndIndex q - i + 1) q = Some bytes \<and>
      length bytes = unat (p_payloadEndIndex q - i + 1)"
proof -
  from w obtain f data where b: "p_payloadIndex q \<le> p_payloadStartIndex q"
    "p_payloadStartIndex q < p_size q" "p_payloadEndIndex q < p_size q"
    "unat (p_payloadEndIndex q) + 1 \<le>
       unat (p_payloadStartIndex q) + min 1440 (unat (p_size q) - unat (p_payloadIndex q))"
    "p_getPayload q = Some f" "p_data q = Some data"
    "unat (p_payloadIndex q) + min 1440 (unat (p_size q) - unat (p_payloadIndex q)) \<le> length data"
    by (auto simp: windowed_def)
  have n: "unat (p_payloadEndIndex q - i + 1) = unat (p_payloadEndIndex q) + 1 - unat i"
    using window_size [OF i(2), of "p_size q"] b(3) by (simp add: word_less_nat_alt)
  with b(3) show "unat (p_payloadEndIndex q - i + 1) \<le> unat (p_size q) - unat i"
    by (simp add: word_less_nat_alt)
  define k where "k = i - p_payloadStartIndex q"
  have k: "unat k = unat i - unat (p_payloadStartIndex q)"
    unfolding k_def using i(1) by (simp add: unat_sub)
  have le: "unat (p_payloadStartIndex q) \<le> unat i" "unat (p_payloadIndex q) \<le> unat (p_payloadStartIndex q)"
    "unat i < unat (p_size q)" "unat i \<le> unat (p_payloadEndIndex q)"
    using i b(1,3) by (auto simp: word_le_nat_alt word_less_nat_alt)
  have "unat (k + p_payloadIndex q) = unat k + unat (p_payloadIndex q)"
    using k le u32_bound [of "p_size q"] by (subst unat_add_lem [THEN iffD1]) simp_all
  with k le have off: "unat (chunkedData i q) = unat i - unat (p_payloadStartIndex q) + unat (p_payloadIndex q)"
    by (simp add: chunkedData_def k_def word_less_nat_alt)
  have "unat (chunkedData i q) + unat (p_payloadEndIndex q - i + 1) \<le> length data"
    unfolding off n using b(4,7) le by linarith
  then show "\<exists>bytes. Packet_bytes i (p_payloadEndIndex q - i + 1) q = Some bytes \<and>
      length bytes = unat (p_payloadEndIndex q - i + 1)"
    using b(5,6) by (simp add: Packet_bytes_def Packet_data_def)
qed

lemma available_payload_window:
  assumes w: "windowed p" and i: "p_payloadIndex p \<le> i" "i < p_size p"
  shows "ok (Packet_available i p) (sends i p)"
proof (cases "i > p_payloadEndIndex p \<or> p_payloadStartIndex p > i")
  case False
  then have "Packet_available i p = Some (p_payloadEndIndex p - i + 1, p)"
    using w i by (auto simp: Packet_available_def chunkedAvailable_def windowed_def)
  with window_bytes [OF w, of i] False w show ?thesis
    by (simp add: wp sends_def sendable_def same_packet_def not_less)
next
  case True
  from fetchPayload_windowed [OF w i, of i] obtain k data data' where
    fetch: "p_data p = Some data"
      "fetchPayload i (p\<lparr>p_payloadStartIndex := i\<rparr>) =
        Some (of_nat k, p\<lparr>p_payloadStartIndex := i, p_data := Some data'\<rparr>)"
    and k: "k \<le> min 1440 (unat (p_size p) - unat i)" and d: "length data' = length data"
      "take (unat (p_payloadIndex p)) data' = take (unat (p_payloadIndex p)) data"
    by blast
  have h: "1 < unat (p_payloadIndex p)" using w by (simp add: windowed_def)
  then have h': "1 < unat i" "unat i < unat (p_size p)"
    using i by (auto simp: word_le_nat_alt word_less_nat_alt)
  define e where "e = i + of_nat k - 1"
  have e: "unat e = unat i + k - 1"
    unfolding e_def using h' k u32_bound [of "p_size p"] by (intro window_end) auto
  define p' where "p' = p\<lparr>p_payloadStartIndex := i, p_data := Some data', p_payloadEndIndex := e\<rparr>"
  have avail: "Packet_available i p = Some (e - i + 1, p')"
    using w True i fetch(2)
    by (auto simp: Packet_available_def chunkedAvailable_def windowed_def p'_def e_def Let_def)
  have w': "windowed p'"
    unfolding p'_def by (rule windowed_moved [OF w fetch(1) i k d(1) e])
  have "same_packet p p'"
    using packetType_prefix [OF fetch(1), of p' data'] d(2) h by (simp add: same_packet_def p'_def)
  moreover have "unat (e - i + 1) \<le> unat (p_size p) - unat i \<and>
    (e - i + 1 \<noteq> 0 \<longrightarrow> (\<exists>bytes. Packet_bytes i (e - i + 1) p' = Some bytes \<and> length bytes = unat (e - i + 1)))"
  proof (cases "k = 0")
    case True
    then show ?thesis by (simp add: e_def)
  next
    case False
    then have "i \<le> p_payloadEndIndex p'"
      using e by (simp add: p'_def word_le_nat_alt)
    from window_bytes [OF w' _ this] show ?thesis
      by (simp add: p'_def)
  qed
  ultimately show ?thesis
    using w' by (simp add: avail wp sends_def sendable_def)
qed

lemma available_sendable:
  assumes "sendable p"
  shows "ok (Packet_available i p) (sends i p)"
proof -
  have "p_getPayload p \<noteq> None" if "windowed p" using that by (auto simp: windowed_def)
  then have "ok (Packet_available i p) (sends i p)" if "windowed p" "p_size p \<le> i"
    using that by (auto simp: Packet_available_def wp sends_def sendable_def same_packet_def)
  with assms available_whole [of p i] available_header_window [of p i] available_payload_window [of p i]
  show ?thesis
    unfolding sendable_def by (meson linorder_not_le)
qed

lemma sendable_setDup: "sendable p \<Longrightarrow> sendable (Packet_setDup p)"
  by (auto simp: sendable_def whole_def windowed_def Packet_setDup_def split: option.splits)

lemma setDup_same: "p_size (Packet_setDup p) = p_size p" "p_packetId (Packet_setDup p) = p_packetId p"
  by (auto simp: Packet_setDup_def split: option.splits)

lemma setDup_type: "Packet_packetType (Packet_setDup p) = Packet_packetType p"
proof (cases "p_data p")
  case (Some data)
  have "(b OR 0x08) AND 0xF0 = b AND (0xF0 :: u8)" for b
    by (simp add: bit.conj_disj_distrib2)
  with Some show ?thesis by (cases data) (auto simp: Packet_setDup_def Packet_packetType_def)
qed (simp add: Packet_setDup_def)

subsection \<open>The constructors\<close>

text \<open>A call of a constructor that does not fault, and leaves a sendable packet if it succeeds.\<close>

definition builds :: "(Memory \<Rightarrow> (Error \<times> Packet) option) \<Rightarrow> bool" where
  "builds build \<longleftrightarrow> (\<forall>mem. ok (build mem) (\<lambda>(e, p). e = SUCCESS \<longrightarrow> sendable p))"

lemma sendable_packet_of: "length bytes < 2 ^ 32 \<Longrightarrow> sendable (packet_of packetId bytes)"
  by (simp add: sendable_def whole_def packet_of_def blank_def unat_of_nat32)

lemma wire_packet_short: "fits body \<Longrightarrow> length (wire_packet h body) < 2 ^ 32"
  using length_encode_cases [of "of_nat (length body)"]
  by (auto simp: length_wire_packet fits_def)

lemma sendable_wire: "fits body \<Longrightarrow> sendable (packet_of packetId (wire_packet h body))"
  by (rule sendable_packet_of) (rule wire_packet_short)

lemma builds_ack: "builds (\<lambda>mem. Packet_ack mem type packetId)"
  by (simp add: builds_def Packet_ack_eq wp sendable_wire wire_ack_def fits_def)

lemma builds_simple: "builds (\<lambda>mem. Packet_simple mem type)"
  by (simp add: builds_def Packet_simple_eq wp sendable_wire fits_def)

lemma builds_publish:
  assumes "qos \<le> 2" and "length topic \<le> 65535" and "fits (publish_body packetId topic payload qos)"
  shows "builds (\<lambda>mem. Packet_publish mem packetId topic payload (of_nat (length payload)) qos retain)"
proof -
  have w: "sendable (packet_of i (wire_publish False packetId topic payload qos retain))" for i
    unfolding wire_publish_def using assms(3) by (rule sendable_wire)
  show ?thesis
    unfolding builds_def
  proof
    fix mem
    show "ok (Packet_publish mem packetId topic payload (of_nat (length payload)) qos retain)
        (\<lambda>(e, p). e = SUCCESS \<longrightarrow> sendable p)"
      unfolding Packet_publish_eq [OF assms]
      by (cases "accepts mem True (of_nat (length (publish_body packetId topic payload qos)))")
        (simp_all only: ok_Some if_True if_False prod.case w simp_thms Error.distinct)
  qed
qed

lemma builds_publish_callback:
  assumes "qos \<le> 2" and "length topic \<le> 65535" and "0 < n"
    and short: "2 + length topic + (if qos = 0 then 0 else 2) + n \<le> 16383"
    and f: "\<forall>m i. length (f m i) \<le> unat m"
  shows "builds (\<lambda>mem. Packet_publish_callback mem packetId topic f (of_nat n) qos retain)"
proof -
  define hl where "hl = length (publish_body packetId topic [] qos)"
  define hdr where "hdr = publish_header False qos retain #
      encodeRemainingLength (of_nat (hl + n)) @ publish_body packetId topic [] qos"
  have hl: "hl + n \<le> 16383" "2 \<le> hl"
    using short by (auto simp: hl_def length_publish_body)
  then have vals: "unat (of_nat (hl + n) :: u32) = hl + n"
    "unat (of_nat (hl + min n 1440) :: u32) = hl + min n 1440"
    by (intro unat_of_nat32; simp)+
  have enc: "length (encodeRemainingLength (of_nat (hl + n))) =
      length (encodeRemainingLength (of_nat (hl + min n 1440)))"
    unfolding length_encode_cases vals using hl by (auto simp: min_def)
  have len: "length hdr = 1 + length (encodeRemainingLength (of_nat (hl + n))) + hl"
    by (simp add: hdr_def hl_def)
  have small: "length hdr + n < 4294967296"
    unfolding len length_encode_cases using hl by simp
  have eq: "hl + n \<le> 268435455" using hl by simp
  define H :: u32 where "H = of_nat (length hdr)"
  define S :: u32 where "S = of_nat (length hdr + n)"
  have HS: "unat H = length hdr" "unat S = length hdr + n"
    using small unfolding H_def S_def by (intro unat_of_nat32; simp)+
  have "windowed (blank packetId' (Some f)\<lparr>p_size := S,
             p_data := Some (hdr @ replicate (1 + length (encodeRemainingLength
                 (of_nat (hl + min n 1440))) + hl + min n 1440 - length hdr) 0),
             p_payloadIndex := H, p_payloadStartIndex := H, p_payloadEndIndex := H\<rparr>)" for packetId'
    using HS hl f assms(3) len enc by (simp add: windowed_def blank_def word_less_nat_alt min.commute)
  then have w: "sendable (blank packetId' (Some f)\<lparr>p_size := S,
             p_data := Some (hdr @ replicate (1 + length (encodeRemainingLength
                 (of_nat (hl + min n 1440))) + hl + min n 1440 - length hdr) 0),
             p_payloadIndex := H, p_payloadStartIndex := H, p_payloadEndIndex := H\<rparr>)" for packetId'
    by (simp add: sendable_def)
  note eq = Packet_publish_callback_eq [OF assms(1,2) eq [unfolded hl_def], where retain = retain and f = f,
      folded hl_def, folded hdr_def, folded H_def S_def]
  show ?thesis
    unfolding builds_def
  proof
    fix mem
    show "ok (Packet_publish_callback mem packetId topic f (of_nat n) qos retain)
        (\<lambda>(e, p). e = SUCCESS \<longrightarrow> sendable p)"
      unfolding eq by (cases "accepts mem True (of_nat (hl + min n 1440))")
        (simp_all only: ok_Some if_True if_False prod.case w simp_thms Error.distinct)
  qed
qed

lemma builds_subscribe:
  assumes "fits (subscribe_body packetId items)" and "\<forall>(topic, qos) \<in> set items. length topic \<le> 65535"
  shows "builds (\<lambda>mem. Packet_subscribe mem packetId items)"
  using assms by (simp add: builds_def Packet_subscribe_eq wp sendable_wire)

lemma builds_unsubscribe:
  assumes "fits (unsubscribe_body packetId topics)" and "\<forall>topic \<in> set topics. length topic \<le> 65535"
  shows "builds (\<lambda>mem. Packet_unsubscribe mem packetId topics)"
  using assms by (simp add: builds_def Packet_unsubscribe_eq wp sendable_wire)

lemma builds_connect:
  assumes "short_option clientId" and "short_option willTopic" and "will_memory willPayload n"
    and "short_option username" and "short_option password"
  shows "builds (\<lambda>mem. Packet_connect mem cleanSession username password willTopic willRetain
    willQos willPayload n keepAlive clientId)"
proof (cases "clientId = None \<or> clientId = Some []")
  case True
  then show ?thesis
    by (auto simp: builds_def Packet_connect_def effectiveWillLength_eq [OF assms(3)] wp)
next
  case False
  then obtain name where name: "clientId = Some name" "name \<noteq> []"
    by (cases clientId) auto
  with assms(1) have len: "length name \<le> 65535"
    by (simp add: short_option_def)
  show ?thesis
    using connect_fits [OF len assms(2,4,5)]
    by (simp add: builds_def name(1) Packet_connect_eq [OF name(2) len assms(3,2,4,5)] wp sendable_wire)
qed

subsection \<open>In transit\<close>

text \<open>A packet after any calls of \<open>available\<close>, for whatever indices, and of \<open>setDup\<close>.\<close>

inductive in_transit :: "Packet \<Rightarrow> Packet \<Rightarrow> bool" for p0 where
  built: "in_transit p0 p0"
| looked_at: "in_transit p0 p \<Longrightarrow> Packet_available i p = Some (n, p') \<Longrightarrow> in_transit p0 p'"
| sent_again: "in_transit p0 p \<Longrightarrow> in_transit p0 (Packet_setDup p)"

lemma in_transit_sendable: "in_transit p0 p \<Longrightarrow> sendable p0 \<Longrightarrow> sendable p \<and> same_packet p0 p"
proof (induction rule: in_transit.induct)
  case (looked_at p i n p')
  then show ?case
    using available_sendable [of p i] by (auto simp: ok_def sends_def same_packet_def)
next
  case (sent_again p)
  then show ?case by (simp add: sendable_setDup same_packet_def setDup_same setDup_type)
qed (simp add: same_packet_def)

text \<open>The calls of the constructors with arguments a packet can be made of. For a PUBLISH with payload
  callback these are a payload of at least one byte, a body of at most 16383 bytes and a callback that
  stores no more than it is allowed: the code is wrong outside these bounds (\<open>chunked_large_overrun\<close>).\<close>

inductive constructs :: "(Memory \<Rightarrow> (Error \<times> Packet) option) \<Rightarrow> bool" where
  connect: "short_option clientId \<Longrightarrow> short_option willTopic \<Longrightarrow> will_memory willPayload n \<Longrightarrow>
     short_option username \<Longrightarrow> short_option password \<Longrightarrow>
     constructs (\<lambda>mem. Packet_connect mem cleanSession username password willTopic willRetain
       willQos willPayload n keepAlive clientId)"
| publish: "qos \<le> 2 \<Longrightarrow> length topic \<le> 65535 \<Longrightarrow> fits (publish_body packetId topic payload qos) \<Longrightarrow>
     constructs (\<lambda>mem. Packet_publish mem packetId topic payload (of_nat (length payload)) qos retain)"
| publish_callback: "qos \<le> 2 \<Longrightarrow> length topic \<le> 65535 \<Longrightarrow> 0 < n \<Longrightarrow>
     2 + length topic + (if qos = 0 then 0 else 2) + n \<le> 16383 \<Longrightarrow>
     \<forall>maxSize index. length (f maxSize index) \<le> unat maxSize \<Longrightarrow>
     constructs (\<lambda>mem. Packet_publish_callback mem packetId topic f (of_nat n) qos retain)"
| subscribe: "fits (subscribe_body packetId items) \<Longrightarrow> \<forall>(topic, qos) \<in> set items. length topic \<le> 65535 \<Longrightarrow>
     constructs (\<lambda>mem. Packet_subscribe mem packetId items)"
| unsubscribe: "fits (unsubscribe_body packetId topics) \<Longrightarrow> \<forall>topic \<in> set topics. length topic \<le> 65535 \<Longrightarrow>
     constructs (\<lambda>mem. Packet_unsubscribe mem packetId topics)"
| ack: "constructs (\<lambda>mem. Packet_ack mem type packetId)"
| simple: "constructs (\<lambda>mem. Packet_simple mem type)"

lemma constructs_builds: "constructs build \<Longrightarrow> builds build"
  by (induction rule: constructs.induct)
    (blast intro: builds_connect builds_publish builds_publish_callback builds_subscribe builds_unsubscribe
      builds_ack builds_simple)+

text \<open>C29: No constructor writes outside its buffer, and what one builds stays a well-formed packet while it
  is sent and sent again: for every index, \<open>available\<close> returns, never announces more than what is left, and
  \<open>data\<close> then shows that many bytes inside the buffer, also when the payload comes from a callback; its type,
  id and size are those it was built with. This is for CONNECT, PUBLISH, SUBSCRIBE, UNSUBSCRIBE, the
  acknowledgements, PINGREQ and DISCONNECT with arguments that fit the encoding (\<open>constructs\<close>); a PUBLISH with
  payload callback needs a payload of at least one byte and a body of at most 16383 bytes, since the code
  gets the others wrong.\<close>

theorem packet_well_formed:
  assumes "constructs build" and "build mem = Some (SUCCESS, p0)" and "in_transit p0 p"
  shows "(\<forall>mem'. build mem' \<noteq> None) \<and>
    (\<exists>n p'. Packet_available i p = Some (n, p') \<and> unat n \<le> unat (Packet_size p0) - unat i \<and>
      (n \<noteq> 0 \<longrightarrow> (\<exists>bytes. Packet_bytes i n p' = Some bytes \<and> length bytes = unat n))) \<and>
    Packet_size p = Packet_size p0 \<and> Packet_packetId p = Packet_packetId p0 \<and>
    Packet_packetType p = Packet_packetType p0"
proof -
  note b = constructs_builds [OF assms(1), unfolded builds_def, rule_format]
  have "sendable p0"
    using b [of mem] assms(2) by (simp add: ok_def)
  moreover have "\<forall>mem'. build mem' \<noteq> None"
    using b by (fastforce simp: ok_def)
  moreover from in_transit_sendable [OF assms(3)] \<open>sendable p0\<close> have "sendable p" "same_packet p0 p" by simp_all
  ultimately show ?thesis
    using available_sendable [of p i]
    by (auto simp: ok_def sends_def same_packet_def Packet_size_def Packet_packetId_def)
qed

theorem packet_well_formed_witness:
  "\<exists>p n p'. Packet_publish_callback ample 7 [116] (\<lambda>m i. replicate (unat m) 5) 2000 1 False = Some (SUCCESS, p) \<and>
    Packet_available 1000 (Packet_setDup p) = Some (n, p')"
proof -
  let ?build = "\<lambda>mem. Packet_publish_callback mem 7 [116] (\<lambda>m i. replicate (unat m) 5) (of_nat 2000) 1 False"
  have b: "constructs ?build" by (rule constructs.publish_callback) simp_all
  have "fst (the (?build ample)) = SUCCESS"
    by (subst Packet_publish_callback_eq) (simp_all add: length_publish_body)
  with constructs_builds [OF b, unfolded builds_def, rule_format, of ample]
  obtain p where p: "?build ample = Some (SUCCESS, p)"
    by (auto simp: ok_def)
  with packet_well_formed [OF b p in_transit.sent_again [OF in_transit.built], of 1000] show ?thesis by auto
qed

end
