(* ===== verification/ParserDelivery.thy ===== *)
theory ParserDelivery
  imports ParserSpec StringUtil
begin

text \<open>
  What the client relies on when \<open>parse\<close> has delivered a packet: the topic is a terminated string,
  the payload pointer is valid for the bytes the callbacks read, a CONNACK has a known return code.
\<close>

definition suback_states :: "ParserFunc set" where
  "suback_states = {varHeaderPacketId1, varHeaderPacketId2, payloadSuback}"

definition buffer_inv :: "Parser \<Rightarrow> bool" where
  "buffer_inv p \<longleftrightarrow> i_topic (r_packet p) ! 128 = 0 \<and>
     (r_parse p \<in> suback_states \<and> typeBits p = SUBACK \<longrightarrow> i_data (r_packet p) = PayloadBuffer) \<and>
     (r_parse p \<in> suback_states \<longrightarrow> typeBits p \<noteq> CONNACK)"

definition parser_ok :: "Parser \<Rightarrow> bool" where
  "parser_ok p \<longleftrightarrow> parser_inv p \<and> buffer_inv p"

definition delivered :: "Parser \<Rightarrow> bool" where
  "delivered p \<longleftrightarrow>
     (typeBits p = SUBACK \<longrightarrow> i_data (r_packet p) = PayloadBuffer \<and> i_total (r_packet p) < 32) \<and>
     (typeBits p = CONNACK \<longrightarrow> i_returnCode (r_packet p) \<le> 5)"

lemma post_peek [wp]: "post (peek buf i) P = (i < length buf \<longrightarrow> P (buf ! i))"
  by (auto simp: post_def peek_def)

lemma post_poke [wp]: "post (poke buf i b) P = (i < length buf \<longrightarrow> P (buf[i := b]))"
  by (auto simp: post_def poke_def)

definition step_delivers :: "ParserResult \<times> Parser \<Rightarrow> bool" where
  "step_delivers = (\<lambda>(r, p'). buffer_inv p' \<and> (r = packet \<longrightarrow> delivered p'))"

lemmas delivery_defs = step_delivers_def buffer_inv_def delivered_def parser_inv_def parser_wf_def
  suback_states_def upd_def IncomingPacket_reset_def setSessionPresent_def setReturnCode_def
  packet_id_inv_def i_returnCode_def Let_def Parser_byte_def

lemma step_fixedHeader_delivers:
  assumes "parser_inv p" and "buffer_inv p" and "r_parse p = fixedHeader"
  shows "post (Parser_fixedHeader p) step_delivers"
  using assms by (simp add: Parser_fixedHeader_def wp delivery_defs)

lemma step_remaining_delivers:
  assumes "parser_inv p" and "buffer_inv p"
  shows "r_parse p = remainingLengthFixed \<Longrightarrow> post (Parser_remainingLengthFixed p) step_delivers"
    and "r_parse p = remainingLengthNone \<Longrightarrow> post (Parser_remainingLengthNone p) step_delivers"
  using assms
  by (auto simp: Parser_remainingLengthFixed_def Parser_remainingLengthNone_def wp delivery_defs)

lemma step_variable_delivers:
  assumes "parser_inv p" and "buffer_inv p" and "r_parse p = remainingLengthVariable"
  shows "post (Parser_remainingLengthVariable p) step_delivers"
  using assms
  by (auto simp: Parser_remainingLengthVariable_def wp delivery_defs intro!: post_trivial)

lemma step_header_delivers:
  assumes "parser_inv p" and "buffer_inv p"
  shows "r_parse p = varHeaderConnack1 \<Longrightarrow> post (Parser_varHeaderConnack1 p) step_delivers"
    and "r_parse p = varHeaderConnack2 \<Longrightarrow> post (Parser_varHeaderConnack2 p) step_delivers"
    and "r_parse p = varHeaderPacketId1 \<Longrightarrow> post (Parser_varHeaderPacketId1 p) step_delivers"
    and "r_parse p = varHeaderPacketId2 \<Longrightarrow> post (Parser_varHeaderPacketId2 p) step_delivers"
    and "r_parse p = varHeaderTopicLength1 \<Longrightarrow> post (Parser_varHeaderTopicLength1 p) step_delivers"
    and "r_parse p = varHeaderTopicLength2 \<Longrightarrow> post (Parser_varHeaderTopicLength2 p) step_delivers"
  using assms
  by (auto simp: Parser_varHeaderConnack1_def Parser_varHeaderConnack2_def Parser_varHeaderPacketId1_def
      Parser_varHeaderPacketId2_def Parser_varHeaderTopicLength1_def Parser_varHeaderTopicLength2_def
      wp delivery_defs)

lemma step_topic_delivers:
  assumes "parser_inv p" and "buffer_inv p" and "r_parse p = varHeaderTopic"
  shows "post (Parser_varHeaderTopic p) step_delivers"
proof -
  have pos: "r_bytePos p < 128" "unat (r_bytePos p) \<noteq> 128"
    using assms by (auto simp: parser_inv_def word_less_nat_alt)
  with assms show ?thesis
    by (simp add: Parser_varHeaderTopic_def wp delivery_defs nth_list_update)
qed

lemma step_payload_delivers:
  assumes "parser_inv p" and "buffer_inv p"
  shows "r_parse p = payloadSuback \<Longrightarrow> post (Parser_payloadSuback p) step_delivers"
    and "r_parse p = payloadPublish \<Longrightarrow> post (Parser_payloadPublish p) step_delivers"
  using assms by (auto simp: Parser_payloadSuback_def Parser_payloadPublish_def wp delivery_defs)

lemma step_delivers:
  assumes "parser_ok p"
  shows "post (Parser_step (r_parse p) p) step_delivers"
  using assms step_fixedHeader_delivers [of p] step_remaining_delivers [of p] step_variable_delivers [of p]
    step_header_delivers [of p] step_topic_delivers [of p] step_payload_delivers [of p]
  by (cases "r_parse p") (simp_all add: parser_ok_def)


lemma buffer_inv_bytesRead [simp]:
  "buffer_inv (p\<lparr>r_bytesRead := n\<rparr>) = buffer_inv p" "delivered (p\<lparr>r_bytesRead := n\<rparr>) = delivered p"
  by (simp_all add: buffer_inv_def delivered_def)

lemma loop_delivers:
  "parser_inv p \<Longrightarrow> buffer_inv p \<Longrightarrow> unat (r_len p) \<le> length (r_data p) \<Longrightarrow>
   post (Parser_loop p) step_delivers"
proof (induction p rule: Parser_loop.induct)
  case (1 p)
  show ?case
  proof (cases "r_bytesRead p < r_len p")
    case False
    with 1(3) show ?thesis
      by (subst Parser_loop.simps) (simp add: wp step_delivers_def)
  next
    case True
    then have byte: "has_byte p" using 1(4) by (simp add: has_byte_def)
    from step_safe [OF 1(2) byte] obtain r p' where step: "Parser_step (r_parse p) p = Some (r, p')"
      and res: "step_result p (r, p')"
      by (auto simp: ok_def)
    have del: "step_delivers (r, p')"
      using step_delivers [of p] 1(2,3) step by (simp add: parser_ok_def post_def)
    show ?thesis
    proof (cases "r = awaitData")
      case False
      with step True del show ?thesis
        by (subst Parser_loop.simps) (simp add: wp step_delivers_def)
    next
      case await: True
      have "post (Parser_loop (p'\<lparr>r_bytesRead := r_bytesRead p' + 1\<rparr>)) step_delivers"
        using 1(1) [OF True step refl refl await] res del await 1(4)
        by (simp add: step_result_def step_delivers_def)
      with step True await show ?thesis
        by (subst Parser_loop.simps) simp
    qed
  qed
qed

text \<open>One call, as the client makes it.\<close>

lemma parse_delivers:
  assumes ok: "parser_ok p" and len: "unat len \<le> length data"
  obtains r n p' where "Parser_parse data len p = Some (r, n, p')" and "n \<le> len" and "0 < len \<Longrightarrow> 0 < n"
    and "parser_wf p'" and "i_topic (r_packet p') ! 128 = 0" and "r \<noteq> protocolError \<Longrightarrow> parser_ok p'"
    and "r = packet \<Longrightarrow> delivered p'"
    and "r = packet \<Longrightarrow> typeBits p' = PUBLISH \<Longrightarrow> i_length (r_packet p') \<noteq> 0 \<Longrightarrow> Parser_payload p' \<noteq> None"
proof -
  from ok have inv: "parser_inv p" "buffer_inv p" by (simp_all add: parser_ok_def)
  from parse_safe [OF inv(1) len] obtain r n p' where
    parse: "Parser_parse data len p = Some (r, n, p')" and res: "parse_result len (r, n, p')"
    by (auto simp: ok_def)
  have pay: "r = packet \<Longrightarrow> typeBits p' = PUBLISH \<Longrightarrow> i_length (r_packet p') \<noteq> 0 \<Longrightarrow> Parser_payload p' \<noteq> None"
    by (rule parse_feeds [OF inv(1) len]) (use parse in auto)
  have "post (Parser_parse data len p) (\<lambda>(r, n, p'). step_delivers (r, p'))"
    using loop_delivers [of "p\<lparr>r_data := data, r_len := len, r_bytesRead := 0\<rparr>"] inv len
    by (auto simp: Parser_parse_def post_def bind_eq_Some buffer_inv_def delivered_def)
  with parse have "step_delivers (r, p')" by (simp add: post_def)
  then have del: "buffer_inv p'" "r = packet \<longrightarrow> delivered p'"
    by (simp_all add: step_delivers_def)
  have out: "n \<le> len" "0 < len \<longrightarrow> 0 < n" "parser_wf p'" "r \<noteq> protocolError \<longrightarrow> parser_inv p'"
    using res by (simp_all add: parse_result_def)
  show thesis
    using that [OF parse out(1) _ out(3)] out(2,4) del pay by (simp add: parser_ok_def buffer_inv_def)
qed

lemma parser_ok_init: "parser_ok Parser_init"
  using parser_init_inv by (simp add: parser_ok_def buffer_inv_def) (simp add: Parser_init_def suback_states_def)

lemma parser_ok_reset: "parser_wf p \<Longrightarrow> i_topic (r_packet p) ! 128 = 0 \<Longrightarrow> parser_ok (Parser_reset p)"
  using parser_reset_inv [of p]
  by (simp add: parser_ok_def buffer_inv_def)
    (simp add: Parser_reset_def suback_states_def upd_def IncomingPacket_reset_def)

lemma parser_ok_wf: "parser_ok p \<Longrightarrow> parser_wf p \<and> i_topic (r_packet p) ! 128 = 0"
  by (simp add: parser_ok_def parser_inv_def buffer_inv_def)

lemma topic_terminated: "parser_wf p \<Longrightarrow> i_topic (r_packet p) ! 128 = 0 \<Longrightarrow> strlen (i_topic (r_packet p)) \<noteq> None"
  using nth_mem [of 128 "i_topic (r_packet p)"] by (simp add: parser_wf_def strlen_def)

end
