(* ===== verification/ClientCalls.thy ===== *)
theory ClientCalls
  imports MqttClient PacketSafety ParserDelivery
begin

text \<open>
  The invariant of the client between two calls, and the calls of the user: none of them faults or
  waits for a semaphore that its own thread holds, and each keeps the invariant. A callback is user
  code that makes such calls, so that what holds of the calls holds of the callbacks.
\<close>

subsection \<open>Invariant\<close>

text \<open>
  A packet before the cursor has been sent and waits for an acknowledgement. If it is a PUBLISH it
  already carries the DUP flag, for the case that it is sent again.
\<close>

definition awaiting :: "OutgoingPacket \<Rightarrow> bool" where
  "awaiting x \<longleftrightarrow> \<not> Packet_removable (op_packet x) \<and>
     (op_packetType x = PUBLISH \<longrightarrow>
        (\<exists>b data. p_data (op_packet x) = Some (b # data) \<and> b AND PUBLISH_DUP \<noteq> 0))"

definition outbox_ok :: "OutgoingPacket queue \<Rightarrow> bool" where
  "outbox_ok q \<longleftrightarrow> snd q \<le> length (fst q) \<and> (\<forall>x \<in> set (fst q). sendable (op_packet x)) \<and>
     (\<forall>x \<in> set (take (snd q) (fst q)). awaiting x)"

definition active :: "State \<Rightarrow> bool" where
  "active s \<longleftrightarrow> s \<in> {connectingMqtt, connected, disconnectingMqtt1, disconnectingMqtt2}"

text \<open>
  The configuration: strings of at most 65535 bytes, and a will payload that can be read. A client id
  or a will is not required, and a will topic may come without a payload.
\<close>

definition config_ok :: "Config \<Rightarrow> bool" where
  "config_ok g \<longleftrightarrow> short_option (g_clientId g) \<and> short_option (g_willTopic g) \<and>
     will_memory (g_willPayload g) (g_willPayloadLength g) \<and>
     short_option (g_username g) \<and> short_option (g_password g)"

text \<open>Between two calls the semaphore is free.\<close>

definition client_inv :: "'w Client \<Rightarrow> bool" where
  "client_inv c \<longleftrightarrow> outbox_ok (c_outbox c) \<and> config_ok (c_config c) \<and> \<not> c_taken c \<and> parser_wf (c_parser c) \<and>
     i_topic (r_packet (c_parser c)) ! 128 = 0 \<and> (active (c_state c) \<longrightarrow> parser_ok (c_parser c))"

text \<open>
  What the client relies on: \<open>write\<close> reports no more bytes than it was given, unless it reports a
  negative value, and a positive result of \<open>read\<close> is the number of bytes it has stored.
\<close>

definition transport_ok :: "'w Env \<Rightarrow> bool" where
  "transport_ok env \<longleftrightarrow>
     (\<forall>bytes w. 0 < sint (fst (e_write env bytes w)) \<longrightarrow> unat (fst (e_write env bytes w)) \<le> length bytes) \<and>
     (\<forall>n w. 0 < sint (fst (fst (e_read env n w))) \<longrightarrow>
        unat (fst (fst (e_read env n w))) \<le> length (snd (fst (e_read env n w))))"

subsection \<open>Queues\<close>

lemma set_del_subset: "set (del k xs) \<subseteq> set xs"
  by (auto simp: del_def dest: in_set_takeD in_set_dropD)

lemma outbox_ok_emplace: "outbox_ok q \<Longrightarrow> sendable (op_packet x) \<Longrightarrow> outbox_ok (q_emplace x q)"
  by (cases q) (auto simp: outbox_ok_def q_emplace_def)

lemma outbox_ok_emplaceFront: "outbox_ok q \<Longrightarrow> sendable (op_packet x) \<Longrightarrow> outbox_ok (q_emplaceFront x q)"
  by (cases q) (auto simp: outbox_ok_def q_emplaceFront_def)

lemma take_del:
  "k < length xs \<Longrightarrow> set (take (if k < i then i - 1 else i) (del k xs)) \<subseteq> set (take i xs)"
proof (cases "k < i")
  case True
  then have "take (i - 1) (del k xs) = take k xs @ take (i - Suc k) (drop (Suc k) xs)" if "k < length xs"
    using that by (cases "i - 1 = k") (auto simp: del_def min_def)
  moreover have "set (take (i - Suc k) (drop (Suc k) xs)) \<subseteq> set (take i xs)"
    using True by (metis Suc_leI drop_take le_add_diff_inverse set_drop_subset take_drop)
  moreover have "set (take k xs) \<subseteq> set (take i xs)"
    using True by (simp add: set_take_subset_set_take)
  ultimately show "k < length xs \<Longrightarrow> ?thesis" using True by auto
next
  case False
  then show "k < length xs \<Longrightarrow> ?thesis" by (simp add: del_def)
qed

lemma outbox_ok_remove [simp]: "outbox_ok q \<Longrightarrow> outbox_ok (q_remove k q)"
proof -
  obtain xs i where q: "q = (xs, i)" by (cases q)
  assume "outbox_ok q"
  with take_del [of k xs i] set_del_subset [of k xs] show ?thesis
    unfolding q outbox_ok_def q_remove_def
    by (cases "k < i") (auto dest: subsetD)
qed

lemma outbox_ok_removeCurrent [simp]: "outbox_ok q \<Longrightarrow> outbox_ok (q_removeCurrent q)"
  by (simp add: q_removeCurrent_def)

lemma outbox_ok_next:
  "outbox_ok q \<Longrightarrow> (\<And>x. q_current q = Some x \<Longrightarrow> awaiting x) \<Longrightarrow> outbox_ok (q_next q)"
  by (cases q) (auto simp: outbox_ok_def q_next_def q_current_def take_Suc_conv_app_nth)

lemma outbox_ok_reset [simp]: "outbox_ok q \<Longrightarrow> outbox_ok (q_resetCurrent q)"
  by (cases q) (auto simp: outbox_ok_def q_resetCurrent_def)

lemma outbox_ok_write:
  "outbox_ok q \<Longrightarrow> (\<And>x. x \<in> set (fst q) \<Longrightarrow> sendable (op_packet (f x))) \<Longrightarrow> outbox_ok (q_write (snd q) f q)"
  by (cases q) (auto simp: outbox_ok_def q_write_def dest!: subsetD [OF set_update_subset_insert])

lemma outbox_ok_clear [simp]: "outbox_ok q \<Longrightarrow> outbox_ok (clear_from keep k q)"
proof (induction keep k q rule: clear_from.induct)
  case (1 keep k q)
  then show ?case
    by (subst clear_from.simps) simp
qed

lemma q_remove_emplaced: "q_remove (length (fst q)) (q_emplace x q) = (fst q, min (snd q) (length (fst q))) \<or> length (fst q) < snd q"
  by (cases q) (auto simp: q_remove_def q_emplace_def del_def)

lemma current_in: "q_current q = Some x \<Longrightarrow> x \<in> set (fst q) \<and> snd q < length (fst q) \<and> fst q ! snd q = x"
  by (cases q) (auto simp: q_current_def at_def split: if_splits)

lemma current_None: "q_current q = None \<longleftrightarrow> length (fst q) \<le> snd q"
  by (cases q) (auto simp: q_current_def at_def)

lemma semaphore_post [wp]:
  "post (semaphore_take c) P = (\<not> c_taken c \<longrightarrow> P (c\<lparr>c_taken := True\<rparr>))"
  "post (semaphore_give c) P = (c_taken c \<longrightarrow> P (c\<lparr>c_taken := False\<rparr>))"
  by (simp_all add: semaphore_take_def semaphore_give_def wp)

subsection \<open>Evolution\<close>

text \<open>
  What an operation other than the receive loop does to a client: the outbox stays sound, the
  configuration, the parser and the semaphore stay, the state stays or becomes one of \<open>S\<close>.
\<close>

definition evolves :: "State set \<Rightarrow> 'w Client \<Rightarrow> 'w Client \<Rightarrow> bool" where
  "evolves S c c' \<longleftrightarrow> (outbox_ok (c_outbox c) \<longrightarrow> outbox_ok (c_outbox c')) \<and> c_config c' = c_config c \<and>
     c_parser c' = c_parser c \<and> c_taken c' = c_taken c \<and> (c_state c' = c_state c \<or> c_state c' \<in> S)"

lemma evolves_refl [simp]: "evolves S c c"
  by (simp add: evolves_def)

lemma evolves_trans: "evolves S c c' \<Longrightarrow> evolves S c' c'' \<Longrightarrow> evolves S c c''"
  by (auto simp: evolves_def)

lemma evolves_mono: "evolves S c c' \<Longrightarrow> S \<subseteq> T \<Longrightarrow> evolves T c c'"
  by (auto simp: evolves_def)

lemma ask_fields [simp]:
  "ask f c = (x, c') \<Longrightarrow> c' = c\<lparr>c_world := snd (f (c_world c))\<rparr> \<and> x = fst (f (c_world c))"
  by (auto simp: ask_def split: prod.splits)

lemma ask_eq: "ask f c = (fst (f (c_world c)), c\<lparr>c_world := snd (f (c_world c))\<rparr>)"
  by (simp add: ask_def split: prod.split)

lemma evolves_ask [simp]: "evolves S c (snd (ask f c))"
  by (simp add: evolves_def ask_eq)

lemma evolves_then [simp]:
  assumes "evolves S c c'"
  shows "evolves S c (MqttClient_clearQueueData k c')" "evolves S c (removeAt j c')"
  using assms by (simp_all add: evolves_def MqttClient_clearQueueData_def removeAt_def)

lemma addPacket_evolves:
  assumes "builds build"
  shows "ok (MqttClient_addPacket env build c) (\<lambda>(added, c'). evolves S c c' \<and> c_packetId c' = c_packetId c \<and>
    c_bytesSent c' = c_bytesSent c \<and> c_events c' = c_events c \<and> c_state c' = c_state c)"
proof -
  obtain e p where make: "build (snd (fst (e_alloc env (c_world c)))) = Some (e, p)"
    and p: "e = SUCCESS \<longrightarrow> sendable p"
    using assms by (force simp: builds_def ok_def)
  have undo: "q_remove (length (fst q)) (q_emplace x q) = q" if "outbox_ok q" for q :: "OutgoingPacket queue" and x
    using that by (cases q) (auto simp: q_remove_def q_emplace_def del_def outbox_ok_def)
  show ?thesis
    using make p
    by (auto simp: MqttClient_addPacket_def ask_eq wp evolves_def undo outbox_ok_emplace Let_def
        split: prod.splits)
qed

lemma addPacketFront_evolves:
  assumes "builds build"
  shows "ok (MqttClient_addPacketFront env build c) (\<lambda>(added, c'). evolves S c c' \<and> c_packetId c' = c_packetId c \<and>
    c_bytesSent c' = c_bytesSent c \<and> c_events c' = c_events c \<and> c_state c' = c_state c)"
proof -
  obtain e p where make: "build (snd (fst (e_alloc env (c_world c)))) = Some (e, p)"
    and p: "e = SUCCESS \<longrightarrow> sendable p"
    using assms by (force simp: builds_def ok_def)
  have undo: "outbox_ok (q_remove 0 (q_emplaceFront x q))" if "outbox_ok q" for q :: "OutgoingPacket queue" and x
    using that by (cases q) (auto simp: q_remove_def q_emplaceFront_def del_def outbox_ok_def)
  show ?thesis
    using make p
    by (auto simp: MqttClient_addPacketFront_def ask_eq wp evolves_def undo outbox_ok_emplaceFront Let_def
        split: prod.splits)
qed

text \<open>How long a body is does not depend on the packet id or the flags.\<close>

lemma fits_any:
  "fits (publish_body i topic payload qos) = fits (publish_body 0 topic payload qos)"
  "fits (subscribe_body i items) = fits (subscribe_body 0 items)"
  "fits (unsubscribe_body i topics) = fits (unsubscribe_body 0 topics)"
  by (simp_all add: fits_def length_publish_body subscribe_body_def unsubscribe_body_def)

subsection \<open>The calls of the user\<close>

datatype Call =
    Connect
  | Disconnect bool
  | Publish cstring u8 bool "u8 list"
  | PublishCallback cstring u8 bool PayloadCallback nat
  | Subscribe "(cstring \<times> u8) list"
  | Unsubscribe "cstring list"
  | ClearQueue bool

fun perform_call :: "'w Env \<Rightarrow> Call \<Rightarrow> 'w Client \<Rightarrow> 'w Client option" where
  "perform_call env Connect c = map_option snd (MqttClient_connect env c)"
| "perform_call env (Disconnect force) c = Some (snd (MqttClient_disconnect force c))"
| "perform_call env (Publish topic qos retain payload) c =
     map_option snd (MqttClient_publish env topic qos retain payload (of_nat (length payload)) c)"
| "perform_call env (PublishCallback topic qos retain f n) c =
     map_option snd (MqttClient_publish_callback env topic qos retain f (of_nat n) c)"
| "perform_call env (Subscribe items) c = map_option snd (MqttClient_subscribe env items c)"
| "perform_call env (Unsubscribe topics) c = map_option snd (MqttClient_unsubscribe env topics c)"
| "perform_call env (ClearQueue deleteSessionData) c = MqttClient_clearQueue deleteSessionData c"

fun run_calls :: "'w Env \<Rightarrow> Call list \<Rightarrow> 'w Client \<Rightarrow> 'w Client option" where
  "run_calls env [] c = Some c"
| "run_calls env (a # as) c = do { c \<leftarrow> perform_call env a c; run_calls env as c }"

text \<open>
  Arguments a packet can be made of: a QoS of MQTT and lengths that fit the encoding. A PUBLISH with
  payload callback is restricted further, by what the code gets wrong (\<open>chunked_large_overrun\<close>): the payload
  has at least one byte, since an empty one is sent with a byte behind the buffer, and the body has at
  most 16383 bytes, since from 16384 on the buffer allocated is too small. The payload callback stores no
  more bytes than it is allowed. It is a function of its arguments: one that calls the client waits for
  the semaphore its own thread holds.
\<close>

fun valid_call :: "Call \<Rightarrow> bool" where
  "valid_call (Publish topic qos retain payload) \<longleftrightarrow> qos \<le> 2 \<and> length topic \<le> 65535 \<and>
     fits (publish_body 0 topic payload qos)"
| "valid_call (PublishCallback topic qos retain f n) \<longleftrightarrow> qos \<le> 2 \<and> length topic \<le> 65535 \<and> 0 < n \<and>
     2 + length topic + (if qos = 0 then 0 else 2) + n \<le> 16383 \<and> (\<forall>m i. length (f m i) \<le> unat m)"
| "valid_call (Subscribe items) \<longleftrightarrow> fits (subscribe_body 0 items) \<and>
     (\<forall>(topic, qos) \<in> set items. length topic \<le> 65535)"
| "valid_call (Unsubscribe topics) \<longleftrightarrow> fits (unsubscribe_body 0 topics) \<and>
     (\<forall>topic \<in> set topics. length topic \<le> 65535)"
| "valid_call a \<longleftrightarrow> True"

text \<open>So the constructors in the calls do not fault, with a valid configuration that of \<open>connect\<close> neither.\<close>

lemma call_builds:
  "valid_call (Publish topic qos retain payload) \<Longrightarrow>
    builds (\<lambda>mem. Packet_publish mem i topic payload (of_nat (length payload)) qos retain)"
  "valid_call (PublishCallback topic qos retain f n) \<Longrightarrow>
    builds (\<lambda>mem. Packet_publish_callback mem i topic f (of_nat n) qos retain)"
  "valid_call (Subscribe items) \<Longrightarrow> builds (\<lambda>mem. Packet_subscribe mem i items)"
  "valid_call (Unsubscribe topics) \<Longrightarrow> builds (\<lambda>mem. Packet_unsubscribe mem i topics)"
  by (auto intro!: builds_publish builds_publish_callback builds_subscribe builds_unsubscribe
      simp: fits_any [of i])

lemma config_builds:
  "config_ok g \<Longrightarrow> builds (\<lambda>mem. Packet_connect mem (g_cleanSession g) (g_username g) (g_password g)
    (g_willTopic g) (g_willRetain g) (g_willQos g) (g_willPayload g)
    (g_willPayloadLength g) (ucast (g_keepAlive g div 1000)) (g_clientId g))"
  by (rule builds_connect) (auto simp: config_ok_def)

text \<open>
  What a callback may do, the one for an error excepted: make such calls, in any number, depending on
  anything. The callback for an error must not make one that can fail again.
\<close>

fun allocates :: "Call \<Rightarrow> bool" where
  "allocates (Disconnect force) = False"
| "allocates (ClearQueue deleteSessionData) = False"
| "allocates _ = True"

fun isError :: "Event \<Rightarrow> bool" where
  "isError (OnError packetId error) = True"
| "isError _ = False"

definition reaction :: "Event \<Rightarrow> Call list \<Rightarrow> bool" where
  "reaction e as \<longleftrightarrow> (\<forall>a \<in> set as. valid_call a \<and> (isError e \<longrightarrow> \<not> allocates a))"

definition reacts_by_calls :: "'w Env \<Rightarrow> bool" where
  "reacts_by_calls env \<longleftrightarrow> (\<forall>e c. \<exists>as. reaction e as \<and> e_react env e c = run_calls env as c)"

text \<open>What calls do to the state of the client.\<close>

definition moves :: "State \<Rightarrow> State \<Rightarrow> bool" where
  "moves s s' \<longleftrightarrow> s' = s \<or> s = disconnected \<and> s' = connectingTcp1 \<or> s = connected \<and> s' = disconnectingMqtt1 \<or>
     s \<noteq> disconnectingTcp1 \<and> s \<noteq> disconnectingTcp2 \<and> s' = disconnectingTcp1"

lemma moves_refl [simp]: "moves s s"
  by (simp add: moves_def)

lemma moves_trans: "moves s s' \<Longrightarrow> moves s' s'' \<Longrightarrow> moves s s''"
  by (auto simp: moves_def)

text \<open>And to the rest of it.\<close>

definition called :: "'w Client \<Rightarrow> 'w Client \<Rightarrow> bool" where
  "called c c' \<longleftrightarrow> (outbox_ok (c_outbox c) \<longrightarrow> outbox_ok (c_outbox c')) \<and> c_config c' = c_config c \<and>
     c_parser c' = c_parser c \<and> c_taken c' = c_taken c \<and> c_bytesSent c' = c_bytesSent c \<and>
     moves (c_state c) (c_state c') \<and> (\<exists>es. c_events c' = c_events c @ es)"

lemma called_refl [simp]: "called c c"
  by (simp add: called_def)

lemma called_trans: "called c c' \<Longrightarrow> called c' c'' \<Longrightarrow> called c c''"
  by (force simp: called_def intro: moves_trans)

lemma called_ready: "called c c' \<Longrightarrow> config_ok (c_config c) \<and> \<not> c_taken c \<Longrightarrow> config_ok (c_config c') \<and> \<not> c_taken c'"
  by (simp add: called_def)

lemma called_inv: "called c c' \<Longrightarrow> client_inv c \<Longrightarrow> client_inv c'"
  by (auto simp: called_def client_inv_def moves_def active_def)

lemma run_calls_by:
  assumes "\<And>a c. a \<in> set as \<Longrightarrow> config_ok (c_config c) \<and> \<not> c_taken c \<Longrightarrow> ok (perform_call env a c) (called c)"
  shows "config_ok (c_config c) \<and> \<not> c_taken c \<Longrightarrow> ok (run_calls env as c) (called c)"
  using assms
proof (induction as arbitrary: c)
  case Nil
  then show ?case by (simp add: wp)
next
  case (Cons a as)
  obtain c1 where c1: "perform_call env a c = Some c1" "called c c1"
    using Cons.prems(2) [of a c] Cons.prems(1) by (auto simp: ok_def)
  have "ok (run_calls env as c1) (called c1)"
    by (rule Cons.IH [OF called_ready [OF c1(2) Cons.prems(1)]]) (simp add: Cons.prems(2))
  then have "ok (run_calls env as c1) (called c)"
    by (rule ok_mono) (rule called_trans [OF c1(2)])
  with c1(1) show ?case by (simp add: wp)
qed

subsection \<open>Calls that do not allocate, and the error callback\<close>

lemma disconnect_called: "called c (snd (MqttClient_disconnect force c))"
  by (auto simp: MqttClient_disconnect_def MqttClient_setState_def called_def moves_def)

lemma clearQueue_called: "\<not> c_taken c \<Longrightarrow> ok (MqttClient_clearQueue b c) (called c)"
  by (simp add: MqttClient_clearQueue_def with_semaphore_def semaphore_take_def semaphore_give_def wp
      MqttClient_clearQueueData_def called_def)

lemma error_reaction:
  assumes env: "reacts_by_calls env" and c: "config_ok (c_config c) \<and> \<not> c_taken c" and e: "isError e"
  shows "ok (e_react env e c) (called c)"
proof -
  obtain as where as: "reaction e as" "e_react env e c = run_calls env as c"
    using env by (auto simp: reacts_by_calls_def)
  have "ok (perform_call env a d) (called d)" if "a \<in> set as" "config_ok (c_config d) \<and> \<not> c_taken d" for a d
    using as(1) e that disconnect_called clearQueue_called
    by (cases a) (auto simp: reaction_def wp)
  from run_calls_by [OF this c] as(2) show ?thesis by simp
qed

lemma report_called:
  assumes env: "reacts_by_calls env" and c: "config_ok (c_config c)" "c_taken c"
  shows "ok (report env i c) (called c)"
proof -
  define d where "d = c\<lparr>c_taken := False, c_events := c_events c @ [OnError i OUT_OF_MEMORY]\<rparr>"
  have "ok (e_react env (OnError i OUT_OF_MEMORY) d) (called d)"
    by (rule error_reaction [OF env]) (use c in \<open>simp_all add: d_def\<close>)
  then have "ok (e_react env (OnError i OUT_OF_MEMORY) d) (\<lambda>c'. \<not> c_taken c' \<and> called c (c'\<lparr>c_taken := True\<rparr>))"
    by (rule ok_mono) (use c(2) in \<open>auto simp: d_def called_def\<close>)
  with c(2) show ?thesis
    by (simp add: report_def semaphore_give_def semaphore_take_def wp MqttClient_onError_def notify_def d_def ok_def)
      (auto simp: called_def)
qed

subsection \<open>Calls that add a packet\<close>

text \<open>What happens between taking the semaphore and giving it back.\<close>

definition holding :: "'w Client \<Rightarrow> 'w Client \<Rightarrow> bool" where
  "holding c c' \<longleftrightarrow> called (c\<lparr>c_taken := True\<rparr>) c'"

lemma holding_start: "holding c (c\<lparr>c_taken := True\<rparr>)"
  by (simp add: holding_def)

lemma holding_end: "holding c c' \<Longrightarrow> \<not> c_taken c \<Longrightarrow> c_taken c' \<and> called c (c'\<lparr>c_taken := False\<rparr>)"
  by (simp add: holding_def called_def)

lemma holding_taken: "holding c c' \<Longrightarrow> c_taken c' \<and> c_config c' = c_config c"
  by (simp add: holding_def called_def)

lemma holding_called: "holding c c' \<Longrightarrow> called c' c'' \<Longrightarrow> holding c c''"
  unfolding holding_def by (rule called_trans)

lemma evolves_called:
  "evolves {} c c' \<Longrightarrow> c_bytesSent c' = c_bytesSent c \<Longrightarrow> c_events c' = c_events c \<Longrightarrow> called c c'"
  by (simp add: evolves_def called_def)

lemma addPacket_called:
  "builds build \<Longrightarrow> ok (MqttClient_addPacket env build c) (\<lambda>(added, c'). called c c')"
  using addPacket_evolves [where S = "{}" and env = env and c = c] evolves_called by (fastforce simp: ok_def)

lemma addPacketFront_called:
  "builds build \<Longrightarrow> ok (MqttClient_addPacketFront env build c) (\<lambda>(added, c'). called c c' \<and> c_state c' = c_state c)"
  using addPacketFront_evolves [where S = "{}" and env = env and c = c] evolves_called by (fastforce simp: ok_def)

lemma ok_map_snd: "ok m (\<lambda>(r, c'). P c') \<Longrightarrow> ok (map_option snd m) P"
  by (auto simp: ok_def)

lemma ok_guard: "P (0, c) \<Longrightarrow> ok m P \<Longrightarrow> ok (if b then Some (0, c) else m) P"
  by (simp add: wp)

lemma next_id_called: "called c (snd (MqttClient_getNextPacketId c))"
  by (simp add: called_def MqttClient_getNextPacketId_def Let_def)

lemma add_and_give:
  assumes h: "holding c c1" and build: "\<And>i. builds (\<lambda>mem. mk mem i)" and c: "\<not> c_taken c"
    and fails: "\<And>i c'. holding c c' \<Longrightarrow> ok (failed i c') (called c')"
  shows "ok (do {
      (added, c') \<leftarrow> MqttClient_addPacket env (\<lambda>mem. mk mem i) c1;
      c' \<leftarrow> (if added then Some c' else failed i c');
      c' \<leftarrow> semaphore_give c';
      Some (if added then i else 0, c') }) (\<lambda>(r, c'). called c c')"
proof -
  obtain added c2 where add: "MqttClient_addPacket env (\<lambda>mem. mk mem i) c1 = Some (added, c2)" and "called c1 c2"
    using addPacket_called [OF build] by (force simp: ok_def)
  with h have c2: "holding c c2" by (blast intro: holding_called)
  have "ok (if added then Some c2 else failed i c2) (holding c)"
    using fails [OF c2, of i] c2 holding_called [OF c2] by (auto simp: ok_def)
  then obtain c3 where c3: "(if added then Some c2 else failed i c2) = Some c3" "holding c c3"
    by (auto simp only: ok_def)
  with add holding_end [OF c3(2) c] show ?thesis
    by (simp add: wp semaphore_give_def)
qed

lemma publish_called:
  assumes env: "reacts_by_calls env" and c: "config_ok (c_config c) \<and> \<not> c_taken c" and build: "\<And>i. builds (\<lambda>mem. mk mem i)"
  shows "ok (do {
      c \<leftarrow> semaphore_take c;
      let (packetId, c) = (if qos > 0 then MqttClient_getNextPacketId c else (1, c));
      (added, c) \<leftarrow> MqttClient_addPacket env (\<lambda>mem. mk mem packetId) c;
      c \<leftarrow> (if added then Some c else report env packetId c);
      c \<leftarrow> semaphore_give c;
      Some (if added then packetId else 0, c) }) (\<lambda>(r, c'). called c c')"
proof -
  define r where "r = (if qos > 0 then MqttClient_getNextPacketId (c\<lparr>c_taken := True\<rparr>) else (1, c\<lparr>c_taken := True\<rparr>))"
  have h: "holding c (snd r)"
    unfolding r_def by (auto intro: holding_start holding_called [OF holding_start next_id_called])
  have fails: "ok (report env i c') (called c')" if "holding c c'" for i c'
    using report_called [OF env] holding_taken [OF that] c by simp
  obtain i c1 where r: "r = (i, c1)" by (cases r)
  with h have "holding c c1" by simp
  from add_and_give [where mk = mk and env = env and i = i and failed = "report env", OF this build _ fails] c show ?thesis
    by (simp add: wp semaphore_take_def Let_def r_def [symmetric] r)
qed

lemma subscribe_called:
  assumes c: "config_ok (c_config c) \<and> \<not> c_taken c" and build: "\<And>i. builds (\<lambda>mem. mk mem i)"
  shows "ok (do {
      c \<leftarrow> semaphore_take c;
      let (packetId, c) = MqttClient_getNextPacketId c;
      (added, c) \<leftarrow> MqttClient_addPacket env (\<lambda>mem. mk mem packetId) c;
      c \<leftarrow> semaphore_give c;
      Some (if added then packetId else 0, c) }) (\<lambda>(r, c'). called c c')"
proof -
  define r where "r = MqttClient_getNextPacketId (c\<lparr>c_taken := True\<rparr>)"
  have h: "holding c (snd r)"
    unfolding r_def by (rule holding_called [OF holding_start next_id_called])
  obtain i c1 where r: "r = (i, c1)" by (cases r)
  with h have "holding c c1" by simp
  from add_and_give [where mk = mk and env = env and i = i and failed = "\<lambda>i. Some", OF this build] c show ?thesis
    by (simp add: wp semaphore_take_def Let_def r_def [symmetric] r)
qed

lemma connect_called:
  assumes env: "reacts_by_calls env" and c: "config_ok (c_config c) \<and> \<not> c_taken c"
  shows "ok (MqttClient_connect env c) (\<lambda>(r, c'). called c c')"
proof -
  let ?g = "c_config c"
  let ?build = "\<lambda>mem. Packet_connect mem (g_cleanSession ?g) (g_username ?g) (g_password ?g)
        (g_willTopic ?g) (g_willRetain ?g) (g_willQos ?g) (g_willPayload ?g)
        (g_willPayloadLength ?g) (ucast (g_keepAlive ?g div 1000)) (g_clientId ?g)"
  show ?thesis
  proof (cases "c_state c = disconnected")
    case False
    then show ?thesis by (simp add: MqttClient_connect_def wp)
  next
    case True
    define c1 where "c1 = c\<lparr>c_taken := True\<rparr>"
    from addPacketFront_called [OF config_builds, of ?g env c1] c obtain added c2 where
      add: "MqttClient_addPacketFront env ?build c1 = Some (added, c2)" and c2: "called c1 c2" "c_state c2 = c_state c1"
      by (auto simp: ok_def)
    have h: "holding c c2" using c2(1) holding_called [OF holding_start] by (simp add: c1_def)
    have "called c2 (MqttClient_setState connectingTcp1 c2)"
      using c2(2) True by (simp add: called_def MqttClient_setState_def moves_def c1_def)
    moreover have "ok (report env 0 c2) (called c2)"
      using report_called [OF env] holding_taken [OF h] c by simp
    ultimately have "ok (if added then Some (MqttClient_setState connectingTcp1 c2) else report env 0 c2) (called c2)"
      by (simp add: wp)
    then obtain c3 where
      c3: "(if added then Some (MqttClient_setState connectingTcp1 c2) else report env 0 c2) = Some c3" "called c2 c3"
      by (auto simp only: ok_def)
    with holding_end [OF holding_called [OF h c3(2)]] add c True show ?thesis
      by (simp add: MqttClient_connect_def semaphore_take_def semaphore_give_def wp flip: c1_def)
  qed
qed

lemma perform_called:
  assumes env: "reacts_by_calls env" and a: "valid_call a" and c: "config_ok (c_config c) \<and> \<not> c_taken c"
  shows "ok (perform_call env a c) (called c)"
proof (cases a)
  case Connect
  then show ?thesis using connect_called [OF env c] by (simp add: ok_map_snd)
next
  case (Disconnect force)
  then show ?thesis by (simp add: wp disconnect_called)
next
  case (Publish topic qos retain payload)
  note st = publish_called [where mk = "\<lambda>mem i. Packet_publish mem i topic payload (of_nat (length payload)) qos retain"
      and qos = qos, OF env c call_builds(1) [OF a [unfolded Publish]]]
  show ?thesis
    unfolding Publish perform_call.simps MqttClient_publish_def
    by (rule ok_map_snd, rule ok_guard, simp, rule st)
next
  case (PublishCallback topic qos retain f n)
  note st = publish_called [where mk = "\<lambda>mem i. Packet_publish_callback mem i topic f (of_nat n) qos retain"
      and qos = qos, OF env c call_builds(2) [OF a [unfolded PublishCallback]]]
  show ?thesis
    unfolding PublishCallback perform_call.simps MqttClient_publish_callback_def
    by (rule ok_map_snd, rule ok_guard, simp, rule st)
next
  case (Subscribe items)
  note st = subscribe_called [where mk = "\<lambda>mem i. Packet_subscribe mem i items" and env = env,
      OF c call_builds(3) [OF a [unfolded Subscribe]]]
  show ?thesis
    unfolding Subscribe perform_call.simps MqttClient_subscribe_def
    by (rule ok_map_snd, rule ok_guard, simp, rule st)
next
  case (Unsubscribe topics)
  note st = subscribe_called [where mk = "\<lambda>mem i. Packet_unsubscribe mem i topics" and env = env,
      OF c call_builds(4) [OF a [unfolded Unsubscribe]]]
  show ?thesis
    unfolding Unsubscribe perform_call.simps MqttClient_unsubscribe_def
    by (rule ok_map_snd, rule ok_guard, simp, rule st)
next
  case (ClearQueue b)
  with c show ?thesis by (simp add: clearQueue_called)
qed

lemma run_calls_called:
  assumes "reacts_by_calls env" and "\<forall>a \<in> set as. valid_call a" and "config_ok (c_config c) \<and> \<not> c_taken c"
  shows "ok (run_calls env as c) (called c)"
  by (rule run_calls_by [OF _ assms(3)]) (simp add: perform_called assms(1,2))

subsection \<open>Callbacks\<close>

lemma react_called:
  assumes env: "reacts_by_calls env" and c: "config_ok (c_config c) \<and> \<not> c_taken c"
  shows "ok (e_react env e c) (called c)"
proof -
  obtain as where as: "reaction e as" "e_react env e c = run_calls env as c"
    using env by (auto simp: reacts_by_calls_def)
  have "\<forall>a \<in> set as. valid_call a" using as(1) by (simp add: reaction_def)
  from run_calls_called [OF env this c] as(2) show ?thesis by simp
qed

lemma notify_called:
  assumes env: "reacts_by_calls env" and c: "config_ok (c_config c) \<and> \<not> c_taken c"
  shows "ok (notify env isSet e c) (called c)"
proof -
  have "ok (e_react env e (c\<lparr>c_events := c_events c @ [e]\<rparr>)) (called (c\<lparr>c_events := c_events c @ [e]\<rparr>))"
    by (rule react_called [OF env]) (use c in simp)
  then have "ok (e_react env e (c\<lparr>c_events := c_events c @ [e]\<rparr>)) (called c)"
    by (rule ok_mono) (auto simp: called_def)
  then show ?thesis by (simp add: notify_def wp)
qed

lemma callback_notify:
  "c_taken c \<Longrightarrow> callback env isSet e c =
     (if isSet (c_config c) then do { c \<leftarrow> notify env isSet e (c\<lparr>c_taken := False\<rparr>); semaphore_take c } else Some c)"
  by (simp add: callback_def notify_def semaphore_give_def)

lemma callback_called:
  assumes env: "reacts_by_calls env" and c: "config_ok (c_config c)" "c_taken c"
  shows "ok (callback env isSet e c) (called c)"
proof -
  have "ok (notify env isSet e (c\<lparr>c_taken := False\<rparr>)) (called (c\<lparr>c_taken := False\<rparr>))"
    by (rule notify_called [OF env]) (use c in simp)
  then have "ok (notify env isSet e (c\<lparr>c_taken := False\<rparr>)) (\<lambda>c'. \<not> c_taken c' \<and> called c (c'\<lparr>c_taken := True\<rparr>))"
    by (rule ok_mono) (use c(2) in \<open>auto simp: called_def\<close>)
  then show ?thesis
    using c(2) by (auto simp: callback_notify wp semaphore_take_def ok_def)
qed

text \<open>
  User code in general: \<open>prog\<close> says which calls it makes, from the event and all it can see of the
  client. It does as it is required to, if it makes no calls after an error.
\<close>

definition reacting :: "(Event \<Rightarrow> 'w Client \<Rightarrow> Call list) \<Rightarrow> 'w Env \<Rightarrow> 'w Env" where
  "reacting prog env = env\<lparr>e_react := (\<lambda>e c. run_calls (env\<lparr>e_react := \<lambda>e c. Some c\<rparr>) (prog e c) c)\<rparr>"

lemma perform_call_cong:
  assumes "e_alloc env = e_alloc env'" and "e_allowNotConnectedPublish env = e_allowNotConnectedPublish env'"
    and "\<And>i x c. e_react env (OnError i x) c = e_react env' (OnError i x) c"
  shows "perform_call env a c = perform_call env' a c"
proof -
  have "MqttClient_addPacket env = MqttClient_addPacket env'" "MqttClient_addPacketFront env = MqttClient_addPacketFront env'"
    "mayPublish env = mayPublish env'" "MqttClient_onError env = MqttClient_onError env'"
    by (intro ext, simp add: MqttClient_addPacket_def MqttClient_addPacketFront_def mayPublish_def
        MqttClient_onError_def notify_def assms)+
  note eq = this
  have "report env = report env'"
    by (intro ext) (simp add: report_def eq)
  note eq = eq this
  have "MqttClient_connect env = MqttClient_connect env'" "MqttClient_publish env = MqttClient_publish env'"
    "MqttClient_publish_callback env = MqttClient_publish_callback env'"
    "MqttClient_subscribe env = MqttClient_subscribe env'" "MqttClient_unsubscribe env = MqttClient_unsubscribe env'"
    unfolding MqttClient_connect_def MqttClient_publish_def MqttClient_publish_callback_def
        MqttClient_subscribe_def MqttClient_unsubscribe_def eq by (rule refl)+
  then show ?thesis by (cases a) simp_all
qed

lemma run_calls_cong:
  assumes "e_alloc env = e_alloc env'" and "e_allowNotConnectedPublish env = e_allowNotConnectedPublish env'"
    and "\<And>i x c. e_react env (OnError i x) c = e_react env' (OnError i x) c"
  shows "run_calls env as = run_calls env' as"
  by (induction as) (auto intro!: ext simp: perform_call_cong [OF assms])

lemma reacting_by_calls:
  assumes "\<And>e c a. a \<in> set (prog e c) \<Longrightarrow> valid_call a" and "\<And>i x c. prog (OnError i x) c = []"
  shows "reacts_by_calls (reacting prog env)"
proof -
  have "run_calls (reacting prog env) as = run_calls (env\<lparr>e_react := \<lambda>e c. Some c\<rparr>) as" for as
    by (rule run_calls_cong) (simp_all add: reacting_def assms(2))
  moreover have "reaction e (prog e c)" for e c
    using assms by (cases e) (simp_all add: reaction_def)
  ultimately show ?thesis
    by (auto simp: reacts_by_calls_def reacting_def)
qed

lemma silent_by_calls [simp]: "(\<And>e c. e_react env e c = Some c) \<Longrightarrow> reacts_by_calls env"
  unfolding reacts_by_calls_def by (intro allI exI [of _ "[]"]) (simp add: reaction_def)

end
