(* ===== verification/ClientSafety.thy ===== *)
theory ClientSafety
  imports ClientCalls
begin

text \<open>
  What each operation of the client does to its invariant: none faults or waits for itself, every
  loop ends, the outbox only ever holds packets that can be sent, and the parser is in a legal state
  whenever the client reads from the transport.
\<close>

subsection \<open>Sending\<close>

text \<open>
  What is left of the outbox to send, as a measure: packets from the cursor on, then bytes of the
  current packet.
\<close>

definition current_size :: "'w Client \<Rightarrow> nat" where
  "current_size c = (case q_current (c_outbox c) of None \<Rightarrow> 0 | Some x \<Rightarrow> unat (p_size (op_packet x)))"

definition to_send :: "'w Client \<Rightarrow> nat" where
  "to_send c = length (fst (c_outbox c)) - snd (c_outbox c)"

lemma current_write:
  "q_current q = Some x \<Longrightarrow> q_current (q_write (snd q) f q) = Some (f x)"
  by (cases q) (auto simp: q_current_def q_write_def at_def split: if_splits)

lemma q_write_fields [simp]: "snd (q_write k f q) = snd q" "length (fst (q_write k f q)) = length (fst q)"
  by (cases q, simp add: q_write_def)+

lemma writeCurrent_ok:
  assumes "outbox_ok (c_outbox c)" and "q_current (c_outbox c) = Some x" and "sendable (op_packet (f x))"
  shows "outbox_ok (c_outbox (writeCurrent f c))"
proof -
  obtain xs i where q: "c_outbox c = (xs, i)" by (cases "c_outbox c")
  with assms(2) have "i < length xs" "xs ! i = x"
    by (auto simp: q_current_def at_def split: if_splits)
  with assms q show ?thesis
    by (auto simp: writeCurrent_def q_write_def outbox_ok_def dest!: subsetD [OF set_update_subset_insert])
qed

lemma writeCurrent_fields [simp]:
  "c_state (writeCurrent f c) = c_state c" "c_parser (writeCurrent f c) = c_parser c"
  "c_config (writeCurrent f c) = c_config c" "c_bytesSent (writeCurrent f c) = c_bytesSent c"
  "c_world (writeCurrent f c) = c_world c" "c_events (writeCurrent f c) = c_events c"
  "c_outbox (writeCurrent f c) = q_write (snd (c_outbox c)) f (c_outbox c)"
  "c_lastServerActivity (writeCurrent f c) = c_lastServerActivity c"
  "c_packetId (writeCurrent f c) = c_packetId c" "c_taken (writeCurrent f c) = c_taken c"
  by (simp_all add: writeCurrent_def)

definition progress :: "'w Client \<Rightarrow> int \<times> 'w Client \<Rightarrow> bool" where
  "progress c = (\<lambda>(n, c'). 0 < n \<longrightarrow>
     q_current (c_outbox c') \<noteq> None \<and> current_size c' = current_size c \<and> to_send c' = to_send c \<and>
     unat (c_bytesSent c) < unat (c_bytesSent c') \<and> unat (c_bytesSent c') \<le> current_size c')"

lemma sint_pos_unat: "0 < sint (w :: u32) \<Longrightarrow> 0 < unat w"
  by (metis less_irrefl neq0_conv sint_0 unat_eq_0)

lemma sendPacket_evolves:
  assumes env: "transport_ok env" and ob: "outbox_ok (c_outbox c)"
  shows "ok (MqttClient_sendPacket env c) (\<lambda>(n, c'). evolves S c c' \<and> progress c (n, c'))"
proof (cases "q_current (c_outbox c)")
  case None
  then show ?thesis by (simp add: MqttClient_sendPacket_def wp progress_def)
next
  case (Some x)
  define i where "i = c_bytesSent c"
  have "sendable (op_packet x)"
    using current_in [OF Some] ob by (auto simp: outbox_ok_def)
  from available_sendable [OF this, of i] obtain want p where
    avail: "Packet_available i (op_packet x) = Some (want, p)" and sends: "sends i (op_packet x) (want, p)"
    by (auto simp: ok_def)
  from sends have p: "sendable p" "p_size p = p_size (op_packet x)"
    "unat want \<le> unat (p_size p) - unat i"
    by (auto simp: sends_def same_packet_def)
  define c1 where "c1 = writeCurrent (\<lambda>x. x\<lparr>op_packet := p\<rparr>) c"
  have c1: "outbox_ok (c_outbox c1)" "q_current (c_outbox c1) = Some (x\<lparr>op_packet := p\<rparr>)"
    unfolding c1_def using writeCurrent_ok [OF ob Some] p(1) by (simp_all add: current_write [OF Some])
  show ?thesis
  proof (cases "want = 0")
    case True
    have "MqttClient_sendPacket env c = Some (0, c1)"
      using Some avail True by (simp add: MqttClient_sendPacket_def i_def c1_def Let_def)
    with c1 show ?thesis
      by (simp add: wp evolves_def progress_def c1_def)
  next
    case False
    with sends obtain bytes where bytes: "Packet_bytes i want p = Some bytes" "length bytes = unat want"
      by (auto simp: sends_def)
    define written where "written = fst (e_write env bytes (c_world c))"
    define c2 where "c2 = snd (the (MqttClient_sendPacket env c))"
    define t where "t = fst (e_millis env (snd (e_write env bytes (c_world c))))"
    have eq: "MqttClient_sendPacket env c = Some (sint written, c2)"
      and c2: "c_outbox c2 = c_outbox (writeCurrent (\<lambda>x. x\<lparr>op_timeSent := t\<rparr>) c1)"
        "c_state c2 = c_state c" "c_parser c2 = c_parser c" "c_config c2 = c_config c" "c_taken c2 = c_taken c"
        "c_bytesSent c2 = i + written"
      unfolding c2_def using Some avail False bytes
      by (simp_all add: MqttClient_sendPacket_def ask_eq Let_def written_def t_def c1_def flip: i_def)
    have "outbox_ok (c_outbox c2)"
      unfolding c2(1) using c1 p(1) by (intro writeCurrent_ok) auto
    moreover have "progress c (sint written, c2)"
    proof -
      have cur: "q_current (c_outbox c2) = Some (x\<lparr>op_packet := p, op_timeSent := t\<rparr>)"
        unfolding c2(1) using c1(2) by (simp add: current_write)
      have "unat (i + written) = unat i + unat written" "0 < unat written"
          "unat written \<le> unat (p_size p) - unat i" "unat i < unat (p_size p)"
        if pos: "0 < sint written"
      proof -
        show w: "0 < unat written" using pos by (rule sint_pos_unat)
        have "unat written \<le> unat want"
          using env pos bytes(2) unfolding transport_ok_def written_def by metis
        then show le: "unat written \<le> unat (p_size p) - unat i" using p(3) by simp
        with w show "unat i < unat (p_size p)" by simp
        with le show "unat (i + written) = unat i + unat written"
          using u32_bound [of "p_size p"] by (subst unat_add_lem [THEN iffD1]) simp_all
      qed
      moreover have "to_send c2 = to_send c" "current_size c2 = unat (p_size p)" "current_size c = unat (p_size p)"
        using cur Some p(2) by (simp_all add: to_send_def current_size_def c2(1) c1_def)
      ultimately show ?thesis
        using cur c2(6) by (cases "0 < sint written") (simp_all add: progress_def i_def)
    qed
    ultimately show ?thesis
      using eq c2 by (simp add: wp evolves_def)
  qed
qed


lemma setDup_awaiting:
  assumes "\<not> Packet_removable (op_packet x)" and "op_packetType x = PUBLISH"
  shows "awaiting (x\<lparr>op_packet := Packet_setDup (op_packet x)\<rparr>)"
proof -
  from assms(2) obtain b data where d: "p_data (op_packet x) = Some (b # data)" "b AND 0xF0 = PUBLISH"
    by (auto simp: op_packetType_def Packet_packetType_def split: option.splits list.splits)
  have id: "p_packetId (op_packet x) \<noteq> 0" using assms(1) by (auto simp: Packet_removable_def)
  with d(1,2) have s: "Packet_setDup (op_packet x) = (op_packet x)\<lparr>p_data := Some ((b OR 0x08) # data)\<rparr>"
    by (simp add: Packet_setDup_def Packet_packetType_def)
  have "(b OR 0x08) AND 0xF0 = PUBLISH" using d(2) by (simp add: bit.conj_disj_distrib2)
  moreover have "(b OR 0x08) AND 0x08 \<noteq> 0" by (simp add: bit.conj_disj_distrib2)
  ultimately show ?thesis
    using id d s by (simp add: awaiting_def Packet_removable_def Packet_packetType_def)
qed

definition advanced :: "'w Client \<Rightarrow> bool \<times> 'w Client \<Rightarrow> bool" where
  "advanced c = (\<lambda>(any, c').
     (any \<longleftrightarrow> q_current (c_outbox c') \<noteq> None) \<and> (to_send c' < to_send c \<or> any \<and> c' = c \<or> \<not> any))"

lemma advanceOutbox_advances: "advanced c (MqttClient_advanceOutbox c)"
proof (cases "q_current (c_outbox c)")
  case None
  then show ?thesis by (simp add: MqttClient_advanceOutbox_def advanced_def)
next
  case (Some x)
  obtain xs i where q: "c_outbox c = (xs, i)" by (cases "c_outbox c")
  have step: "to_send (c\<lparr>c_outbox := q_removeCurrent (xs, i)\<rparr>) < to_send c"
    "to_send (c\<lparr>c_outbox := q_next (xs, i)\<rparr>) < to_send c" if "i < length xs"
    using that q by (auto simp: to_send_def q_removeCurrent_def q_remove_def q_next_def)
  have "i < length xs" using Some q by (auto simp: q_current_def at_def split: if_splits)
  with Some q step show ?thesis
    by (auto simp: MqttClient_advanceOutbox_def advanced_def MqttClient_setState_def writeCurrent_def
        to_send_def q_removeCurrent_def q_remove_def q_next_def q_write_def Let_def)
qed

lemma advanceOutbox_evolves:
  assumes "outbox_ok (c_outbox c)"
  shows "evolves {disconnectingTcp1} c (snd (MqttClient_advanceOutbox c))"
proof -
  obtain xs i where q: "c_outbox c = (xs, i)" by (cases "c_outbox c")
  have w: "outbox_ok (q_next (q_write i (\<lambda>x. x\<lparr>op_packet := Packet_setDup (op_packet x)\<rparr>) (xs, i)))"
    if "q_current (c_outbox c) = Some x" "\<not> Packet_removable (op_packet x)" "op_packetType x = PUBLISH" for x
  proof -
    let ?f = "\<lambda>x. x\<lparr>op_packet := Packet_setDup (op_packet x)\<rparr>"
    have "outbox_ok (q_write (snd (xs, i)) ?f (xs, i))"
      using assms q by (intro outbox_ok_write) (auto simp: outbox_ok_def sendable_setDup)
    moreover have "awaiting (?f x)"
      using setDup_awaiting that(2,3) by blast
    ultimately show ?thesis
      using current_write [OF that(1), of ?f] q by (intro outbox_ok_next) auto
  qed
  have n: "outbox_ok (q_next (xs, i))"
    if "q_current (c_outbox c) = Some x" "\<not> Packet_removable (op_packet x)" "op_packetType x \<noteq> PUBLISH" for x
    using assms q that by (intro outbox_ok_next) (auto simp: awaiting_def)
  show "evolves {disconnectingTcp1} c (snd (MqttClient_advanceOutbox c))"
    using assms w n q
    by (auto simp: MqttClient_advanceOutbox_def evolves_def MqttClient_setState_def writeCurrent_def Let_def
        split: option.split)
qed

text \<open>The loop ends: each round moves on in the outbox, or in the current packet.\<close>

lemma checkOutbox_evolves:
  assumes env: "transport_ok env"
  shows "outbox_ok (c_outbox c) \<Longrightarrow> ok (MqttClient_checkOutbox env c) (evolves {disconnectingTcp1} c)"
proof (induction "(to_send c, current_size c - unat (c_bytesSent c))" arbitrary: c
    rule: wf_induct_rule [OF wf_lex_prod [OF wf_less_than wf_less_than], case_names less])
  case (less c)
  obtain n c1 where send: "MqttClient_sendPacket env c = Some (n, c1)"
    and c1: "evolves {disconnectingTcp1} c c1" and prog: "progress c (n, c1)"
    using sendPacket_evolves [OF env less.prems, of "{disconnectingTcp1}"] by (auto simp: ok_def)
  obtain any c2 where adv: "MqttClient_advanceOutbox c1 = (any, c2)" by (cases "MqttClient_advanceOutbox c1")
  have ob1: "outbox_ok (c_outbox c1)" using c1 less.prems by (simp add: evolves_def)
  have c2: "evolves {disconnectingTcp1} c1 c2" "advanced c1 (any, c2)"
    using advanceOutbox_evolves [OF ob1] advanceOutbox_advances [of c1] adv by simp_all
  have c02: "evolves {disconnectingTcp1} c c2" using evolves_trans [OF c1 c2(1)] .
  show ?case
  proof (cases "0 < n \<and> any")
    case False
    with send adv c1 c02 show ?thesis
      by (subst MqttClient_checkOutbox.simps) (auto simp: wp)
  next
    case True
    have "((to_send c2, current_size c2 - unat (c_bytesSent c2)), (to_send c, current_size c - unat (c_bytesSent c)))
        \<in> less_than <*lex*> less_than"
      using True prog c2(2) by (auto simp: progress_def advanced_def)
    moreover have "outbox_ok (c_outbox c2)" using c02 less.prems by (simp add: evolves_def)
    ultimately have "ok (MqttClient_checkOutbox env c2) (evolves {disconnectingTcp1} c2)"
      by (rule less.hyps)
    then have "ok (MqttClient_checkOutbox env c2) (evolves {disconnectingTcp1} c)"
      by (rule ok_mono) (rule evolves_trans [OF c02])
    with send adv True show ?thesis
      by (subst MqttClient_checkOutbox.simps) (simp add: wp)
  qed
qed

subsection \<open>Keep-alive and retries\<close>

lemma checkPing_evolves:
  "ok (MqttClient_checkPing env c) (evolves {disconnectingTcp1} c)"
proof -
  define w where "w = snd (e_clock env (c_world c))"
  have same: "evolves {disconnectingTcp1} (c\<lparr>c_world := w\<rparr>) c' = evolves {disconnectingTcp1} c c'"
    "evolves {disconnectingTcp1} c' (d\<lparr>c_pingSent := b\<rparr>) = evolves {disconnectingTcp1} c' d" for c' d :: "'a Client" and b
    by (simp_all add: evolves_def)
  obtain added c2 where add: "MqttClient_addPacket env (\<lambda>mem. Packet_simple mem PINGREQ) (c\<lparr>c_world := w\<rparr>) = Some (added, c2)"
    and c2: "evolves {disconnectingTcp1} c c2"
    using addPacket_evolves [OF builds_simple, where c = "c\<lparr>c_world := w\<rparr>" and S = "{disconnectingTcp1}"] same(1)
    by (force simp: ok_def)
  have lost: "evolves {disconnectingTcp1} c
      ((MqttClient_setState disconnectingTcp1 (c\<lparr>c_world := w\<rparr>))\<lparr>c_disconnectReason := TCP_DISCONNECTED\<rparr>)"
    by (simp add: evolves_def MqttClient_setState_def)
  have idle: "evolves {disconnectingTcp1} c (c\<lparr>c_world := w\<rparr>)" by (simp add: evolves_def)
  show ?thesis
    unfolding MqttClient_checkPing_def Let_def ask_eq prod.case snd_millis w_def [symmetric]
    using add c2 lost idle same by (simp add: wp)
qed

lemma checkTimeout_evolves: "evolves S c (MqttClient_checkTimeout env c)"
  by (auto simp: MqttClient_checkTimeout_def evolves_def ask_eq Let_def split: list.split)


subsection \<open>Handlers of incoming packets\<close>

lemma evolves_set [simp]:
  "c_outbox c' = c_outbox c \<Longrightarrow> c_parser c' = c_parser c \<Longrightarrow> c_config c' = c_config c \<Longrightarrow> c_taken c' = c_taken c \<Longrightarrow>
   c_state c' = c_state c \<or> c_state c' \<in> S \<Longrightarrow> evolves S c c'"
  by (simp add: evolves_def)

text \<open>The client while it handles a packet: it holds the semaphore.\<close>

definition talking :: "State \<Rightarrow> bool" where
  "talking s \<longleftrightarrow> active s \<or> s = disconnectingTcp1"

definition handling :: "'w Client \<Rightarrow> bool" where
  "handling c \<longleftrightarrow> config_ok (c_config c) \<and> c_taken c \<and> talking (c_state c)"

lemma talking_states [simp]:
  "talking connected" "talking disconnectingMqtt1" "talking disconnectingMqtt2" "talking disconnectingTcp1" "talking connectingMqtt"
  by (simp_all add: talking_def active_def)

lemma evolves_handling: "evolves S c c' \<Longrightarrow> handling c \<Longrightarrow> \<forall>s \<in> S. talking s \<Longrightarrow> handling c'"
  by (auto simp: evolves_def handling_def)

lemma called_evolves: "called c c' \<Longrightarrow> handling c \<Longrightarrow> evolves {disconnectingMqtt1, disconnectingTcp1} c c'"
  by (auto simp: called_def handling_def evolves_def moves_def talking_def active_def)

lemma callback_evolves:
  "reacts_by_calls env \<Longrightarrow> handling c \<Longrightarrow> ok (callback env isSet e c) (evolves {disconnectingMqtt1, disconnectingTcp1} c)"
  by (rule ok_mono [OF callback_called]) (auto simp: handling_def intro: called_evolves)

lemma callback_after:
  assumes "reacts_by_calls env" and "handling c" and "evolves S c c'"
    and "{disconnectingMqtt1, disconnectingTcp1} \<subseteq> S" and "\<forall>s \<in> S. talking s"
  shows "ok (callback env isSet e c') (evolves S c)"
  by (rule ok_mono [OF callback_evolves [OF assms(1) evolves_handling [OF assms(3,2,5)]]])
    (use assms(3,4) in \<open>blast intro: evolves_trans evolves_mono\<close>)

lemma onConnack_evolves:
  assumes env: "reacts_by_calls env" and h: "handling c"
    and "delivered (c_parser c)" and "typeBits (c_parser c) = CONNACK" and ob: "outbox_ok (c_outbox c)"
  shows "ok (MqttClient_onConnack env c) (evolves {connected, disconnectingMqtt1, disconnectingTcp1} c)"
proof -
  let ?S = "{connected, disconnectingMqtt1, disconnectingTcp1}"
  define c1 where "c1 = MqttClient_setState connected (c\<lparr>c_pingSent := False\<rparr>)"
  have c1: "evolves ?S c c1"
    by (simp add: c1_def MqttClient_setState_def)
  then have "outbox_ok (c_outbox c1)" using ob by (simp add: evolves_def)
  define c2 where "c2 = snd (MqttClient_advanceOutbox c1)"
  have c2: "evolves ?S c c2"
    unfolding c2_def
    by (rule evolves_trans [OF c1 evolves_mono [OF advanceOutbox_evolves [OF \<open>outbox_ok (c_outbox c1)\<close>]]]) auto
  define c3 where "c3 = (if i_sessionPresent (incoming c2) = 0 then MqttClient_clearQueueData 1 c2 else c2)"
  have c3: "evolves ?S c c3"
    using c2 by (simp add: c3_def)
  obtain r where r: "DisconnectReason_cast (i_returnCode (incoming c)) = Some r"
    using assms(3,4) DisconnectReason_cast_connack by (force simp: delivered_def incoming_def)
  show ?thesis
  proof (cases "i_returnCode (incoming c) = 0")
    case True
    then show ?thesis
      unfolding MqttClient_onConnack_def Let_def c1_def [symmetric] c2_def [symmetric] c3_def [symmetric]
      using callback_after [OF env h c3] by simp
  next
    case False
    with r show ?thesis
      by (simp add: MqttClient_onConnack_def wp MqttClient_setState_def)
  qed
qed

lemma messageEvent_ok:
  assumes "parser_wf (c_parser c)" and "i_topic (r_packet (c_parser c)) ! 128 = 0"
    and "i_length (r_packet (c_parser c)) \<noteq> 0 \<Longrightarrow> Parser_payload (c_parser c) \<noteq> None"
  shows "\<exists>e. messageEvent c = Some e"
  using topic_terminated [OF assms(1,2)] assms(3)
  by (auto simp: messageEvent_def incoming_def Let_def)

text \<open>What the handlers other than that of CONNACK do: the user may have disconnected.\<close>

definition handled :: "'w Client \<Rightarrow> 'w Client \<Rightarrow> bool" where
  "handled = evolves {disconnectingMqtt1, disconnectingTcp1}"

lemma handled_callback:
  "reacts_by_calls env \<Longrightarrow> handling c \<Longrightarrow> handled c c' \<Longrightarrow> ok (callback env isSet e c') (handled c)"
  unfolding handled_def by (rule callback_after) auto

lemma handled_simps [simp]: "handled c c" "handled c c' \<Longrightarrow> handled c (removeAt k c')"
  by (simp_all add: handled_def)

lemma addPacket_handled:
  "builds build \<Longrightarrow> ok (MqttClient_addPacket env build c) (\<lambda>(added, c'). handled c c')"
  by (rule ok_mono [OF addPacket_evolves]) (auto simp: handled_def)

lemma onPublish_handled:
  assumes env: "reacts_by_calls env" and h: "handling c"
    and "parser_wf (c_parser c)" and "i_topic (r_packet (c_parser c)) ! 128 = 0"
    and "i_length (r_packet (c_parser c)) \<noteq> 0 \<Longrightarrow> Parser_payload (c_parser c) \<noteq> None"
  shows "ok (MqttClient_onPublish env c) (handled c)"
proof -
  have add: "ok (map_option snd (MqttClient_addPacket env (\<lambda>mem. Packet_ack mem t packetId) c)) (handled c)" for t packetId
    using addPacket_handled [OF builds_ack, where env = env and c = c] by (fastforce simp: ok_def)
  have msg: "ok (messageEvent c') (\<lambda>e. ok (callback env g_onMessageCallback e c') (handled c))" if c': "handled c c'" for c'
  proof -
    have "c_parser c' = c_parser c" using c' by (simp add: handled_def evolves_def)
    with messageEvent_ok [of c'] assms(3-5) handled_callback [OF env h c'] show ?thesis by (auto simp: ok_def)
  qed
  show ?thesis
    unfolding MqttClient_onPublish_def Let_def
    by (auto simp: wp intro!: ok_mono [OF add] msg split: prod.split)
qed

lemma acked_handled:
  "ok (MqttClient_onPubrec env c) (handled c)" "ok (MqttClient_onPubrel env c) (handled c)"
  unfolding MqttClient_onPubrec_def MqttClient_onPubrel_def Let_def
  by (auto simp: wp split: option.split intro!: ok_mono [OF addPacket_handled [OF builds_ack]])

lemma matched_handled:
  assumes "reacts_by_calls env" and "handling c"
  shows "ok (MqttClient_onPuback env c) (handled c)" "ok (MqttClient_onPubcomp env c) (handled c)"
    "ok (MqttClient_onUnsuback env c) (handled c)"
  unfolding MqttClient_onPuback_def MqttClient_onPubcomp_def MqttClient_onUnsuback_def Let_def
  by (auto simp: wp split: option.split intro!: handled_callback assms)

lemma removeAt_parser [simp]: "c_parser (removeAt k c) = c_parser c" "c_config (removeAt k c) = c_config c"
  by (simp_all add: removeAt_def)

lemma onSuback_handled:
  assumes env: "reacts_by_calls env" and h: "handling c"
    and "parser_wf (c_parser c)" and "delivered (c_parser c)" and "typeBits (c_parser c) = SUBACK"
  shows "ok (MqttClient_onSuback env c) (handled c)"
proof -
  from assms(3-5) have "\<exists>codes. returnCodes (c_parser c) = Some codes"
    by (simp add: returnCodes_def delivered_def parser_wf_def region_def word_less_nat_alt)
  then obtain codes where codes: "returnCodes (c_parser c) = Some codes" ..
  show ?thesis
    unfolding MqttClient_onSuback_def Let_def
    by (auto simp: wp codes removeAt_parser split: option.split intro!: handled_callback env h)
qed


lemma dispatch_evolves:
  assumes env: "reacts_by_calls env" and h: "handling c"
    and wf: "parser_wf (c_parser c)" "i_topic (r_packet (c_parser c)) ! 128 = 0"
    and del: "r = packet \<Longrightarrow> delivered (c_parser c)"
    and pay: "r = packet \<Longrightarrow> typeBits (c_parser c) = PUBLISH \<Longrightarrow> i_length (r_packet (c_parser c)) \<noteq> 0 \<Longrightarrow>
      Parser_payload (c_parser c) \<noteq> None"
    and ob: "outbox_ok (c_outbox c)"
  shows "ok (MqttClient_dispatch env r c) (\<lambda>(continue, c').
    evolves {connected, disconnectingMqtt1, disconnectingTcp1} c c' \<and> (continue \<longrightarrow> r \<noteq> protocolError) \<and>
    (r = protocolError \<longrightarrow> c_state c' = disconnectingTcp1))"
proof -
  let ?E = "evolves {connected, disconnectingMqtt1, disconnectingTcp1}"
  have mono: "handled c c' \<Longrightarrow> ?E c c'" for c' unfolding handled_def by (erule evolves_mono) auto
  have sub: "ok m (handled c) \<Longrightarrow> ok (map_option (Pair True) m) (\<lambda>(continue, c'). ?E c c')" for m
    using mono by (auto simp: ok_def)
  have "ok (MqttClient_onPublish env c) (handled c)" if "r = packet" "typeBits (c_parser c) = PUBLISH"
    using onPublish_handled [OF env h wf] pay that by blast
  moreover have "ok (MqttClient_onConnack env c) (?E c)" if "r = packet" "typeBits (c_parser c) = CONNACK"
    using onConnack_evolves [OF env h del that(2) ob] that by blast
  moreover have "ok (MqttClient_onSuback env c) (handled c)" if "r = packet" "typeBits (c_parser c) = SUBACK"
    using onSuback_handled [OF env h wf(1) del that(2)] that by blast
  ultimately show ?thesis
    by (auto simp: MqttClient_dispatch_def Let_def incoming_def wp sub acked_handled matched_handled [OF env h] mono
        MqttClient_setState_def intro: ok_mono)
qed


subsection \<open>Receiving\<close>

definition received :: "'w Client \<Rightarrow> 'w Client \<Rightarrow> bool" where
  "received c c' \<longleftrightarrow> outbox_ok (c_outbox c') \<and> parser_wf (c_parser c') \<and>
     i_topic (r_packet (c_parser c')) ! 128 = 0 \<and> c_config c' = c_config c \<and> c_taken c' = c_taken c \<and>
     (parser_ok (c_parser c') \<or> c_state c' = disconnectingTcp1) \<and>
     (c_state c' = c_state c \<or> c_state c' \<in> {connected, disconnectingMqtt1, disconnectingTcp1})"

lemma receive_ends:
  assumes env: "reacts_by_calls env"
  shows "handling c \<Longrightarrow> outbox_ok (c_outbox c) \<Longrightarrow> parser_ok (c_parser c) \<Longrightarrow> unat index + unat remaining \<le> length rx \<Longrightarrow>
    unat index + unat remaining < 2 ^ 31 \<Longrightarrow>
    ok (MqttClient_receive env rx remaining index c) (received c)"
proof (induction "unat remaining" arbitrary: remaining index c rule: less_induct)
  case less
  have wf: "parser_wf (c_parser c) \<and> i_topic (r_packet (c_parser c)) ! 128 = 0"
    using less.prems(3) by (rule parser_ok_wf)
  show ?case
  proof (cases "0 < sint remaining")
    case False
    with less.prems wf show ?thesis
      by (subst MqttClient_receive.simps) (simp add: wp received_def)
  next
    case True
    then have pos: "0 < remaining" using sint_pos_unat by (simp add: word_less_nat_alt)
    have len: "unat remaining \<le> length (drop (unat index) rx)" using less.prems(4) by simp
    obtain r n p' where parse: "Parser_parse (drop (unat index) rx) remaining (c_parser c) = Some (r, n, p')"
      and n: "n \<le> remaining" "0 < n" and p': "parser_wf p'" "i_topic (r_packet p') ! 128 = 0"
      "r \<noteq> protocolError \<Longrightarrow> parser_ok p'" "r = packet \<Longrightarrow> delivered p'"
      "r = packet \<Longrightarrow> typeBits p' = PUBLISH \<Longrightarrow> i_length (r_packet p') \<noteq> 0 \<Longrightarrow> Parser_payload p' \<noteq> None"
      using parse_delivers [OF less.prems(3) len] pos by metis
    define c1 where "c1 = c\<lparr>c_parser := p'\<rparr>"
    have c1: "c_parser c1 = p'" "c_outbox c1 = c_outbox c" "c_config c1 = c_config c" "c_state c1 = c_state c"
      "c_taken c1 = c_taken c"
      by (simp_all add: c1_def)
    have h1: "handling c1" using less.prems(1) c1 by (simp add: handling_def)
    obtain continue c2 where disp: "MqttClient_dispatch env r c1 = Some (continue, c2)"
      and ev: "evolves {connected, disconnectingMqtt1, disconnectingTcp1} c1 c2" and cont: "continue \<longrightarrow> r \<noteq> protocolError"
      and err: "r = protocolError \<longrightarrow> c_state c2 = disconnectingTcp1"
      using dispatch_evolves [OF env h1, of r] p' c1 less.prems(2) by (auto simp: ok_def)
    have c2: "received c c2"
      using ev err p' less.prems(2) c1 by (auto simp: evolves_def received_def)
    show ?thesis
    proof (cases continue)
      case False
      with True parse disp c2 show ?thesis
        by (subst MqttClient_receive.simps) (simp add: wp c1_def)
    next
      case continue: True
      have sub: "unat (remaining - n) = unat remaining - unat n" using n(1) by (simp add: unat_sub)
      have add: "unat (index + n) = unat index + unat n"
        using less.prems(5) n(1) by (subst unat_add_lem [THEN iffD1]) (simp_all add: word_le_nat_alt)
      have nn: "unat n \<le> unat remaining" "0 < unat n"
        using n by (simp_all add: word_le_nat_alt word_less_nat_alt)
      have "handling c2" by (rule evolves_handling [OF ev h1]) simp
      moreover have "parser_ok (c_parser c2)" "outbox_ok (c_outbox c2)"
        using ev p'(3) cont continue c1 less.prems(2) by (auto simp: evolves_def)
      moreover have "unat (remaining - n) < unat remaining" "unat (index + n) + unat (remaining - n) \<le> length rx"
        "unat (index + n) + unat (remaining - n) < 2 ^ 31"
        using sub add nn less.prems(4,5) by simp_all
      ultimately have "ok (MqttClient_receive env rx (remaining - n) (index + n) c2) (received c2)"
        using less.hyps by blast
      then have "ok (MqttClient_receive env rx (remaining - n) (index + n) c2) (received c)"
        by (rule ok_mono) (use c2 in \<open>auto simp: received_def\<close>)
      with True parse disp continue show ?thesis
        by (subst MqttClient_receive.simps) (simp add: wp c1_def)
    qed
  qed
qed

lemma sint_pos_bound: "0 < sint (w :: u32) \<Longrightarrow> unat w < 2 ^ 31"
proof -
  assume pos: "0 < sint w"
  define k where "k = nat (sint w)"
  have k: "int k = sint w" using pos by (simp add: k_def)
  have "word_of_int (sint w) = w" by simp
  then have w: "w = of_nat k" by (simp flip: k)
  have "int k < 2 ^ 31" using sint_lt [of w] k by simp
  then have "k < 2 ^ 31" by simp
  then show ?thesis by (simp add: w unat_of_nat32)
qed

lemma checkIncoming_ends:
  assumes env: "transport_ok env" "reacts_by_calls env"
    and inv: "handling c" "outbox_ok (c_outbox c)" "parser_ok (c_parser c)"
  shows "ok (MqttClient_checkIncoming env c) (received c)"
proof -
  define r where "r = e_read env EMC_RX_BUFFER_SIZE (c_world c)"
  define c1 where "c1 = (snd (ask (e_millis env) (c\<lparr>c_world := snd r\<rparr>)))
    \<lparr>c_lastServerActivity := fst (e_millis env (snd r))\<rparr>"
  show ?thesis
  proof (cases "0 < sint (fst (fst r))")
    case False
    with inv parser_ok_wf [OF inv(3)] show ?thesis
      by (cases "fst r") (simp add: MqttClient_checkIncoming_def ask_eq wp received_def Let_def flip: r_def)
  next
    case True
    then have "unat (fst (fst r)) \<le> length (snd (fst r))"
      using env(1) unfolding transport_ok_def r_def by blast
    then have "ok (MqttClient_receive env (snd (fst r)) (fst (fst r)) 0 c1) (received c1)"
      using inv sint_pos_bound [OF True] by (intro receive_ends [OF env(2)]) (simp_all add: c1_def ask_eq handling_def)
    then have "ok (MqttClient_receive env (snd (fst r)) (fst (fst r)) 0 c1) (received c)"
      by (rule ok_mono) (auto simp: received_def c1_def ask_eq)
    with True show ?thesis
      by (cases "fst r") (simp add: MqttClient_checkIncoming_def ask_eq c1_def Let_def flip: r_def)
  qed
qed


subsection \<open>The loop\<close>

text \<open>
  The transitions that one call of \<open>loop\<close> can make. The two from the disconnecting states back to
  \<open>connected\<close> need a CONNACK that no well-behaved server sends there: the client accepts one in
  every state in which it reads.
\<close>

inductive transition :: "State \<Rightarrow> State \<Rightarrow> bool" where
  stay: "s \<noteq> connectingTcp1 \<Longrightarrow> s \<noteq> disconnectingTcp1 \<Longrightarrow> transition s s"
| tcp_connecting: "transition connectingTcp1 connectingTcp2"
| tcp_connected: "s \<in> {connectingTcp1, connectingTcp2} \<Longrightarrow> transition s connectingMqtt"
| accepted: "s \<in> {connectingMqtt, disconnectingMqtt1, disconnectingMqtt2} \<Longrightarrow> transition s connected"
| disconnect_queued: "transition disconnectingMqtt1 disconnectingMqtt2"
| dropped: "s \<in> {connectingTcp1, connectingTcp2} \<or> active s \<Longrightarrow> transition s disconnectingTcp1"
| stopped: "transition disconnectingTcp1 disconnectingTcp2"
| closed: "transition disconnectingTcp2 disconnected"

code_pred transition .

inductive_simps transition_from [simp]:
  "transition disconnected s" "transition connectingTcp1 s" "transition connectingTcp2 s"
  "transition connectingMqtt s" "transition connected s" "transition disconnectingMqtt1 s"
  "transition disconnectingMqtt2 s" "transition disconnectingTcp1 s" "transition disconnectingTcp2 s"

text \<open>What the user's callbacks call comes after the transition.\<close>

definition loop_result :: "'w Client \<Rightarrow> 'w Client \<Rightarrow> bool" where
  "loop_result c c' \<longleftrightarrow> client_inv c' \<and> c_config c' = c_config c \<and>
     (\<exists>s. transition (c_state c) s \<and> moves s (c_state c'))"

lemma loop_resultI: "client_inv c' \<Longrightarrow> c_config c' = c_config c \<Longrightarrow> transition (c_state c) (c_state c') \<Longrightarrow> loop_result c c'"
  using moves_refl by (auto simp: loop_result_def)

text \<open>An exchange with the server, in a state in which the client talks to it.\<close>

definition exchanged :: "'w Client \<Rightarrow> 'w Client \<Rightarrow> bool" where
  "exchanged c c' \<longleftrightarrow> client_inv (c'\<lparr>c_taken := False\<rparr>) \<and> c_config c' = c_config c \<and> c_taken c' = c_taken c \<and>
     (c_state c' = c_state c \<or> c_state c' \<in> {connected, disconnectingMqtt1, disconnectingTcp1})"

lemma client_inv_fields [simp]:
  "client_inv (c\<lparr>c_world := w\<rparr>) = client_inv c"
  by (simp add: client_inv_def)

lemma incoming_then_ping:
  assumes env: "transport_ok env" "reacts_by_calls env"
    and inv: "handling c" "outbox_ok (c_outbox c)" "parser_ok (c_parser c)"
  shows "ok (do { c \<leftarrow> MqttClient_checkIncoming env c; MqttClient_checkPing env c }) (exchanged c)"
proof -
  obtain c1 where c1: "MqttClient_checkIncoming env c = Some c1" "received c c1"
    using checkIncoming_ends [OF assms] by (auto simp: ok_def)
  have "ok (MqttClient_checkPing env c1) (exchanged c)"
    by (rule ok_mono [OF checkPing_evolves])
       (use c1(2) inv(1) in \<open>auto simp: evolves_def received_def exchanged_def client_inv_def active_def handling_def\<close>)
  with c1(1) show ?thesis by (simp add: wp)
qed

lemma loop_exchange_ends:
  assumes env: "transport_ok env" "reacts_by_calls env"
    and inv: "handling c" "outbox_ok (c_outbox c)" "parser_ok (c_parser c)"
  shows "ok (loop_exchange env c) (exchanged c)"
proof -
  obtain c1 where c1: "MqttClient_checkOutbox env c = Some c1" "evolves {disconnectingTcp1} c c1"
    using checkOutbox_evolves [OF env(1) inv(2)] by (auto simp: ok_def)
  have "handling c1" by (rule evolves_handling [OF c1(2) inv(1)]) simp
  moreover have "outbox_ok (c_outbox c1)" "parser_ok (c_parser c1)" using c1(2) inv by (auto simp: evolves_def)
  ultimately obtain c2 c3 where c2: "MqttClient_checkIncoming env c1 = Some c2"
    and c3: "MqttClient_checkPing env c2 = Some c3" "exchanged c1 c3"
    using incoming_then_ping [OF env, of c1] by (auto simp: ok_def bind_eq_Some)
  have "evolves {} c3 (MqttClient_checkTimeout env c3)" by (rule checkTimeout_evolves)
  then have "exchanged c (MqttClient_checkTimeout env c3)"
    using c3(2) c1(2) by (auto simp: evolves_def exchanged_def client_inv_def)
  with c1(1) c2 c3(1) show ?thesis by (simp add: loop_exchange_def wp)
qed

lemma tcpLost_result:
  "client_inv c \<Longrightarrow> c_state c \<in> {connectingTcp1, connectingTcp2} \<or> active (c_state c) \<Longrightarrow> loop_result c (tcpLost c)"
  by (rule loop_resultI) (auto simp: tcpLost_def client_inv_def MqttClient_setState_def active_def intro: dropped)

lemma exchanged_result:
  assumes "exchanged c c'" and "active (c_state c)" and "\<not> c_taken c"
  shows "loop_result c c'"
proof -
  have "\<exists>s. transition (c_state c) s \<and> moves s (c_state c')"
    using assms(1,2) by (auto simp: exchanged_def active_def moves_def intro: transition.intros)
  then show ?thesis using assms(1,3) by (auto simp: exchanged_def loop_result_def client_inv_def)
qed

text \<open>A part of \<open>loop\<close> that holds the semaphore.\<close>

lemma with_semaphore_result:
  assumes inv: "client_inv c" and st: "active (c_state c)"
    and f: "ok (f (c\<lparr>c_taken := True\<rparr>)) (exchanged (c\<lparr>c_taken := True\<rparr>))"
  shows "ok (with_semaphore f c) (exchanged c)"
  using f inv by (auto simp: with_semaphore_def semaphore_take_def semaphore_give_def ok_def client_inv_def exchanged_def)

lemma handling_start: "client_inv c \<Longrightarrow> active (c_state c) \<Longrightarrow>
    handling (c\<lparr>c_taken := True\<rparr>) \<and> outbox_ok (c_outbox c) \<and> parser_ok (c_parser c)"
  by (simp add: client_inv_def handling_def talking_def)

end
