(* ===== verification/ClientSystem.thy ===== *)
theory ClientSystem
  imports ClientSafety
begin

text \<open>
  The client as a system: what one call of \<open>loop\<close> does in each state, and what any sequence of calls
  of the user and of \<open>loop\<close> can lead to.
\<close>

subsection \<open>One call of the loop\<close>

lemma client_inv_fields' [simp]:
  "client_inv (c\<lparr>c_lastServerActivity := x\<rparr>) = client_inv c"
  "client_inv (c\<lparr>c_lastClientActivity := x\<rparr>) = client_inv c"
  "client_inv (c\<lparr>c_bytesSent := b\<rparr>) = client_inv c" "client_inv (c\<lparr>c_events := e\<rparr>) = client_inv c"
  "client_inv (c\<lparr>c_disconnectReason := r\<rparr>) = client_inv c" "client_inv (c\<lparr>c_packetId := i\<rparr>) = client_inv c"
  by (simp_all add: client_inv_def)

lemma client_inv_state: "client_inv c \<Longrightarrow> \<not> active s \<Longrightarrow> client_inv (c\<lparr>c_state := s\<rparr>)"
  by (simp add: client_inv_def)

lemma reset_wf: "parser_wf p \<Longrightarrow> i_topic (r_packet p) ! 128 = 0 \<Longrightarrow>
    parser_wf (Parser_reset p) \<and> i_topic (r_packet (Parser_reset p)) ! 128 = 0"
  using parser_ok_wf [OF parser_ok_reset] .

lemma loop_result_from:
  "loop_result c1 c' \<Longrightarrow> c_config c1 = c_config c \<Longrightarrow> (\<And>s. transition (c_state c1) s \<Longrightarrow> transition (c_state c) s) \<Longrightarrow>
    loop_result c c'"
  by (auto simp: loop_result_def)

lemma connectingTcp2_result:
  assumes inv: "client_inv c" and st: "c_state c = connectingTcp2"
  shows "loop_result c (loop_connectingTcp2 env c)"
proof -
  have "client_inv (c\<lparr>c_parser := Parser_reset (c_parser c), c_state := connectingMqtt\<rparr>)"
    using inv parser_ok_reset [of "c_parser c"] reset_wf [of "c_parser c"] by (simp add: client_inv_def)
  then have "loop_result c (c\<lparr>c_parser := Parser_reset (c_parser c), c_world := w, c_lastServerActivity := t,
      c_lastClientActivity := t, c_state := connectingMqtt\<rparr>)" for w t
    using st by (intro loop_resultI) (simp_all add: client_inv_def)
  moreover have "loop_result c (tcpLost (c\<lparr>c_world := w\<rparr>))" for w
    by (rule loop_result_from [OF tcpLost_result]) (use inv st in simp_all)
  moreover have "loop_result c (c\<lparr>c_world := w\<rparr>)" for w
    by (rule loop_resultI) (use inv st in simp_all)
  ultimately show ?thesis
    by (simp add: loop_connectingTcp2_def ask_eq Let_def MqttClient_setState_def)
qed

lemma connectingTcp1_result:
  assumes "client_inv c" and "c_state c = connectingTcp1"
  shows "loop_result c (loop_connectingTcp1 env c)"
proof -
  define f where "f = (if g_useIp (c_config c) then e_connectIp env (g_ip (c_config c)) (g_port (c_config c))
    else e_connectHost env (g_host (c_config c)) (g_port (c_config c)))"
  define c1 where "c1 = MqttClient_setState connectingTcp2 (snd (ask f c))"
  have c1: "client_inv c1" "c_state c1 = connectingTcp2" "c_config c1 = c_config c"
    using assms by (simp_all add: c1_def MqttClient_setState_def client_inv_state active_def ask_eq)
  then have "loop_result c (loop_connectingTcp2 env c1)"
    by (intro loop_result_from [OF connectingTcp2_result]) (use assms(2) in auto)
  moreover have "loop_result c (tcpLost (snd (ask f c)))"
    by (rule loop_result_from [OF tcpLost_result]) (use assms in \<open>simp_all add: ask_eq\<close>)
  ultimately show ?thesis
    unfolding loop_connectingTcp1_def Let_def f_def [symmetric] c1_def ask_eq by simp
qed

lemma lost_or:
  assumes "client_inv c" and "active (c_state c)"
    and "\<And>c1. client_inv c1 \<Longrightarrow> c_state c1 = c_state c \<Longrightarrow> c_config c1 = c_config c \<Longrightarrow>
      ok (f (c1\<lparr>c_taken := True\<rparr>)) (exchanged (c1\<lparr>c_taken := True\<rparr>))"
  shows "ok (let (isConnected, c) = ask (e_connected env) c in if isConnected then with_semaphore f c else Some (tcpLost c))
    (loop_result c)"
proof -
  define c1 where "c1 = snd (ask (e_connected env) c)"
  have c1: "client_inv c1" "c_state c1 = c_state c" "c_config c1 = c_config c"
    using assms(1) by (simp_all add: c1_def ask_eq)
  have "ok (with_semaphore f c1) (exchanged c1)"
    using assms(2) c1 by (intro with_semaphore_result assms(3)) simp_all
  then have "ok (with_semaphore f c1) (loop_result c)"
    by (rule ok_mono)
       (use assms(2) c1 in \<open>auto intro!: loop_result_from [OF exchanged_result] simp: client_inv_def\<close>)
  moreover have "loop_result c (tcpLost c1)"
    by (rule loop_result_from [OF tcpLost_result]) (use assms(2) c1 in simp_all)
  ultimately show ?thesis
    by (simp add: wp c1_def ask_eq)
qed

lemma exchange_held:
  assumes "transport_ok env" "reacts_by_calls env" and "client_inv c" and "active (c_state c)"
  shows "ok (loop_exchange env (c\<lparr>c_taken := True\<rparr>)) (exchanged (c\<lparr>c_taken := True\<rparr>))"
  using handling_start [OF assms(3,4)] by (intro loop_exchange_ends assms(1,2)) simp_all

lemma connected_result:
  assumes env: "transport_ok env" "reacts_by_calls env" and "client_inv c" and "active (c_state c)"
  shows "ok (loop_connected env c) (loop_result c)"
  unfolding loop_connected_def
  by (rule lost_or) (use assms exchange_held [OF env] in auto)

lemma connectingMqtt_result:
  assumes env: "transport_ok env" "reacts_by_calls env" and inv: "client_inv c" and st: "c_state c = connectingMqtt"
  shows "ok (loop_connectingMqtt env c) (loop_result c)"
proof -
  have "ok (do { (sent, c) \<leftarrow> MqttClient_sendPacket env c; c \<leftarrow> MqttClient_checkIncoming env c;
      MqttClient_checkPing env c }) (exchanged c)"
    if c: "handling c" "outbox_ok (c_outbox c)" "parser_ok (c_parser c)" for c
  proof -
    obtain n c1 where c1: "MqttClient_sendPacket env c = Some (n, c1)" "evolves {} c c1"
      using sendPacket_evolves [OF env(1), of c "{}"] c by (auto simp: ok_def)
    have "handling c1" by (rule evolves_handling [OF c1(2) c(1)]) simp
    moreover have "outbox_ok (c_outbox c1)" "parser_ok (c_parser c1)"
      using c c1(2) by (auto simp: evolves_def)
    ultimately have "ok (do { c \<leftarrow> MqttClient_checkIncoming env c1; MqttClient_checkPing env c }) (exchanged c1)"
      by (rule incoming_then_ping [OF env])
    then have "ok (do { c \<leftarrow> MqttClient_checkIncoming env c1; MqttClient_checkPing env c }) (exchanged c)"
      by (rule ok_mono) (use c1(2) in \<open>auto simp: exchanged_def evolves_def\<close>)
    with c1(1) show ?thesis by simp
  qed
  note exch = this
  show ?thesis
  proof (cases "e_waitForConnack env")
    case False
    with connected_result [OF env inv] st show ?thesis by (simp add: loop_connectingMqtt_def active_def)
  next
    case True
    show ?thesis
      unfolding loop_connectingMqtt_def if_P [OF True]
      by (intro lost_or inv exch) (use st handling_start in \<open>auto simp: active_def\<close>)
  qed
qed

lemma with_semaphore_eq:
  "\<not> c_taken c \<Longrightarrow> f (c\<lparr>c_taken := True\<rparr>) = Some c' \<Longrightarrow> c_taken c' \<Longrightarrow> with_semaphore f c = Some (c'\<lparr>c_taken := False\<rparr>)"
  by (simp add: with_semaphore_def semaphore_take_def semaphore_give_def)

lemma disconnectingMqtt1_result:
  assumes env: "transport_ok env" "reacts_by_calls env" and inv: "client_inv c" and st: "c_state c = disconnectingMqtt1"
  shows "ok (loop_disconnectingMqtt1 env c) (loop_result c)"
proof -
  define d where "d = c\<lparr>c_taken := True\<rparr>"
  have d: "handling d" "outbox_ok (c_outbox d)" "parser_ok (c_parser d)" "c_state d = disconnectingMqtt1"
    using handling_start [OF inv] st by (simp_all add: d_def active_def)
  define S where "S = {disconnectingMqtt2, disconnectingMqtt1, disconnectingTcp1}"
  have exch: "ok (loop_exchange env c1) (\<lambda>c'. exchanged (d\<lparr>c_state := c_state c1\<rparr>) c')" if ev: "evolves S d c1" for c1
  proof -
    have "handling c1" by (rule evolves_handling [OF ev d(1)]) (simp add: S_def)
    moreover have "outbox_ok (c_outbox c1)" "parser_ok (c_parser c1)" using ev d by (auto simp: evolves_def)
    ultimately have "ok (loop_exchange env c1) (exchanged c1)" by (rule loop_exchange_ends [OF env])
    then show ?thesis by (rule ok_mono) (use ev in \<open>auto simp: exchanged_def evolves_def\<close>)
  qed
  obtain added c1 where add: "MqttClient_addPacket env (\<lambda>mem. Packet_simple mem DISCONNECT) d = Some (added, c1)"
    and c1: "evolves {} d c1"
    using addPacket_evolves [OF builds_simple] by (force simp: ok_def)
  have h1: "handling c1" by (rule evolves_handling [OF c1 d(1)]) simp
  have "ok (report env 0 c1) (called c1)"
    using report_called [OF env(2)] h1 by (simp add: handling_def)
  then have "ok (report env 0 c1) (evolves {disconnectingMqtt1, disconnectingTcp1} c1)"
    by (rule ok_mono) (rule called_evolves [OF _ h1])
  then have rep: "ok (report env 0 c1) (evolves S d)"
    by (rule ok_mono) (use c1 in \<open>auto simp: evolves_def S_def\<close>)
  have "evolves S d (MqttClient_setState disconnectingMqtt2 c1)"
    using c1 by (simp add: evolves_def MqttClient_setState_def S_def)
  with rep add have "ok (if fst (c_outbox d) = [] then do {
            (added, c) \<leftarrow> MqttClient_addPacket env (\<lambda>mem. Packet_simple mem DISCONNECT) d;
            if \<not> added then report env 0 c
            else Some (MqttClient_setState disconnectingMqtt2 c)
          }
          else Some d) (evolves S d)"
    by (simp add: wp)
  then obtain c2 where c2: "(if fst (c_outbox d) = [] then do {
            (added, c) \<leftarrow> MqttClient_addPacket env (\<lambda>mem. Packet_simple mem DISCONNECT) d;
            if \<not> added then report env 0 c
            else Some (MqttClient_setState disconnectingMqtt2 c)
          }
          else Some d) = Some c2" "evolves S d c2"
    by (auto simp only: ok_def)
  obtain c3 where c3: "loop_exchange env c2 = Some c3" "exchanged (d\<lparr>c_state := c_state c2\<rparr>) c3"
    using exch [OF c2(2)] by (auto simp: ok_def)
  have "loop_disconnectingMqtt1 env c = Some (c3\<lparr>c_taken := False\<rparr>)"
    unfolding loop_disconnectingMqtt1_def
    by (rule with_semaphore_eq) (use inv c3 in \<open>simp_all only: d_def [symmetric] c2(1) Option.bind.simps client_inv_def
        exchanged_def simp_thms\<close>, simp add: d_def)
  moreover have "c_state c2 \<in> S" using c2(2) d(4) by (auto simp: evolves_def S_def)
  then have "\<exists>s. transition disconnectingMqtt1 s \<and> moves s (c_state c3)"
    using c3(2) by (auto simp: exchanged_def S_def moves_def active_def)
  ultimately show ?thesis
    using c3(2) st by (simp add: wp loop_result_def exchanged_def d_def)
qed

lemma disconnectingTcp2_result:
  assumes env: "reacts_by_calls env" and inv: "client_inv c" and st: "c_state c = disconnectingTcp2"
  shows "ok (loop_disconnectingTcp2 env c) (loop_result c)"
proof -
  define d where "d = (MqttClient_clearQueueData 0 (c\<lparr>c_world := snd (e_disconnected env (c_world c))\<rparr>))
    \<lparr>c_taken := False, c_bytesSent := 0, c_state := disconnected\<rparr>"
  have d: "client_inv d" "c_config d = c_config c" "c_state d = disconnected"
    using inv by (simp_all add: d_def client_inv_def MqttClient_clearQueueData_def active_def)
  have "ok (notify env g_onDisconnectCallback (OnDisconnect (c_disconnectReason d)) d) (called d)"
    using d(1) by (intro notify_called [OF env]) (simp add: client_inv_def)
  then have "ok (notify env g_onDisconnectCallback (OnDisconnect (c_disconnectReason d)) d) (loop_result c)"
  proof (rule ok_mono)
    fix c' assume c': "called d c'"
    have "client_inv c'" by (rule called_inv [OF c' d(1)])
    moreover have "moves disconnected (c_state c')" "c_config c' = c_config c" using c' d by (simp_all add: called_def)
    moreover have "transition (c_state c) disconnected" using st by simp
    ultimately show "loop_result c c'" unfolding loop_result_def by blast
  qed
  moreover have "loop_result c (c\<lparr>c_world := w\<rparr>)" for w
    by (rule loop_resultI) (use inv st in simp_all)
  moreover have "\<not> c_taken c" using inv by (simp add: client_inv_def)
  ultimately show ?thesis
    by (simp add: loop_disconnectingTcp2_def ask_eq wp with_semaphore_def semaphore_take_def semaphore_give_def
        MqttClient_clearQueueData_def MqttClient_setState_def d_def Let_def)
qed

lemma client_loop_safe:
  assumes env: "transport_ok env" "reacts_by_calls env" and inv: "client_inv c"
  shows "ok (MqttClient_loop env c) (loop_result c)"
proof (cases "c_state c")
  case disconnected
  with inv show ?thesis by (simp add: MqttClient_loop_def wp loop_resultI)
next
  case disconnectingTcp1
  with inv show ?thesis
    by (simp add: MqttClient_loop_def wp loop_resultI loop_disconnectingTcp1_def MqttClient_setState_def
        client_inv_state active_def)
qed (simp_all add: MqttClient_loop_def wp connectingTcp1_result connectingTcp2_result connectingMqtt_result
    connected_result disconnectingMqtt1_result disconnectingTcp2_result assms active_def)


subsection \<open>Runs\<close>

text \<open>The calls a user can make, and \<open>loop\<close>, which the user or the task calls.\<close>

datatype Action = Loop | Call Call

fun perform :: "'w Env \<Rightarrow> Action \<Rightarrow> 'w Client \<Rightarrow> 'w Client option" where
  "perform env Loop c = MqttClient_loop env c"
| "perform env (Call a) c = perform_call env a c"

fun run_actions :: "'w Env \<Rightarrow> Action list \<Rightarrow> 'w Client \<Rightarrow> 'w Client option" where
  "run_actions env [] c = Some c"
| "run_actions env (a # as) c = do { c \<leftarrow> perform env a c; run_actions env as c }"

fun valid_action :: "Action \<Rightarrow> bool" where
  "valid_action Loop = True"
| "valid_action (Call a) = valid_call a"

definition keeps :: "'w Client \<Rightarrow> 'w Client \<Rightarrow> bool" where
  "keeps c c' \<longleftrightarrow> client_inv c' \<and> c_config c' = c_config c"

lemma client_inv_ready: "client_inv c \<Longrightarrow> config_ok (c_config c) \<and> \<not> c_taken c"
  by (simp add: client_inv_def)

lemma perform_stable:
  assumes env: "transport_ok env" "reacts_by_calls env" and inv: "client_inv c" and a: "valid_action a"
  shows "ok (perform env a c) (keeps c)"
proof (cases a)
  case Loop
  show ?thesis
    unfolding Loop perform.simps
    by (rule ok_mono [OF client_loop_safe [OF env inv]]) (simp add: loop_result_def keeps_def)
next
  case (Call b)
  with a have "ok (perform_call env b c) (called c)"
    using perform_called [OF env(2) _ client_inv_ready [OF inv]] by simp
  then have "ok (perform_call env b c) (keeps c)"
    by (rule ok_mono) (use called_inv inv in \<open>auto simp: keeps_def called_def\<close>)
  then show ?thesis by (simp add: Call)
qed

lemma run_stable:
  assumes env: "transport_ok env" "reacts_by_calls env"
  shows "client_inv c \<Longrightarrow> \<forall>a \<in> set as. valid_action a \<Longrightarrow> ok (run_actions env as c) (keeps c)"
proof (induction as arbitrary: c)
  case Nil
  then show ?case by (simp add: wp keeps_def)
next
  case (Cons a as)
  obtain c1 where c1: "perform env a c = Some c1" "keeps c c1"
    using perform_stable [OF env Cons.prems(1), of a] Cons.prems(2) by (auto simp: ok_def)
  have "ok (run_actions env as c1) (keeps c1)"
    by (rule Cons.IH) (use c1(2) Cons.prems in \<open>simp_all add: keeps_def\<close>)
  then show ?case
    using c1 by (auto simp: ok_def keeps_def)
qed

lemma init_inv: "config_ok g \<Longrightarrow> client_inv ((MqttClient_init clientId w)\<lparr>c_config := g\<rparr>)"
  using parser_ok_init parser_ok_wf [OF parser_ok_init]
  by (simp add: client_inv_def MqttClient_init_def outbox_ok_def)

text \<open>A transport for the witnesses: it takes every byte, and its world is what it received.\<close>

definition sink :: "(u8 list) Env" where
  "sink = \<lparr>e_connectIp = \<lambda>ip port w. (True, w), e_connectHost = \<lambda>host port w. (True, w),
     e_write = \<lambda>bytes w. (of_nat (length bytes), w @ bytes), e_read = \<lambda>n w. ((0, []), w), e_stop = \<lambda>w. w,
     e_connected = \<lambda>w. (True, w), e_disconnected = \<lambda>w. (True, w), e_clock = \<lambda>w. (0, w), e_wideClock = False,
     e_alloc = \<lambda>w. ((True, ample), w), e_react = \<lambda>e c. Some c, e_waitForConnack = True, e_allowNotConnectedPublish = True\<rparr>"


lemma sink_ok: "transport_ok sink" "reacts_by_calls sink"
proof -
  have "unat (of_nat n :: u32) \<le> n" for n
    by (simp add: unat_of_nat)
  then show "transport_ok sink" by (simp add: transport_ok_def sink_def)
  show "reacts_by_calls sink" by (rule silent_by_calls) (simp add: sink_def)
qed

lemma config_ok_init: "config_ok (Config_init [97])"
  by (simp add: config_ok_def Config_init_def will_memory_def short_option_def)

text \<open>User code for the witnesses: it subscribes when connected, answers messages, and reconnects.\<close>

fun sample_program :: "Event \<Rightarrow> 'w Client \<Rightarrow> Call list" where
  "sample_program (OnConnect sessionPresent) c = [Subscribe [([116], 1)]]"
| "sample_program (OnMessage properties topic payload len index full) c = [Publish [117] 1 False [1]]"
| "sample_program (OnDisconnect reason) c = [Connect]"
| "sample_program _ c = []"

lemma sample_program_ok: "reacts_by_calls (reacting sample_program env)"
proof (rule reacting_by_calls)
  show "valid_call a" if "a \<in> set (sample_program e c)" for e c a
    using that by (cases e) (auto simp: fits_def length_publish_body subscribe_body_def)
qed simp

lemma reacting_transport [simp]: "transport_ok (reacting prog env) = transport_ok env"
  by (simp add: transport_ok_def reacting_def)

subsection \<open>Properties\<close>

lemma run_never_faults:
  assumes "transport_ok env" and "reacts_by_calls env" and "config_ok g" and "\<forall>a \<in> set as. valid_action a"
  shows "\<exists>c. run_actions env as ((MqttClient_init clientId w)\<lparr>c_config := g\<rparr>) = Some c \<and>
    client_inv c \<and> c_config c = g"
proof -
  let ?c = "(MqttClient_init clientId w)\<lparr>c_config := g\<rparr>"
  have "ok (run_actions env as ?c) (keeps ?c)"
    by (intro run_stable assms init_inv)
  then show ?thesis by (auto simp: ok_def keeps_def)
qed

text \<open>Why \<open>valid_call\<close> leaves out an empty payload from a callback: the first \<open>loop\<close> that sends it faults.\<close>

lemma empty_publish_faults:
  assumes "c_state c = connected" and "\<not> c_taken c" and "c_outbox c = ([], 0)" and "c_bytesSent c = 0"
    and "qos \<le> 2" and "length (publish_body 0 topic [] qos) + 1440 \<le> 16383"
    and "e_alloc env (c_world c) = ((True, mem), w)" and "fst (e_connected env w)"
    and "accepts mem True (of_nat (length (publish_body 0 topic [] qos)))"
  shows "run_actions env [Call (PublishCallback topic qos retain f 0), Loop] c = None"
proof -
  define i where "i = (if qos > 0 then fst (MqttClient_getNextPacketId c) else 1)"
  have size: "length (publish_body i topic [] qos) = length (publish_body 0 topic [] qos)"
    by (simp add: length_publish_body)
  from chunked_empty [of qos i topic mem f retain] assms(5,6,9) obtain p k where
    p: "Packet_publish_callback mem i topic f 0 qos retain = Some (SUCCESS, p)"
      "Packet_available 0 p = Some (k, p)" "k \<noteq> 0" "Packet_bytes 0 k p = None"
    by (auto simp: size)
  define d where "d = (if qos > 0 then snd (MqttClient_getNextPacketId c) else c)"
  have d: "c_state d = connected" "\<not> c_taken d" "c_outbox d = ([], 0)" "c_bytesSent d = 0" "c_world d = c_world c"
    using assms(1-4) by (simp_all add: d_def MqttClient_getNextPacketId_def Let_def)
  have id: "(if qos > 0 then MqttClient_getNextPacketId (c\<lparr>c_taken := True\<rparr>) else (1, c\<lparr>c_taken := True\<rparr>)) =
      (i, d\<lparr>c_taken := True\<rparr>)"
    by (simp add: d_def i_def MqttClient_getNextPacketId_def Let_def)
  define c1 where "c1 = d\<lparr>c_taken := False, c_world := w, c_outbox := ([\<lparr>op_timeSent = 0, op_packet = p\<rparr>], 0)\<rparr>"
  have "MqttClient_publish_callback env topic qos retain f 0 c = Some (i, c1)"
    using assms(1,2,7) p(1) d
    by (simp add: MqttClient_publish_callback_def mayPublish_def semaphore_take_def semaphore_give_def id
        MqttClient_addPacket_def ask_def q_emplace_def c1_def)
  then have c1: "perform_call env (PublishCallback topic qos retain f 0) c = Some c1"
      "c_state c1 = connected" "\<not> c_taken c1" "c_bytesSent c1 = 0" "c_world c1 = w"
      "c_outbox c1 = ([\<lparr>op_timeSent = 0, op_packet = p\<rparr>], 0)"
    using d by (simp_all add: c1_def)
  then have "MqttClient_sendPacket env (d\<lparr>c_taken := True\<rparr>) = None" if "d = c1\<lparr>c_world := v\<rparr>" for d v
    using that c1 p by (simp add: MqttClient_sendPacket_def q_current_def)
  then have "MqttClient_checkOutbox env (d\<lparr>c_taken := True\<rparr>) = None" if "d = c1\<lparr>c_world := v\<rparr>" for d v
    using that by (subst MqttClient_checkOutbox.simps) simp
  then have "MqttClient_loop env c1 = None"
    using c1 assms(8)
    by (simp add: MqttClient_loop_def loop_connected_def ask_def split_beta with_semaphore_def semaphore_take_def
        loop_exchange_def Let_def)
  with c1(1) show ?thesis by (simp del: perform_call.simps)
qed

text \<open>C2: Whatever the user calls, in whatever order, with loops in between, whatever calls its callbacks
  make while \<open>loop\<close> runs, whatever the transport delivers and whichever allocations fail: the client never
  touches memory it may not touch, never waits for a semaphore that it holds itself, every call returns, and
  the invariant holds afterwards. This is for calls as \<open>valid_call\<close> has them: a QoS of at most 2, lengths
  that fit the encoding, and for a PUBLISH whose payload comes from a callback at least one byte of payload
  and a body of at most 16383 bytes, from a callback that stores no more than it is allowed and does not
  call the client. The code gets the other calls wrong: after a callback PUBLISH with an empty payload,
  which \<open>publish\<close> accepts, the next \<open>loop\<close> of a connected client reads behind the packet.\<close>

theorem client_never_faults:
  assumes "transport_ok env" and "reacts_by_calls env" and "config_ok g" and "\<forall>a \<in> set as. valid_action a"
  shows "(\<exists>c. run_actions env as ((MqttClient_init clientId w)\<lparr>c_config := g\<rparr>) = Some c \<and>
      client_inv c \<and> c_config c = g) \<and>
    (\<forall>c topic qos retain f mem v. c_state c = connected \<and> \<not> c_taken c \<and> c_outbox c = ([], 0) \<and> c_bytesSent c = 0 \<and>
      qos \<le> 2 \<and> length (publish_body 0 topic [] qos) + 1440 \<le> 16383 \<and>
      e_alloc env (c_world c) = ((True, mem), v) \<and> fst (e_connected env v) \<and>
      accepts mem True (of_nat (length (publish_body 0 topic [] qos))) \<longrightarrow>
      run_actions env [Call (PublishCallback topic qos retain f 0), Loop] c = None)"
proof (intro conjI allI impI)
  show "\<exists>c. run_actions env as ((MqttClient_init clientId w)\<lparr>c_config := g\<rparr>) = Some c \<and> client_inv c \<and> c_config c = g"
    by (rule run_never_faults [OF assms])
qed (elim conjE, rule empty_publish_faults)

theorem client_never_faults_witness:
  "(\<exists>c. run_actions (reacting sample_program sink)
      [Call Connect, Call (Publish [116] 1 False [1, 2]), Loop, Loop, Call (Disconnect True), Loop, Loop]
    ((MqttClient_init [97] [])\<lparr>c_config := (Config_init [97])\<lparr>g_onDisconnectCallback := True\<rparr>\<rparr>) = Some c \<and> client_inv c) \<and>
   run_actions (reacting sample_program sink) [Call (PublishCallback [116] 1 False (\<lambda>m i. []) 0), Loop]
    ((MqttClient_init [97] [])\<lparr>c_state := connected\<rparr>) = None"
proof
  let ?calls = "[Call Connect, Call (Publish [116] 1 False [1, 2]), Loop, Loop, Call (Disconnect True), Loop, Loop]"
  let ?g = "(Config_init [97])\<lparr>g_onDisconnectCallback := True\<rparr>"
  let ?c = "(MqttClient_init [97] [])\<lparr>c_state := connected\<rparr>"
  have valid: "\<forall>a \<in> set ?calls. valid_action a"
    by (simp add: fits_def length_publish_body)
  have g: "config_ok ?g"
    using config_ok_init by (simp add: config_ok_def)
  have env: "transport_ok (reacting sample_program sink)" by (simp add: sink_ok)
  note both = client_never_faults [OF env sample_program_ok g valid]
  from both show "\<exists>c. run_actions (reacting sample_program sink) ?calls ((MqttClient_init [97] [])\<lparr>c_config := ?g\<rparr>) = Some c \<and>
      client_inv c" by blast
  have "e_alloc (reacting sample_program sink) (c_world ?c) = ((True, ample), [])"
    "fst (e_connected (reacting sample_program sink) [])"
    by (simp_all add: reacting_def sink_def MqttClient_init_def)
  moreover have "c_state ?c = connected" "\<not> c_taken ?c" "c_outbox ?c = ([], 0)" "c_bytesSent ?c = 0"
    by (simp_all add: MqttClient_init_def)
  moreover have "(1 :: u8) \<le> 2" "length (publish_body 0 [116] [] 1) + 1440 \<le> 16383"
    "accepts ample True (of_nat (length (publish_body 0 [116] [] 1)))"
    by (simp_all add: length_publish_body)
  ultimately show "run_actions (reacting sample_program sink) [Call (PublishCallback [116] 1 False (\<lambda>m i. []) 0), Loop] ?c = None"
    by (intro conjunct2 [OF both, rule_format]) blast
qed

text \<open>C3: One call of \<open>loop\<close> returns, keeps the invariant and moves along a transition of the state
  machine, after which only calls of the user's callbacks move it further: so \<open>disconnected\<close> is only
  reached from \<open>disconnectingTcp2\<close>, and that only from \<open>disconnectingTcp1\<close>, where the transport is
  stopped.\<close>

theorem loop_transitions:
  assumes "transport_ok env" and "reacts_by_calls env" and "client_inv c"
  shows "\<exists>c' s. MqttClient_loop env c = Some c' \<and> transition (c_state c) s \<and> moves s (c_state c') \<and> client_inv c'"
  using client_loop_safe [OF assms] by (auto simp: ok_def loop_result_def)

lemma init_config: "(MqttClient_init [97] w)\<lparr>c_config := Config_init [97]\<rparr> = MqttClient_init [97] w"
  by (simp add: MqttClient_init_def)

theorem loop_transitions_witness:
  "\<exists>c'. MqttClient_loop sink ((MqttClient_init [97] [])\<lparr>c_state := disconnectingTcp1\<rparr>) = Some c' \<and>
    c_state c' = disconnectingTcp2"
proof -
  have "client_inv ((MqttClient_init [97] ([] :: u8 list))\<lparr>c_state := disconnectingTcp1\<rparr>)"
    using init_inv [OF config_ok_init, where clientId = "[97]" and w = "[] :: u8 list"]
    by (simp add: client_inv_state active_def init_config)
  from loop_transitions [OF sink_ok this] show ?thesis by (auto simp: active_def moves_def)
qed


text \<open>C9: In every state that calls of the user and of \<open>loop\<close> can lead to, the packets before the
  cursor, those that have been sent and that a timeout or a reconnect sends again, are packets that
  wait for an acknowledgement, and a PUBLISH among them already carries the DUP flag.\<close>

theorem resent_with_dup:
  assumes "transport_ok env" and "reacts_by_calls env" and "client_inv c0" and "\<forall>a \<in> set as. valid_action a"
    and "run_actions env as c0 = Some c" and "x \<in> set (take (snd (c_outbox c)) (fst (c_outbox c)))"
  shows "\<not> Packet_removable (op_packet x) \<and>
    (Packet_packetType (op_packet x) = PUBLISH \<longrightarrow>
      (\<exists>b data. p_data (op_packet x) = Some (b # data) \<and> b AND PUBLISH_DUP \<noteq> 0))"
proof -
  have "client_inv c"
    using run_stable [OF assms(1-4)] assms(5) by (simp add: ok_def keeps_def)
  with assms(6) show ?thesis
    by (simp add: client_inv_def outbox_ok_def awaiting_def op_packetType_def)
qed

theorem resent_with_dup_witness:
  "\<not> Packet_removable (packet_of 1 [0x3A, 5, 0, 1, 116, 0, 1])"
proof -
  let ?x = "\<lparr>op_timeSent = 0, op_packet = packet_of 1 [0x3A, 5, 0, 1, 116, 0, 1]\<rparr>"
  let ?c = "(MqttClient_init [97] ([] :: u8 list))\<lparr>c_outbox := ([?x], 1)\<rparr>"
  have "outbox_ok ([?x], 1)"
    by (simp add: outbox_ok_def sendable_def whole_def awaiting_def Packet_removable_def packet_of_def blank_def
        Packet_packetType_def op_packetType_def)
  then have inv: "client_inv ?c"
    using init_inv [OF config_ok_init, where clientId = "[97]" and w = "[] :: u8 list"]
    by (simp add: client_inv_def init_config)
  have "run_actions sink [Call (Disconnect True)] ?c = Some ?c"
    by (simp add: MqttClient_disconnect_def MqttClient_init_def)
  from resent_with_dup [OF sink_ok inv _ this, of ?x] show ?thesis
    by simp
qed

lemma checkOutbox_exit:
  "MqttClient_checkOutbox env c = Some c' \<Longrightarrow>
    q_current (c_outbox c') = None \<or> (\<exists>d n. MqttClient_sendPacket env d = Some (n, c') \<and> n \<le> 0)"
proof (induction rule: MqttClient_checkOutbox.raw_induct [rotated, consumes 1, case_names step])
  case (step f env c c')
  obtain n c1 where send: "MqttClient_sendPacket env c = Some (n, c1)"
    and rest: "(if n > 0 then case MqttClient_advanceOutbox c1 of (any, c) \<Rightarrow> if \<not> any then Some c else f env c
      else Some c1) = Some c'"
    using step.hyps by (auto simp: bind_eq_Some)
  obtain any c2 where adv: "MqttClient_advanceOutbox c1 = (any, c2)" by (cases "MqttClient_advanceOutbox c1")
  have "any \<longleftrightarrow> q_current (c_outbox c2) \<noteq> None"
    using advanceOutbox_advances [of c1] adv by (simp add: advanced_def)
  note any = this
  show ?case
  proof (cases "n > 0")
    case False
    with rest have "c' = c1" by simp
    with send False show ?thesis by (intro disjI2 exI [of _ c] exI [of _ n]) simp
  next
    case True
    with rest adv have "if any then f env c2 = Some c' else c' = c2" by (cases any) simp_all
    with any step.IH [of env c2 c'] show ?thesis by (cases any) simp_all
  qed
qed

text \<open>C26: The two loops of an exchange with the server end. The sending loop ends with any transport that
  takes no more than it is given, and only when nothing is left to send or a write took nothing; the
  receiving loop ends on every buffer, whatever bytes are in it and whatever the callbacks do, with the
  parser in a legal state or the connection given up.\<close>

theorem loops_terminate:
  assumes "transport_ok env" and "reacts_by_calls env" and "handling c" and "outbox_ok (c_outbox c)"
    and "parser_ok (c_parser c)" and "unat n \<le> length rxBuffer" and "unat n < 2 ^ 31"
  shows "(\<exists>c'. MqttClient_checkOutbox env c = Some c' \<and>
      (q_current (c_outbox c') = None \<or> (\<exists>d k. MqttClient_sendPacket env d = Some (k, c') \<and> k \<le> 0))) \<and>
    (\<exists>c'. MqttClient_receive env rxBuffer n 0 c = Some c' \<and> c_taken c' \<and>
      (parser_ok (c_parser c') \<or> c_state c' = disconnectingTcp1))"
proof
  show "\<exists>c'. MqttClient_checkOutbox env c = Some c' \<and>
      (q_current (c_outbox c') = None \<or> (\<exists>d k. MqttClient_sendPacket env d = Some (k, c') \<and> k \<le> 0))"
    using checkOutbox_evolves [OF assms(1,4)] checkOutbox_exit by (fastforce simp: ok_def)
  have "ok (MqttClient_receive env rxBuffer n 0 c) (received c)"
    using receive_ends [OF assms(2-5), of 0 n rxBuffer] assms(6,7) by simp
  then show "\<exists>c'. MqttClient_receive env rxBuffer n 0 c = Some c' \<and> c_taken c' \<and>
      (parser_ok (c_parser c') \<or> c_state c' = disconnectingTcp1)"
    using assms(3) by (auto simp: ok_def received_def handling_def)
qed

theorem loops_terminate_witness:
  "\<exists>c'. MqttClient_receive (reacting sample_program sink) [0x20, 2, 0, 0, 0xD0, 0, 0xFF] 7 0
      ((MqttClient_init [97] [])\<lparr>c_state := connectingMqtt, c_taken := True\<rparr>) = Some c'"
proof -
  let ?c = "(MqttClient_init [97] ([] :: u8 list))\<lparr>c_state := connectingMqtt, c_taken := True\<rparr>"
  have "handling ?c" "outbox_ok (c_outbox ?c)" "parser_ok (c_parser ?c)"
    using config_ok_init parser_ok_init
    by (simp_all add: handling_def MqttClient_init_def outbox_ok_def)
  from loops_terminate [OF _ sample_program_ok this, of sink 7 "[0x20, 2, 0, 0, 0xD0, 0, 0xFF]"]
  show ?thesis by (auto simp: sink_ok)
qed

end
