(* ===== verification/MqttClientSetup.thy ===== *)
theory MqttClientSetup
  imports MqttClient
begin

text \<open>
  \<open>src/src/MqttClientSetup.h\<close>: the setters of the configuration, and the callbacks, in the two ways
  the build flag \<open>EMC_MULTIPLE_CALLBACKS\<close> offers: a single one for each event, which is all that the
  client of \<open>MqttClient.thy\<close> needs to know, or a list of them with an id each. A callback of type
  \<open>'h\<close> is opaque here; \<open>None\<close> is the empty \<open>std::function\<close>.
\<close>

subsection \<open>Setters\<close>

definition setConfig :: "(Config \<Rightarrow> Config) \<Rightarrow> 'w Client \<Rightarrow> 'w Client" where
  "setConfig f c = c\<lparr>c_config := f (c_config c)\<rparr>"

definition setKeepAlive :: "u16 \<Rightarrow> 'w Client \<Rightarrow> 'w Client" where
  "setKeepAlive keepAlive = setConfig (\<lambda>g. g\<lparr>g_keepAlive := ucast keepAlive * 1000\<rparr>)"

definition setClientId :: "cstring option \<Rightarrow> 'w Client \<Rightarrow> 'w Client" where
  "setClientId clientId = setConfig (\<lambda>g. g\<lparr>g_clientId := clientId\<rparr>)"

definition setCleanSession :: "bool \<Rightarrow> 'w Client \<Rightarrow> 'w Client" where
  "setCleanSession cleanSession = setConfig (\<lambda>g. g\<lparr>g_cleanSession := cleanSession\<rparr>)"

definition setCredentials :: "cstring option \<Rightarrow> cstring option \<Rightarrow> 'w Client \<Rightarrow> 'w Client" where
  "setCredentials username password =
     setConfig (\<lambda>g. g\<lparr>g_username := username, g_password := password\<rparr>)"

text \<open>The length is cut down to the 16 bits of \<open>_willPayloadLength\<close>.\<close>

definition setWill ::
    "cstring option \<Rightarrow> u8 \<Rightarrow> bool \<Rightarrow> u8 list option \<Rightarrow> size_t \<Rightarrow> 'w Client \<Rightarrow> 'w Client" where
  "setWill topic qos retain payload len =
     setConfig (\<lambda>g. g\<lparr>g_willTopic := topic, g_willQos := qos, g_willRetain := retain,
       g_willPayload := payload, g_willPayloadLength := (if payload = None then 0 else ucast len)\<rparr>)"

definition setWill_string ::
    "cstring option \<Rightarrow> u8 \<Rightarrow> bool \<Rightarrow> u8 list \<Rightarrow> 'w Client \<Rightarrow> 'w Client option" where
  "setWill_string topic qos retain payload c = do {
     len \<leftarrow> strlen payload;
     Some (setWill topic qos retain (Some payload) (of_nat len) c)
   }"

definition setServer_ip :: "u32 \<Rightarrow> u16 \<Rightarrow> 'w Client \<Rightarrow> 'w Client" where
  "setServer_ip ip port = setConfig (\<lambda>g. g\<lparr>g_ip := ip, g_port := port, g_useIp := True\<rparr>)"

definition setServer_host :: "cstring option \<Rightarrow> u16 \<Rightarrow> 'w Client \<Rightarrow> 'w Client" where
  "setServer_host host port = setConfig (\<lambda>g. g\<lparr>g_host := host, g_port := port, g_useIp := False\<rparr>)"

definition setTimeout :: "u16 \<Rightarrow> 'w Client \<Rightarrow> 'w Client" where
  "setTimeout timeout = setConfig (\<lambda>g. g\<lparr>g_timeout := ucast timeout * 1000\<rparr>)"

subsection \<open>One callback for each event\<close>

definition onConnect :: "bool \<Rightarrow> 'w Client \<Rightarrow> 'w Client" where
  "onConnect isSet = setConfig (\<lambda>g. g\<lparr>g_onConnectCallback := isSet\<rparr>)"

definition onDisconnect :: "bool \<Rightarrow> 'w Client \<Rightarrow> 'w Client" where
  "onDisconnect isSet = setConfig (\<lambda>g. g\<lparr>g_onDisconnectCallback := isSet\<rparr>)"

definition onSubscribe :: "bool \<Rightarrow> 'w Client \<Rightarrow> 'w Client" where
  "onSubscribe isSet = setConfig (\<lambda>g. g\<lparr>g_onSubscribeCallback := isSet\<rparr>)"

definition onUnsubscribe :: "bool \<Rightarrow> 'w Client \<Rightarrow> 'w Client" where
  "onUnsubscribe isSet = setConfig (\<lambda>g. g\<lparr>g_onUnsubscribeCallback := isSet\<rparr>)"

definition onMessage :: "bool \<Rightarrow> 'w Client \<Rightarrow> 'w Client" where
  "onMessage isSet = setConfig (\<lambda>g. g\<lparr>g_onMessageCallback := isSet\<rparr>)"

definition onPublish :: "bool \<Rightarrow> 'w Client \<Rightarrow> 'w Client" where
  "onPublish isSet = setConfig (\<lambda>g. g\<lparr>g_onPublishCallback := isSet\<rparr>)"

subsection \<open>Several callbacks for each event\<close>




























subsection \<open>The registry\<close>









end
