(* ===== verification/ClientProtocol.thy ===== *)
theory ClientProtocol
  imports ClientSystem MqttClientSetup
begin

text \<open>
  What the operations of the client do: the queue, packet identifiers, the calls of the user, the
  acknowledgements of both QoS levels, keep-alive, retries, and disconnecting.
\<close>

subsection \<open>Clearing the queue\<close>

lemma clear_from_filter:
  "k \<le> length xs \<Longrightarrow> i \<le> length xs \<Longrightarrow> clear_from keep k (xs, i) =
     (take k xs @ filter keep (drop k xs),
      if i \<le> k then i else k + length (filter keep (take (i - k) (drop k xs))))"
proof (induction "length xs - k" arbitrary: k xs i)
  case 0
  then show ?case by (subst clear_from.simps) simp
next
  case (Suc m)
  then have k: "k < length xs" by simp
  then have split: "drop k xs = xs ! k # drop (Suc k) xs" by (simp add: Cons_nth_drop_Suc)
  show ?case
  proof (cases "keep (xs ! k)")
    case True
    have "clear_from keep k (xs, i) = clear_from keep (Suc k) (xs, i)"
      using True k by (subst clear_from.simps) simp
    also have "\<dots> = (take (Suc k) xs @ filter keep (drop (Suc k) xs),
      if i \<le> Suc k then i else Suc k + length (filter keep (take (i - Suc k) (drop (Suc k) xs))))"
      using Suc.hyps(2) Suc.prems k by (intro Suc.hyps(1)) simp_all
    finally show ?thesis
      using True k by (auto simp: split take_Suc_conv_app_nth take_Cons' not_le)
  next
    case False
    have len: "length (del k xs) = length xs - 1" using k by simp
    have parts: "take k (del k xs) = take k xs" "drop k (del k xs) = drop (Suc k) xs"
      using k by (simp_all add: del_def)
    have "clear_from keep k (xs, i) = clear_from keep k (del k xs, if k < i then i - 1 else i)"
      using False k by (subst clear_from.simps) (simp add: q_remove_def)
    also have "\<dots> = (take k (del k xs) @ filter keep (drop k (del k xs)),
      if (if k < i then i - 1 else i) \<le> k then (if k < i then i - 1 else i)
      else k + length (filter keep (take ((if k < i then i - 1 else i) - k) (drop k (del k xs)))))"
      using Suc.hyps(2) Suc.prems k len by (intro Suc.hyps(1)) auto
    finally show ?thesis
      using False by (auto simp: parts split take_Cons')
  qed
qed

text \<open>Clearing the queue removes exactly the packets that are not to be kept, in one pass: the
  others stay in order, and the cursor stays at the packet it was at, or moves to the next one kept.
  Without session data to delete, the client keeps PUBREC, PUBREL and PUBLISH with a packet id;
  on a new session it keeps PUBLISH only; else nothing.\<close>

lemma clear_queue_keeps:
  assumes "outbox_ok (c_outbox c)" and "c_outbox c = (xs, i)"
  shows "c_outbox (MqttClient_clearQueueData k c) =
      (filter (kept k) xs, length (filter (kept k) (take i xs))) \<and>
    (kept 0 x \<longleftrightarrow> Packet_packetType (op_packet x) \<in> {PUBREC, PUBREL} \<or>
      Packet_packetType (op_packet x) = PUBLISH \<and> p_packetId (op_packet x) \<noteq> 0) \<and>
    (kept 1 x \<longleftrightarrow> Packet_packetType (op_packet x) = PUBLISH) \<and> \<not> kept 2 x"
proof -
  have "i \<le> length xs" using assms by (simp add: outbox_ok_def)
  then have "c_outbox (MqttClient_clearQueueData k c) =
      (filter (kept k) xs, length (filter (kept k) (take i xs)))"
    using clear_from_filter [of 0 xs i "kept k"] assms(2) by (simp add: MqttClient_clearQueueData_def)
  then show ?thesis
    by (auto simp: kept_def op_packetType_def op_packetId_def Packet_packetId_def)
qed

text \<open>Packets for the witnesses: a PUBLISH waiting for its acknowledgement, and a PINGREQ.\<close>

definition sample_publish :: OutgoingPacket where
  "sample_publish = \<lparr>op_timeSent = 5, op_packet = packet_of 1 [0x3A, 5, 0, 1, 116, 0, 1]\<rparr>"

definition sample_ping :: OutgoingPacket where
  "sample_ping = \<lparr>op_timeSent = 0, op_packet = packet_of 0 [0xC0, 0]\<rparr>"

definition sample_client :: "OutgoingPacket queue \<Rightarrow> (u8 list) Client" where
  "sample_client q = (MqttClient_init [97] [])\<lparr>c_config := Config_init [97], c_outbox := q\<rparr>"

lemmas sample_defs = sample_publish_def sample_ping_def sample_client_def packet_of_def blank_def
  op_packetType_def op_packetId_def Packet_packetType_def Packet_packetId_def Packet_removable_def

lemma sample_ok: "outbox_ok ([sample_ping, sample_publish], 0)" "outbox_ok ([sample_publish, sample_ping], 1)"
  by (simp_all add: outbox_ok_def sendable_def whole_def awaiting_def sample_defs)

lemma sample_fields [simp]:
  "c_outbox (sample_client q) = q" "c_config (sample_client q) = Config_init [97]" "\<not> c_taken (sample_client q)"
  by (simp_all add: sample_client_def MqttClient_init_def)

lemma sample_inv: "outbox_ok q \<Longrightarrow> client_inv (sample_client q)"
  using init_inv [OF config_ok_init, where clientId = "[97]" and w = "[] :: u8 list"]
  by (simp add: client_inv_def sample_client_def)

subsection \<open>Packet identifiers\<close>

text \<open>The identifiers that \<open>n\<close> calls in a row return.\<close>

fun next_ids :: "nat \<Rightarrow> 'w Client \<Rightarrow> u16 list" where
  "next_ids 0 c = []"
| "next_ids (Suc n) c =
     (let (packetId, c) = MqttClient_getNextPacketId c in packetId # next_ids n c)"

lemma next_id_value:
  "unat (fst (MqttClient_getNextPacketId c)) = unat (c_packetId c) mod 65535 + 1"
  "c_packetId (snd (MqttClient_getNextPacketId c)) = fst (MqttClient_getNextPacketId c)"
proof -
  define p where "p = c_packetId c"
  have bound: "unat p < 65536" by (rule u16_bound)
  show "unat (fst (MqttClient_getNextPacketId c)) = unat (c_packetId c) mod 65535 + 1"
  proof (cases "unat p = 65535")
    case True
    then have "p = 0xFFFF" by (simp add: word_unat_eq_iff)
    then show ?thesis
      by (simp add: MqttClient_getNextPacketId_def Let_def flip: p_def)
  next
    case False
    with bound have v: "unat (p + 1) = unat p + 1" by (subst unat_add_lem [THEN iffD1]) simp_all
    then have "p + 1 \<noteq> 0" by (metis add_is_0 one_neq_zero unat_0)
    with v False bound show ?thesis
      by (simp add: MqttClient_getNextPacketId_def Let_def flip: p_def)
  qed
qed (simp add: MqttClient_getNextPacketId_def Let_def)

lemma length_next_ids [simp]: "length (next_ids n c) = n"
  by (induction n arbitrary: c) (simp_all split: prod.split)

lemma next_ids_nth:
  "j < n \<Longrightarrow> unat (next_ids n c ! j) = (unat (c_packetId c) + j) mod 65535 + 1"
proof (induction n arbitrary: c j)
  case (Suc n)
  obtain i c' where next_eq: "MqttClient_getNextPacketId c = (i, c')" by (cases "MqttClient_getNextPacketId c")
  with next_id_value [of c] have v: "unat i = unat (c_packetId c) mod 65535 + 1" "c_packetId c' = i" by simp_all
  show ?case
  proof (cases j)
    case 0
    with next_eq v show ?thesis by simp
  next
    case (Suc k)
    then have "unat (next_ids (Suc n) c ! j) = (unat (c_packetId c) mod 65535 + 1 + k) mod 65535 + 1"
      using Suc.IH [of k c'] Suc.prems next_eq v by simp
    also have "\<dots> = (unat (c_packetId c) + j) mod 65535 + 1"
      unfolding Suc by (metis add.assoc add_Suc_right mod_add_left_eq plus_1_eq_Suc)
    finally show ?thesis .
  qed
qed simp

text \<open>C30: Packet identifiers are never 0, also when the 16-bit counter wraps, and of 65535
  consecutive ones no two are the same.\<close>

theorem packet_ids_distinct:
  assumes "n \<le> 65535"
  shows "0 \<notin> set (next_ids n c) \<and> distinct (next_ids n c)"
proof
  show "0 \<notin> set (next_ids n c)"
    using next_ids_nth [of _ n c] by (force simp: in_set_conv_nth)
  have "i = j" if "i < n" "j < n" "next_ids n c ! i = next_ids n c ! j" for i j
  proof -
    have "(unat (c_packetId c) + i) mod 65535 = (unat (c_packetId c) + j) mod 65535"
      using next_ids_nth [of i n c] next_ids_nth [of j n c] that by simp
    then have "i mod 65535 = j mod 65535"
      by (simp add: mod_add_cong nat_mod_eq_iff)
    with that assms show ?thesis by simp
  qed
  then show "distinct (next_ids n c)"
    by (auto simp: distinct_conv_nth)
qed

theorem packet_ids_distinct_witness:
  "next_ids 2 ((MqttClient_init [97] ([] :: u8 list))\<lparr>c_packetId := 0xFFFF\<rparr>) = [1, 2] \<and> distinct [1, 2 :: u16]"
proof -
  let ?c = "(MqttClient_init [97] ([] :: u8 list))\<lparr>c_packetId := 0xFFFF\<rparr>"
  have "next_ids (Suc (Suc 0)) ?c = [1, 2]"
    by (simp add: MqttClient_getNextPacketId_def Let_def)
  with packet_ids_distinct [of "Suc (Suc 0)" ?c] show ?thesis
    by (simp add: numeral_2_eq_2 del: next_ids.simps)
qed


subsection \<open>Adding a packet\<close>

text \<open>Whether the memory lets a packet in, and where it goes then.\<close>

definition granted :: "'w Env \<Rightarrow> 'w Client \<Rightarrow> (Memory \<Rightarrow> bool) \<Rightarrow> bool" where
  "granted env c acc \<longleftrightarrow> fst (fst (e_alloc env (c_world c))) \<and> acc (snd (fst (e_alloc env (c_world c))))"

definition after_alloc :: "'w Env \<Rightarrow> 'w Client \<Rightarrow> 'w Client" where
  "after_alloc env c = c\<lparr>c_world := snd (e_alloc env (c_world c))\<rparr>"

definition enqueue :: "Packet \<Rightarrow> 'w Client \<Rightarrow> 'w Client" where
  "enqueue p c = c\<lparr>c_outbox := (fst (c_outbox c) @ [\<lparr>op_timeSent = 0, op_packet = p\<rparr>], snd (c_outbox c))\<rparr>"

lemma after_alloc_fields [simp]:
  "c_outbox (after_alloc env c) = c_outbox c" "c_parser (after_alloc env c) = c_parser c"
  "c_events (after_alloc env c) = c_events c" "c_config (after_alloc env c) = c_config c"
  "c_state (after_alloc env c) = c_state c" "c_packetId (after_alloc env c) = c_packetId c"
  "c_pingSent (after_alloc env c) = c_pingSent c" "incoming (after_alloc env c) = incoming c"
  "c_bytesSent (after_alloc env c) = c_bytesSent c" "c_taken (after_alloc env c) = c_taken c"
  by (simp_all add: after_alloc_def incoming_def)

lemma enqueue_fields [simp]:
  "c_outbox (enqueue p c) = (fst (c_outbox c) @ [\<lparr>op_timeSent = 0, op_packet = p\<rparr>], snd (c_outbox c))"
  "c_parser (enqueue p c) = c_parser c" "c_events (enqueue p c) = c_events c"
  "c_config (enqueue p c) = c_config c" "c_state (enqueue p c) = c_state c"
  "c_packetId (enqueue p c) = c_packetId c" "c_pingSent (enqueue p c) = c_pingSent c"
  "incoming (enqueue p c) = incoming c" "c_bytesSent (enqueue p c) = c_bytesSent c"
  "c_taken (enqueue p c) = c_taken c"
  by (simp_all add: enqueue_def incoming_def)

lemma addPacket_eq:
  assumes build: "\<And>mem. build mem = Some (if acc mem then (SUCCESS, p) else (OUT_OF_MEMORY, p'))"
    and ob: "outbox_ok (c_outbox c)"
  shows "MqttClient_addPacket env build c =
    Some (if granted env c acc then (True, enqueue p (after_alloc env c)) else (False, after_alloc env c))"
proof -
  obtain xs i where q: "c_outbox c = (xs, i)" by (cases "c_outbox c")
  then have undo: "q_remove (length xs) (q_emplace x (xs, i)) = (xs, i)" for x
    using ob by (auto simp: q_remove_def q_emplace_def del_def outbox_ok_def)
  obtain node mem w where al: "e_alloc env (c_world c) = ((node, mem), w)"
    by (metis prod.collapse)
  show ?thesis
    using undo q al
    by (auto simp: MqttClient_addPacket_def ask_def build granted_def after_alloc_def enqueue_def
        q_emplace_def Let_def)
qed

definition acks :: "Memory \<Rightarrow> bool" where
  "acks mem \<longleftrightarrow> accepts mem True 2"

lemma addPacket_ack:
  "outbox_ok (c_outbox c) \<Longrightarrow> MqttClient_addPacket env (\<lambda>mem. Packet_ack mem type packetId) c =
    Some (if granted env c acks then (True, enqueue (packet_of packetId (wire_ack type packetId)) (after_alloc env c))
          else (False, after_alloc env c))"
  by (rule addPacket_eq [where p' = "blank packetId None"]) (simp_all add: Packet_ack_eq acks_def)

subsection \<open>Acknowledgements\<close>

text \<open>The scans find a packet behind others that are not of its type.\<close>

lemma first_of_type_found:
  "\<forall>y \<in> set as. op_packetType y \<noteq> type \<Longrightarrow> op_packetType x = type \<Longrightarrow>
   first_of_type type packetId k (as @ x # bs) = (if op_packetId x = packetId then Some (k + length as) else None)"
  by (induction as arbitrary: k) auto

lemma first_of_type_none:
  "\<forall>y \<in> set xs. op_packetType y \<noteq> type \<Longrightarrow> first_of_type type packetId k xs = None"
  by (induction xs arbitrary: k) auto

lemma first_match_found:
  "\<forall>y \<in> set as. \<not> P y \<Longrightarrow> P x \<Longrightarrow> first_match P k (as @ x # bs) = Some (k + length as)"
  by (induction as arbitrary: k) auto

lemma first_match_None: "first_match P k xs = None \<longleftrightarrow> (\<forall>y \<in> set xs. \<not> P y)"
  by (induction xs arbitrary: k) auto

lemma q_remove_split:
  "q_remove (length as) (as @ x # bs, i) = (as @ bs, if length as < i then i - 1 else i)"
  by (simp add: q_remove_def del_def)

lemma removeAt_fields [simp]:
  "c_outbox (removeAt k c) = q_remove k (c_outbox c)" "c_events (removeAt k c) = c_events c"
  "c_state (removeAt k c) = c_state c" "c_taken (removeAt k c) = c_taken c"
  by (simp_all add: removeAt_def)

text \<open>C20: The acknowledgements that complete a message, PUBACK for QoS 1 and PUBCOMP for QoS 2,
  take exactly the first PUBLISH, respectively PUBREL, out of the outbox and then call the user's
  callback, if there is one, with its packet identifier, if that packet has the acknowledged
  identifier; otherwise, also if there is no such packet, nothing changes: an acknowledgement out of
  order or repeated is ignored.\<close>

theorem completion_acknowledged:
  assumes "c_outbox c = (as @ x # bs, i)" and "packetId = i_packetId (incoming c)"
    and "type = PUBLISH \<and> handler = MqttClient_onPuback env \<or> type = PUBREL \<and> handler = MqttClient_onPubcomp env"
    and "\<forall>y \<in> set as. op_packetType y \<noteq> type" and "op_packetType x = type"
  shows "handler c = (if op_packetId x = packetId
      then callback env g_onPublishCallback (OnPublish packetId)
        (c\<lparr>c_outbox := (as @ bs, if length as < i then i - 1 else i)\<rparr>)
      else Some c) \<and>
    (\<forall>d. (\<forall>y \<in> set (fst (c_outbox d)). op_packetType y \<noteq> type) \<longrightarrow> handler d = Some d)"
  using first_of_type_found [OF assms(4,5), of packetId 0 bs] assms(1-3)
  by (auto simp: MqttClient_onPuback_def MqttClient_onPubcomp_def Let_def first_of_type_none removeAt_def
      q_remove_split)

text \<open>A client that has just parsed a packet with identifier 1, and reports every event.\<close>

definition heard :: "u8 \<Rightarrow> OutgoingPacket queue \<Rightarrow> (u8 list) Client" where
  "heard header q = (sample_client q)
     \<lparr>c_config := (Config_init [97])\<lparr>g_onPublishCallback := True, g_onMessageCallback := True, g_onConnectCallback := True\<rparr>,
      c_taken := True,
      c_parser := Parser_init\<lparr>r_packet := (r_packet Parser_init)\<lparr>i_packetType := header, i_packetId := 1\<rparr>\<rparr>\<rparr>"

definition sample_ack :: "u8 \<Rightarrow> OutgoingPacket" where
  "sample_ack type = \<lparr>op_timeSent = 5, op_packet = packet_of 1 [type, 2, 0, 1]\<rparr>"

lemma sample_types [simp]:
  "op_packetType sample_publish = PUBLISH" "op_packetId sample_publish = 1"
  "op_packetType sample_ping = PINGREQ" "op_packetId sample_ping = 0"
  "op_packetType (sample_ack type) = type AND 0xF0" "op_packetId (sample_ack type) = 1"
  by (simp_all add: sample_defs sample_ack_def)

lemma heard_fields [simp]:
  "c_outbox (heard header q) = q" "i_packetId (incoming (heard header q)) = 1"
  "i_packetType (incoming (heard header q)) = header" "c_events (heard header q) = []"
  "g_onPublishCallback (c_config (heard header q))" "g_onMessageCallback (c_config (heard header q))"
  "g_onConnectCallback (c_config (heard header q))"
  "c_world (heard header q) = []" "c_state (heard header q) = disconnected" "c_taken (heard header q)"
  by (simp_all add: heard_def incoming_def sample_client_def MqttClient_init_def)

text \<open>A callback that makes no calls only leaves its event.\<close>

lemma silent_callback:
  "c_taken c \<Longrightarrow> e_react env = (\<lambda>e c. Some c) \<Longrightarrow>
    callback env isSet e c = Some (if isSet (c_config c) then c\<lparr>c_events := c_events c @ [e]\<rparr> else c)"
  by (cases c) (simp add: callback_def semaphore_give_def semaphore_take_def)

lemma silent_notify:
  "e_react env = (\<lambda>e c. Some c) \<Longrightarrow>
    notify env isSet e c = Some (if isSet (c_config c) then c\<lparr>c_events := c_events c @ [e]\<rparr> else c)"
  by (simp add: notify_def)

lemma sink_silent [simp]: "e_react sink = (\<lambda>e c. Some c)"
  by (simp add: sink_def)

theorem completion_acknowledged_witness:
  "\<exists>c. MqttClient_onPuback sink (heard 0x40 ([sample_ping, sample_publish], 2)) = Some c \<and>
    c_outbox c = ([sample_ping], 1) \<and> c_events c = [OnPublish 1]"
  using completion_acknowledged [of "heard 0x40 ([sample_ping, sample_publish], 2)" "[sample_ping]" sample_publish "[]" 2 1
      PUBLISH "MqttClient_onPuback sink" sink]
  by (simp add: silent_callback)

text \<open>C4: The exactly-once handshake, both sides. A PUBREC for the first PUBLISH of the outbox
  replaces it by a PUBREL at the end of the queue, a PUBREL for the first PUBREC replaces that by a
  PUBCOMP; the packet identifier is kept, nothing is reported to the user. If memory is short the
  old packet is removed without its successor. A packet out of order changes nothing.\<close>

theorem exactly_once_handshake:
  assumes "outbox_ok (as @ x # bs, i)" and "c_outbox c = (as @ x # bs, i)" and "packetId = i_packetId (incoming c)"
    and "type = PUBLISH \<and> handler = MqttClient_onPubrec env \<and> reply = PUBREL \<or>
      type = PUBREC \<and> handler = MqttClient_onPubrel env \<and> reply = PUBCOMP"
    and "\<forall>y \<in> set as. op_packetType y \<noteq> type" and "op_packetType x = type"
  shows "\<exists>c'. handler c = Some c' \<and> c_events c' = c_events c \<and>
    c_outbox c' = (if op_packetId x \<noteq> packetId then c_outbox c
      else (as @ bs @ (if granted env c acks
          then [\<lparr>op_timeSent = 0, op_packet = packet_of packetId (wire_ack reply packetId)\<rparr>] else []),
        if length as < i then i - 1 else i))"
proof -
  have eq: "handler c = (case first_of_type type packetId 0 (fst (c_outbox c)) of
      Some k \<Rightarrow> do {
        (added, c) \<leftarrow> MqttClient_addPacket env (\<lambda>mem. Packet_ack mem reply packetId) c;
        Some (removeAt k c)
      }
    | None \<Rightarrow> Some c)"
    using assms(3,4) by (auto simp: MqttClient_onPubrec_def MqttClient_onPubrel_def Let_def)
  have del: "q_remove (length as) (as @ x # bs @ more, i) = (as @ bs @ more, if length as < i then i - 1 else i)" for more
    using q_remove_split [of as x "bs @ more" i] by simp
  show ?thesis
    using first_of_type_found [OF assms(5,6), of packetId 0 bs] addPacket_ack [of c env reply packetId] assms(1,2)
      q_remove_split [of as x bs i] del
    by (simp add: eq del: append_assoc) (simp add: del)
qed


theorem exactly_once_handshake_witness:
  "\<exists>c'. MqttClient_onPubrec sink (heard 0x50 ([sample_publish, sample_ping], 1)) = Some c' \<and> c_events c' = []"
proof -
  have "outbox_ok ([] @ sample_publish # [sample_ping], 1)" using sample_ok by simp
  from exactly_once_handshake [OF this, of "heard 0x50 ([sample_publish, sample_ping], 1)" 1 PUBLISH
      "MqttClient_onPubrec sink" sink PUBREL]
  show ?thesis by auto
qed


subsection \<open>Receiving messages\<close>

lemma messageEvent_parser: "c_parser c' = c_parser c \<Longrightarrow> messageEvent c' = messageEvent c"
  by (simp add: messageEvent_def incoming_def Let_def)

text \<open>The packet that answers a PUBLISH, once its last part has arrived.\<close>

definition answer :: "'w Client \<Rightarrow> OutgoingPacket list" where
  "answer c = (let p = incoming c; qos = IncomingPacket_qos p in
     if i_index p + i_length p = i_total p \<and> (qos = 1 \<or> qos = 2)
     then [\<lparr>op_timeSent = 0, op_packet = packet_of (i_packetId p)
             (wire_ack (if qos = 1 then PUBACK else PUBREC) (i_packetId p))\<rparr>]
     else [])"

definition already_received :: "'w Client \<Rightarrow> bool" where
  "already_received c \<longleftrightarrow> IncomingPacket_qos (incoming c) = 2 \<and>
     (\<exists>x \<in> set (fst (c_outbox c)). op_packetType x = PUBREC \<and> op_packetId x = i_packetId (incoming c))"

text \<open>The client after it has queued the answer to a PUBLISH, if any.\<close>

definition answered :: "'w Env \<Rightarrow> 'w Client \<Rightarrow> 'w Client \<Rightarrow> bool" where
  "answered env c c' \<longleftrightarrow>
     c_outbox c' = (fst (c_outbox c) @ (if granted env c acks then answer c else []), snd (c_outbox c)) \<and>
     c_events c' = c_events c \<and> c_config c' = c_config c \<and> c_parser c' = c_parser c \<and> c_taken c' = c_taken c \<and>
     c_state c' = c_state c"

lemma onPublish_effect:
  assumes "outbox_ok (c_outbox c)" and e: "messageEvent c = Some e"
  shows "\<exists>c'. answered env c c' \<and> MqttClient_onPublish env c =
    (if already_received c then Some c' else callback env g_onMessageCallback e c')"
proof -
  let ?p = "incoming c"
  let ?qos = "IncomingPacket_qos ?p"
  define reply where "reply type = (if granted env c acks
    then enqueue (packet_of (i_packetId ?p) (wire_ack type (i_packetId ?p))) (after_alloc env c) else after_alloc env c)" for type
  define c' where "c' = (if i_index ?p + i_length ?p = i_total ?p \<and> (?qos = 1 \<or> ?qos = 2)
    then reply (if ?qos = 1 then PUBACK else PUBREC) else c)"
  have c': "answered env c c'"
    by (auto simp: c'_def reply_def answered_def answer_def Let_def)
  then have ev: "messageEvent c' = Some e" "g_onMessageCallback (c_config c') = g_onMessageCallback (c_config c)"
    using messageEvent_parser [of c' c] e by (simp_all add: answered_def)
  have unset: "callback env g_onMessageCallback e c' = Some c'" if "\<not> g_onMessageCallback (c_config c)"
    using that ev(2) by (simp add: callback_def)
  have add: "map_option snd (MqttClient_addPacket env (\<lambda>mem. Packet_ack mem type (i_packetId ?p)) c) = Some (reply type)" for type
    by (simp add: addPacket_ack [OF assms(1), of env] reply_def)
  have known: "first_match (\<lambda>x. op_packetType x = PUBREC \<and> op_packetId x = i_packetId ?p) 0
      (fst (c_outbox c)) = None \<longleftrightarrow> \<not> already_received c" if "?qos = 2"
    using that by (auto simp: first_match_None already_received_def)
  have stage: "(if ?qos = 1 then do {
        c \<leftarrow> (if i_index ?p + i_length ?p = i_total ?p
             then map_option snd (MqttClient_addPacket env (\<lambda>mem. Packet_ack mem PUBACK (i_packetId ?p)) c) else Some c);
        Some (True, c)
      }
      else if ?qos = 2 then do {
        c' \<leftarrow> (if i_index ?p + i_length ?p = i_total ?p
             then map_option snd (MqttClient_addPacket env (\<lambda>mem. Packet_ack mem PUBREC (i_packetId ?p)) c) else Some c);
        Some (first_match (\<lambda>x. op_packetType x = PUBREC \<and> op_packetId x = i_packetId ?p) 0 (fst (c_outbox c)) = None, c')
      }
      else Some (True, c)) = Some (\<not> already_received c, c')"
  proof -
    consider "?qos = 1" | "?qos = 2" | "?qos \<noteq> 1" "?qos \<noteq> 2" by blast
    then show ?thesis
    proof cases
      case 1
      then show ?thesis by (simp add: add c'_def already_received_def)
    next
      case 2
      with known show ?thesis by (simp add: add c'_def)
    next
      case 3
      then show ?thesis by (simp add: c'_def already_received_def)
    qed
  qed
  have "MqttClient_onPublish env c = (if already_received c then Some c' else callback env g_onMessageCallback e c')"
    unfolding MqttClient_onPublish_def Let_def stage using ev unset by simp
  with c' show ?thesis by blast
qed

text \<open>C5: An incoming PUBLISH is handed to the message callback, except a QoS 2 message whose PUBREC is
  still in the outbox: that one was delivered before. So a QoS 2 message that the server repeats is
  delivered once as long as the PUBREC stays, and the PUBREC of the first delivery is queued by that
  delivery. Before the callback runs, the last part of a QoS 1 message is answered by a PUBACK, of a
  QoS 2 message by a PUBREC, with its packet identifier, at the end of the queue, if there is memory
  for it; QoS 0 and earlier parts are not answered.\<close>

theorem message_delivery:
  assumes "outbox_ok (c_outbox c)" and "messageEvent c = Some e"
  shows "\<exists>c'. MqttClient_onPublish env c =
      (if already_received c then Some c' else callback env g_onMessageCallback e c') \<and>
    c_outbox c' = (fst (c_outbox c) @ (if granted env c acks then answer c else []), snd (c_outbox c)) \<and>
    c_events c' = c_events c"
  using onPublish_effect [OF assms, of env] by (auto simp: answered_def)

theorem message_delivery_witness:
  "\<exists>c'. MqttClient_onPublish sink (heard 0x34 ([sample_ack 0x50], 0)) = Some c' \<and> c_events c' = [] \<and>
    already_received (heard 0x34 ([sample_ack 0x50], 0))"
proof -
  let ?c = "heard 0x34 ([sample_ack 0x50], 0)"
  have "outbox_ok ([sample_ack 0x50], 0)"
    by (simp add: outbox_ok_def sendable_def whole_def sample_ack_def packet_of_def blank_def)
  moreover have "messageEvent ?c \<noteq> None"
    using topic_terminated [of Parser_init] parser_ok_wf [OF parser_ok_init]
    by (simp add: messageEvent_def incoming_def heard_def Parser_init_def Let_def strlen_def)
  moreover have "already_received ?c"
    by (simp add: already_received_def IncomingPacket_qos_def)
  ultimately show ?thesis
    using message_delivery [of ?c _ sink] by force
qed


subsection \<open>The calls of the user\<close>

definition publish_id :: "u8 \<Rightarrow> 'w Client \<Rightarrow> u16" where
  "publish_id qos c = (if 0 < qos then fst (MqttClient_getNextPacketId c) else 1)"

definition publish_acc :: "u16 \<Rightarrow> cstring \<Rightarrow> u8 list \<Rightarrow> u8 \<Rightarrow> Memory \<Rightarrow> bool" where
  "publish_acc packetId topic payload qos mem =
     accepts mem True (of_nat (length (publish_body packetId topic payload qos)))"

lemma next_id_fields [simp]:
  "c_world (snd (MqttClient_getNextPacketId c)) = c_world c"
  "c_events (snd (MqttClient_getNextPacketId c)) = c_events c"
  "c_bytesSent (snd (MqttClient_getNextPacketId c)) = c_bytesSent c"
  "c_taken (snd (MqttClient_getNextPacketId c)) = c_taken c"
  "c_outbox (snd (MqttClient_getNextPacketId c)) = c_outbox c"
  "c_config (snd (MqttClient_getNextPacketId c)) = c_config c"
  "c_state (snd (MqttClient_getNextPacketId c)) = c_state c"
  by (simp_all add: MqttClient_getNextPacketId_def Let_def)

lemma next_id_nonzero: "fst (MqttClient_getNextPacketId c) \<noteq> 0"
  using next_id_value(1) [of c] by auto

text \<open>Taking a free semaphore and giving it back changes nothing.\<close>

lemma take_give: "\<not> c_taken c \<Longrightarrow> (do { c \<leftarrow> semaphore_take c; c \<leftarrow> semaphore_give c; f c }) = f c"
  by (cases c) (simp add: semaphore_take_def semaphore_give_def)

text \<open>What is reported to the user when there is no memory.\<close>

lemma onError_called:
  assumes "reacts_by_calls env" and "client_inv c" and "c_config c' = c_config c" and "\<not> c_taken c'"
  shows "\<exists>c''. MqttClient_onError env i e c' = Some c'' \<and> called c' c''"
  using notify_called [OF assms(1), of c' g_onErrorCallback "OnError i e"] client_inv_ready [OF assms(2)] assms(3,4)
  by (simp add: MqttClient_onError_def ok_def)

lemma granted_world: "c_world c' = c_world c \<Longrightarrow> granted env c' acc = granted env c acc"
  by (simp add: granted_def)

text \<open>The client that \<open>publish\<close> builds the packet with: it has taken the identifier.\<close>

definition identified :: "u8 \<Rightarrow> 'w Client \<Rightarrow> 'w Client" where
  "identified qos c = (if 0 < qos then snd (MqttClient_getNextPacketId c) else c)"

lemma identified_fields [simp]:
  "c_outbox (identified qos c) = c_outbox c" "c_world (identified qos c) = c_world c"
  "c_events (identified qos c) = c_events c" "c_config (identified qos c) = c_config c"
  "c_bytesSent (identified qos c) = c_bytesSent c" "c_taken (identified qos c) = c_taken c"
  by (simp_all add: identified_def)

lemma publish_id_nonzero: "publish_id qos c \<noteq> 0"
  by (simp add: publish_id_def next_id_nonzero)

lemma publish_eq:
  assumes ob: "outbox_ok (c_outbox c)" and free: "\<not> c_taken c" and "qos \<le> 2" and "length topic \<le> 65535"
    and "fits (publish_body 0 topic payload qos)"
  shows "MqttClient_publish env topic qos retain payload (of_nat (length payload)) c =
    (let r = publish_id qos c in
     if \<not> mayPublish env c then Some (0, c)
     else if granted env c (publish_acc r topic payload qos)
     then Some (r, enqueue (packet_of (if qos = 0 then 0 else r) (wire_publish False r topic payload qos retain))
       (after_alloc env (identified qos c)))
     else do {
       c \<leftarrow> MqttClient_onError env r OUT_OF_MEMORY (after_alloc env (identified qos c));
       c \<leftarrow> semaphore_take c;
       c \<leftarrow> semaphore_give c;
       Some (0, c)
     })"
proof -
  define i where "i = publish_id qos c"
  define d where "d = identified qos (c\<lparr>c_taken := True\<rparr>)"
  have d: "c_outbox d = c_outbox c" "c_taken d" "c_world d = c_world c" by (simp_all add: d_def)
  have n: "(if 0 < qos then MqttClient_getNextPacketId (c\<lparr>c_taken := True\<rparr>) else (1, c\<lparr>c_taken := True\<rparr>)) = (i, d)"
    by (simp add: i_def d_def publish_id_def identified_def MqttClient_getNextPacketId_def Let_def)
  have given: "(enqueue p (after_alloc env d))\<lparr>c_taken := False\<rparr> = enqueue p (after_alloc env (identified qos c))"
    "(after_alloc env d)\<lparr>c_taken := False\<rparr> = after_alloc env (identified qos c)" for p
    using free by (cases c; simp add: d_def enqueue_def after_alloc_def identified_def MqttClient_getNextPacketId_def Let_def)+
  have body: "fits (publish_body i topic payload qos)" using assms(5) fits_any(1) [of i] by blast
  have add: "MqttClient_addPacket env (\<lambda>mem. Packet_publish mem i topic payload (of_nat (length payload)) qos retain) d =
    Some (if granted env c (publish_acc i topic payload qos)
      then (True, enqueue (packet_of (if qos = 0 then 0 else i) (wire_publish False i topic payload qos retain)) (after_alloc env d))
      else (False, after_alloc env d))"
    unfolding granted_world [OF d(3) [symmetric], of env]
    by (rule addPacket_eq [where p' = "blank (if qos = 0 then 0 else i) None"])
      (use ob d in \<open>simp_all add: Packet_publish_eq [OF assms(3,4) body] publish_acc_def\<close>)
  have report: "report env i (after_alloc env d) =
      (do { c \<leftarrow> MqttClient_onError env i OUT_OF_MEMORY (after_alloc env (identified qos c)); semaphore_take c })"
    using d(2) by (simp add: report_def semaphore_give_def given)
  have give: "semaphore_give (enqueue p (after_alloc env d)) = Some (enqueue p (after_alloc env (identified qos c)))" for p
    using d(2) by (simp add: semaphore_give_def given)
  show ?thesis
    using free
    by (simp add: MqttClient_publish_def semaphore_take_def [of c] n add i_def [symmetric] report give)
qed

lemma publish_id_value:
  "publish_id qos c = (if qos = 0 then 1 else if c_packetId c = 65535 then 1 else c_packetId c + 1)"
  "identified qos c = c\<lparr>c_packetId := (if qos = 0 then c_packetId c else publish_id qos c)\<rparr>"
proof -
  have "c_packetId c + 1 = 0 \<longleftrightarrow> c_packetId c = 65535"
  proof -
    have "(- 1 :: u16) = 65535" by simp
    then show ?thesis by (metis add.inverse_inverse add_eq_0_iff2)
  qed
  then show "publish_id qos c = (if qos = 0 then 1 else if c_packetId c = 65535 then 1 else c_packetId c + 1)"
    by (auto simp: publish_id_def MqttClient_getNextPacketId_def Let_def word_neq_0_conv)
  show "identified qos c = c\<lparr>c_packetId := (if qos = 0 then c_packetId c else publish_id qos c)\<rparr>"
    by (auto simp: publish_id_def identified_def MqttClient_getNextPacketId_def Let_def word_neq_0_conv)
qed

text \<open>C19: \<open>publish\<close> returns 0 without any effect when the state does not allow it. Otherwise it takes a
  packet identifier for QoS 1 and 2, the one after the last one taken, 1 following 65535 and never 0
  (it is not compared with those that still wait in the outbox); for QoS 0 the identifier is 1 and is not
  sent. With enough memory the MQTT encoding of the message is put at the end of the outbox, the
  identifier is returned and nothing else changes. If memory is short 0 is returned, nothing but the
  counter of identifiers has changed, and then the error callback gets the identifier.\<close>

theorem publish_queues:
  assumes "client_inv c" and "reacts_by_calls env" and "qos \<le> 2" and "length topic \<le> 65535"
    and "fits (publish_body 0 topic payload qos)"
  shows "let i = (if qos = 0 then 1 else if c_packetId c = 65535 then 1 else c_packetId c + 1);
      used = c\<lparr>c_packetId := (if qos = 0 then c_packetId c else i), c_world := snd (e_alloc env (c_world c))\<rparr>
    in i \<noteq> 0 \<and> (\<exists>r c'. MqttClient_publish env topic qos retain payload (of_nat (length payload)) c = Some (r, c') \<and>
    (if \<not> mayPublish env c then r = 0 \<and> c' = c
     else if granted env c (publish_acc i topic payload qos) then
       r = i \<and> c' = used\<lparr>c_outbox := (fst (c_outbox c) @ [\<lparr>op_timeSent = 0, op_packet =
           packet_of (if qos = 0 then 0 else i) (wire_publish False i topic payload qos retain)\<rparr>], snd (c_outbox c))\<rparr>
     else r = 0 \<and> MqttClient_onError env i OUT_OF_MEMORY used = Some c'))"
proof -
  have inv: "outbox_ok (c_outbox c)" "\<not> c_taken c" using assms(1) by (simp_all add: client_inv_def)
  define i where "i = publish_id qos c"
  define c1 where "c1 = after_alloc env (identified qos c)"
  have c1: "c_config c1 = c_config c" "\<not> c_taken c1" "c_outbox c1 = c_outbox c" "c_events c1 = c_events c"
    using inv by (simp_all add: c1_def)
  have used: "c\<lparr>c_packetId := (if qos = 0 then c_packetId c else i), c_world := snd (e_alloc env (c_world c))\<rparr> = c1"
    by (simp add: c1_def after_alloc_def publish_id_value(2) i_def)
  obtain c2 where c2: "MqttClient_onError env i OUT_OF_MEMORY c1 = Some c2" "called c1 c2"
    using onError_called [OF assms(2,1) c1(1,2)] by blast
  have "\<not> c_taken c2" using c2(2) c1(2) by (simp add: called_def)
  moreover have "i \<noteq> 0" by (simp add: i_def publish_id_nonzero)
  ultimately show ?thesis
    unfolding publish_id_value(1) [symmetric] i_def [symmetric] Let_def used
    using c1 c2(1) take_give [of c2 "\<lambda>c. Some (0 :: u16, c)"]
    by (simp add: publish_eq [OF inv assms(3-5)] Let_def i_def [symmetric] c1_def [symmetric])
      (simp add: enqueue_def c1)
qed

theorem publish_queues_witness:
  "\<exists>r c'. MqttClient_publish sink [116] 1 False [7] (of_nat (length [7 :: u8])) (sample_client ([], 0)) = Some (r, c') \<and> r \<noteq> 0"
proof -
  have "fits (publish_body 0 [116] [7] 1)"
    by (simp add: fits_def length_publish_body)
  moreover have "granted sink (sample_client ([], 0)) acc \<longleftrightarrow> acc ample" for acc
    by (simp add: granted_def sink_def)
  moreover have "mayPublish sink (sample_client ([], 0))"
    by (simp add: mayPublish_def sink_def sample_client_def MqttClient_init_def)
  moreover have "client_inv (sample_client ([], 0))"
    by (rule sample_inv) (simp add: outbox_ok_def)
  ultimately show ?thesis
    using publish_queues [OF _ sink_ok(2), of "sample_client ([], 0)" 1 "[116]" "[7]" False]
    by (auto simp: publish_acc_def Let_def)
qed

definition connect_packet :: "Config \<Rightarrow> cstring \<Rightarrow> u8 list" where
  "connect_packet g clientId = connect_body
     (connect_flags (g_cleanSession g) (g_username g \<noteq> None) (g_password g \<noteq> None) (g_willTopic g \<noteq> None)
       (g_willRetain g) (g_willQos g))
     (ucast (g_keepAlive g div 1000)) clientId
     (will_fields (g_willTopic g) (g_willPayload g) (g_willPayloadLength g)) (g_username g) (g_password g)"

text \<open>\<open>connect\<close> only acts on a disconnected client. It puts the CONNECT packet with the configured
  identity, credentials, will and keep-alive before everything that waits in the outbox, moves the
  cursor there, so that the session's unacknowledged packets follow, and starts connecting. If
  memory is short the client stays disconnected, the queue keeps its packets and the error is
  reported. (A will has its topic and its payload here.)\<close>

lemma connect_starts:
  assumes "client_inv c" and "reacts_by_calls env" and "g_clientId (c_config c) = Some clientId" "clientId \<noteq> []"
    and "g_willTopic (c_config c) = None \<or> g_willPayload (c_config c) \<noteq> None" and "g_willQos (c_config c) \<le> 2"
    and "acc = (\<lambda>mem. accepts mem False (of_nat (length (connect_packet (c_config c) clientId))))"
  shows "\<exists>r c'. MqttClient_connect env c = Some (r, c') \<and>
    (if c_state c \<noteq> disconnected then r = False \<and> c' = c
     else if granted env c acc then r \<and> c_state c' = connectingTcp1 \<and> c_events c' = c_events c \<and>
       c_outbox c' = (\<lparr>op_timeSent = 0, op_packet = packet_of 0 (wire_packet CONNECT (connect_packet (c_config c) clientId))\<rparr>
         # fst (c_outbox c), 0)
     else \<not> r \<and> (\<exists>c1. c_state c1 = disconnected \<and> fst (c_outbox c1) = fst (c_outbox c) \<and>
       c_events c1 = c_events c \<and> MqttClient_onError env 0 OUT_OF_MEMORY c1 = Some c'))"
proof -
  let ?g = "c_config c"
  have g: "length clientId \<le> 65535" "will_memory (g_willPayload ?g) (g_willPayloadLength ?g)"
    "short_option (g_willTopic ?g)" "short_option (g_username ?g)" "short_option (g_password ?g)"
    using assms(1,3) by (auto simp: client_inv_def config_ok_def short_option_def)
  have gap: "will_gap (g_willTopic ?g) (g_willPayload ?g) (g_willPayloadLength ?g) = 0"
    using assms(5) by (auto simp: will_gap_def split: option.splits)
  have eq: "Packet_connect mem (g_cleanSession ?g) (g_username ?g) (g_password ?g)
               (g_willTopic ?g) (g_willRetain ?g) (g_willQos ?g) (g_willPayload ?g)
               (g_willPayloadLength ?g) (ucast (g_keepAlive ?g div 1000)) (g_clientId ?g) =
    Some (if acc mem then (SUCCESS, packet_of 0 (wire_packet CONNECT (connect_packet ?g clientId)))
          else (OUT_OF_MEMORY, blank 0 None))" for mem
    unfolding assms(3) Packet_connect_eq [OF assms(4) g(1-3) g(4,5)]
    by (simp add: connect_packet_def connectFlags_reference [OF assms(6)] gap assms(7))
  obtain node mem world where al: "e_alloc env (c_world c) = ((node, mem), world)"
    by (metis prod.collapse)
  obtain xs i where q: "c_outbox c = (xs, i)" by (cases "c_outbox c")
  have undo: "fst (q_remove 0 (q_emplaceFront x (xs, i))) = xs" for x
    by (simp add: q_remove_def q_emplaceFront_def del_def)
  have free: "\<not> c_taken c" using assms(1) by (simp add: client_inv_def)
  show ?thesis
  proof (cases "c_state c = disconnected \<and> \<not> granted env c acc")
    case False
    with al q free show ?thesis
      by (auto simp: MqttClient_connect_def MqttClient_addPacketFront_def ask_def eq granted_def Let_def
          MqttClient_setState_def q_emplaceFront_def semaphore_take_def semaphore_give_def)
  next
    case True
    define d where "d = (if node then c\<lparr>c_taken := True, c_world := world,
        c_outbox := q_remove 0 (q_emplaceFront \<lparr>op_timeSent = 0, op_packet = blank 0 None\<rparr> (xs, i))\<rparr>
      else c\<lparr>c_taken := True, c_world := world\<rparr>)"
    have add: "MqttClient_addPacketFront env (\<lambda>mem. Packet_connect mem (g_cleanSession ?g) (g_username ?g) (g_password ?g)
        (g_willTopic ?g) (g_willRetain ?g) (g_willQos ?g) (g_willPayload ?g)
        (g_willPayloadLength ?g) (ucast (g_keepAlive ?g div 1000)) (g_clientId ?g)) (c\<lparr>c_taken := True\<rparr>) = Some (False, d)"
      using True al q by (auto simp: MqttClient_addPacketFront_def ask_def eq granted_def Let_def d_def)
    define c1 where "c1 = d\<lparr>c_taken := False\<rparr>"
    have c1: "c_config c1 = c_config c" "\<not> c_taken c1" "c_state c1 = disconnected" "fst (c_outbox c1) = fst (c_outbox c)"
      "c_events c1 = c_events c"
      using True q undo by (simp_all add: c1_def d_def)
    obtain c2 where c2: "MqttClient_onError env 0 OUT_OF_MEMORY c1 = Some c2" "called c1 c2"
      using onError_called [OF assms(2,1) c1(1,2)] by blast
    have taken2: "\<not> c_taken c2" using c2(2) c1(2) by (simp add: called_def)
    have rep: "report env 0 d = semaphore_take c2"
      using c2(1) by (simp add: report_def semaphore_give_def c1_def d_def)
    have "MqttClient_connect env c = Some (False, c2)"
      using True free take_give [OF taken2, of "\<lambda>c. Some (False, c)"]
      by (simp add: MqttClient_connect_def semaphore_take_def [of c] add rep)
    with True c1 c2(1) show ?thesis by auto
  qed
qed

subsection \<open>The answer to CONNECT\<close>

text \<open>C21: A CONNACK that accepts the connection, received when the CONNECT packet has been sent,
  makes the client connected, takes the CONNECT out and starts sending at the first packet; if the
  server has no session, only PUBLISH packets stay in the outbox, and all of them, those of QoS 0
  included (the comment on \<open>clearData\<close> in \<open>MqttClient.h\<close> says QoS 1 and 2 only). Then the callback of the user is
  told whether there is a session. One that refuses leads to a disconnect with the reason the server gave.\<close>

theorem connack_handled:
  assumes "c_outbox c = (x # xs, 0)" and "op_packetType x = CONNECT" and "p_packetId (op_packet x) = 0"
    and "c_bytesSent c = p_size (op_packet x)" and "i_returnCode (incoming c) \<le> 5"
  shows "\<exists>c'. MqttClient_onConnack env c =
      (if i_returnCode (incoming c) = 0
       then callback env g_onConnectCallback (OnConnect (i_sessionPresent (incoming c) \<noteq> 0)) c' else Some c') \<and>
    c_events c' = c_events c \<and> c_taken c' = c_taken c \<and>
    (if i_returnCode (incoming c) = 0 then
       c_state c' = connected \<and> c_bytesSent c' = 0 \<and> \<not> c_pingSent c' \<and>
       c_outbox c' = (if i_sessionPresent (incoming c) = 0 then filter (\<lambda>y. op_packetType y = PUBLISH) xs else xs, 0)
     else c_state c' = disconnectingTcp1 \<and> c_outbox c' = c_outbox c \<and>
       DisconnectReason_value (c_disconnectReason c') = i_returnCode (incoming c))"
proof -
  obtain r where r: "DisconnectReason_cast (i_returnCode (incoming c)) = Some r"
    using DisconnectReason_cast_connack [OF assms(5)] by blast
  then have v: "DisconnectReason_value r = i_returnCode (incoming c)"
    by (auto simp: DisconnectReason_cast_def split: if_splits)
  have adv: "MqttClient_advanceOutbox c1 = (xs \<noteq> [], c1\<lparr>c_outbox := (xs, 0), c_bytesSent := 0\<rparr>)"
    if "c_outbox c1 = (x # xs, 0)" "c_bytesSent c1 = p_size (op_packet x)" for c1 :: "'a Client"
    using that assms(2,3)
    by (cases xs) (simp_all add: MqttClient_advanceOutbox_def q_current_def Packet_size_def Packet_removable_def
        q_removeCurrent_def q_remove_def del_def Let_def)
  have clear: "clear_from (kept 1) 0 (xs, 0) = (filter (kept 1) xs, 0)"
    using clear_from_filter [of 0 xs 0] by simp
  have kept: "kept 1 = (\<lambda>y. op_packetType y = PUBLISH)" by (simp add: kept_def fun_eq_iff)
  show ?thesis
    using assms(1,4) r v clear
    by (auto simp: MqttClient_onConnack_def adv MqttClient_setState_def Let_def incoming_def
        MqttClient_clearQueueData_def kept)
qed

theorem connack_handled_witness:
  "\<exists>c'. MqttClient_onConnack sink ((heard 0x20 ([\<lparr>op_timeSent = 0, op_packet = packet_of 0 [0x10, 0]\<rparr>, sample_publish, sample_ping], 0))
      \<lparr>c_bytesSent := 2, c_parser := Parser_init\<rparr>) = Some c' \<and> c_state c' = connected \<and> c_outbox c' = ([sample_publish], 0)"
proof -
  let ?x = "\<lparr>op_timeSent = 0, op_packet = packet_of 0 [0x10, 0]\<rparr>"
  have x: "op_packetType ?x = CONNECT" "p_packetId (op_packet ?x) = 0" "p_size (op_packet ?x) = 2"
    by (simp_all add: sample_defs)
  have "\<exists>c'. MqttClient_onConnack sink ((heard 0x20 ([?x, sample_publish, sample_ping], 0))\<lparr>c_bytesSent := 2, c_parser := Parser_init\<rparr>) =
      callback sink g_onConnectCallback (OnConnect False) c' \<and> c_taken c' \<and> c_state c' = connected \<and> c_outbox c' = ([sample_publish], 0)"
    using connack_handled [of "(heard 0x20 ([?x, sample_publish, sample_ping], 0))\<lparr>c_bytesSent := 2, c_parser := Parser_init\<rparr>"
        ?x "[sample_publish, sample_ping]" sink] x
    by (auto simp: incoming_def Parser_init_def i_returnCode_def i_sessionPresent_def hi8_def lo8_def)
  then show ?thesis by (auto simp: silent_callback)
qed


subsection \<open>Keep-alive and retries\<close>

lemma keepAlive_value:
  "unat (ucast (k :: u16) * 1000 :: u32) = unat k * 1000" "unat (2 * (ucast k * 1000) :: u32) = unat k * 2000"
proof -
  have "unat k < 65536" by (rule u16_bound)
  then show v: "unat (ucast k * 1000 :: u32) = unat k * 1000"
    by (subst unat_mult_lem [THEN iffD1]) simp_all
  show "unat (2 * (ucast k * 1000) :: u32) = unat k * 2000"
    using v \<open>unat k < 65536\<close> by (subst unat_mult_lem [THEN iffD1]) simp_all
qed

definition pings :: "Memory \<Rightarrow> bool" where
  "pings mem \<longleftrightarrow> accepts mem True 0"

lemma checkPing_keepAlive:
  fixes k :: u16 and c :: "'w Client" and env :: "'w Env"
  assumes "outbox_ok (c_outbox c)"
  defines "d \<equiv> setKeepAlive k c"
  defines "now \<equiv> fst (e_millis env (c_world c))"
  defines "timed \<equiv> d\<lparr>c_world := snd (e_millis env (c_world c))\<rparr>"
  defines "server \<equiv> unat (now - c_lastServerActivity c)" and "client \<equiv> unat (now - c_lastClientActivity c)"
  shows "MqttClient_checkPing env d = Some (
     if k = 0 then d
     else if server > 2000 * unat k then timed\<lparr>c_state := disconnectingTcp1, c_disconnectReason := TCP_DISCONNECTED\<rparr>
     else if \<not> c_pingSent c \<and> (client > 1000 * unat k \<or> server > 1000 * unat k) then
       (if granted env timed pings
        then (enqueue (packet_of 0 [PINGREQ, 0]) (after_alloc env timed))\<lparr>c_pingSent := True\<rparr>
        else after_alloc env timed)
     else timed)"
proof -
  have wire: "wire_packet PINGREQ [] = [PINGREQ, 0]"
    by (simp add: wire_packet_def encode_last)
  have add: "MqttClient_addPacket env (\<lambda>mem. Packet_simple mem PINGREQ) timed = Some
    (if granted env timed pings then (True, enqueue (packet_of 0 [PINGREQ, 0]) (after_alloc env timed))
     else (False, after_alloc env timed))"
    by (rule addPacket_eq [where p' = "blank 0 None"])
      (use assms(1) in \<open>simp_all add: Packet_simple_eq pings_def wire timed_def d_def setKeepAlive_def setConfig_def\<close>)
  define kk :: u32 where "kk = ucast k * 1000"
  have kk: "unat kk = 1000 * unat k" "unat (2 * kk) = 2000 * unat k"
    using keepAlive_value [of k] by (simp_all add: kk_def)
  then have zero: "kk = 0 \<longleftrightarrow> k = 0"
    by (metis mult_eq_0_iff unat_eq_0 zero_neq_numeral)
  have asked: "ask (e_millis env) d = (now, timed)" "g_keepAlive (c_config d) = kk"
    by (simp_all add: ask_eq now_def timed_def d_def setKeepAlive_def setConfig_def kk_def)
  have same: "c_lastServerActivity timed = c_lastServerActivity c" "c_lastClientActivity timed = c_lastClientActivity c"
    "c_pingSent timed = c_pingSent c"
    by (simp_all add: timed_def d_def setKeepAlive_def setConfig_def)
  have less: "2 * kk < now - c_lastServerActivity c \<longleftrightarrow> server > 2000 * unat k"
    "kk < now - c_lastServerActivity c \<longleftrightarrow> server > 1000 * unat k"
    "kk < now - c_lastClientActivity c \<longleftrightarrow> client > 1000 * unat k"
    by (simp_all add: word_less_nat_alt kk server_def client_def)
  show ?thesis
    unfolding MqttClient_checkPing_def Let_def asked prod.case same less zero add
    by (simp add: MqttClient_setState_def)
qed

text \<open>C22: With a keep-alive of \<open>k\<close> seconds, in milliseconds since the last activity, wrap-around of the
  clock included: a server silent for more than \<open>2 k\<close> seconds makes the client drop the connection,
  and nothing less does; else, when no PINGREQ is outstanding and either side has been silent for more
  than \<open>k\<close> seconds, one PINGREQ is queued, if there is memory, and recorded as outstanding; otherwise
  nothing happens. A keep-alive of 0 switches all of this off.\<close>

theorem keep_alive:
  fixes k :: u16 and c :: "'w Client" and env :: "'w Env"
  assumes "outbox_ok (c_outbox c)"
  shows "let d = setKeepAlive k c;
       now = fst (e_millis env (c_world c));
       timed = d\<lparr>c_world := snd (e_millis env (c_world c))\<rparr>;
       server = unat (now - c_lastServerActivity c);
       client = unat (now - c_lastClientActivity c)
     in MqttClient_checkPing env d = Some (
       if k = 0 then d
       else if server > 2000 * unat k then timed\<lparr>c_state := disconnectingTcp1, c_disconnectReason := TCP_DISCONNECTED\<rparr>
       else if \<not> c_pingSent c \<and> (client > 1000 * unat k \<or> server > 1000 * unat k) then
         (if granted env timed pings
          then (enqueue (packet_of 0 [PINGREQ, 0]) (after_alloc env timed))\<lparr>c_pingSent := True\<rparr>
          else after_alloc env timed)
       else timed)"
  unfolding Let_def by (rule checkPing_keepAlive [OF assms])

theorem keep_alive_witness:
  "\<exists>c'. MqttClient_checkPing (sink\<lparr>e_clock := \<lambda>w. (15000, w)\<rparr>) (setKeepAlive 10 (sample_client ([sample_publish], 1))) =
     Some c' \<and> c_pingSent c' \<and> map op_packet (fst (c_outbox c')) = [op_packet sample_publish, packet_of 0 [0xC0, 0]]"
proof -
  have "outbox_ok (c_outbox (sample_client ([sample_publish], 1)))"
    by (simp add: outbox_ok_def sendable_def whole_def awaiting_def sample_defs)
  moreover have "accepts ample True 0" by (simp add: accepts_def ample_def)
  ultimately show ?thesis
    using keep_alive [of "sample_client ([sample_publish], 1)" 10 "sink\<lparr>e_clock := \<lambda>w. (15000, w)\<rparr>"]
    by (simp add: sample_client_def MqttClient_init_def granted_def pings_def sink_def e_millis_def enqueue_def after_alloc_def
        setKeepAlive_def setConfig_def)
qed

text \<open>When all bytes of a packet have been sent, the cursor is past the first packet, and that
  packet was sent longer ago than the timeout, sending starts again at the front of the queue; in
  every other case the queue is left alone, and so is everything else.\<close>

lemma checkTimeout_eq:
  "MqttClient_checkTimeout env c =
    (case c_outbox c of
       (x # xs, i) \<Rightarrow>
         if c_bytesSent c = 0 \<and> 0 < i then
           (let (now, w) = e_clock env (c_world c) in
            c\<lparr>c_world := w,
              c_outbox := (x # xs, if sinceSent env now (op_timeSent x) > uint (g_timeout (c_config c)) then 0 else i)\<rparr>)
         else c
     | ([], i) \<Rightarrow> c)"
proof (cases c)
  case (fields config state packetId outbox)
  obtain ys i where q: "outbox = (ys, i)" by (cases outbox)
  show ?thesis
    unfolding fields q
    by (cases ys) (simp_all add: MqttClient_checkTimeout_def ask_def q_resetCurrent_def Let_def split: prod.split)
qed

subsection \<open>Disconnecting\<close>

text \<open>What is left of the queue, and the client when it has become disconnected, before it says so.\<close>

definition session_only :: "OutgoingPacket queue \<Rightarrow> OutgoingPacket queue" where
  "session_only q = (filter (kept 0) (fst q), length (filter (kept 0) (take (snd q) (fst q))))"

definition ended :: "'w \<Rightarrow> DisconnectReason \<Rightarrow> 'w Client \<Rightarrow> 'w Client" where
  "ended w reason c = c\<lparr>c_world := w, c_outbox := session_only (c_outbox c), c_disconnectReason := reason,
     c_taken := False, c_bytesSent := 0, c_state := disconnected\<rparr>"

lemma clear_session: "outbox_ok q \<Longrightarrow> clear_from (kept 0) 0 q = session_only q"
  using clear_from_filter [of 0 "fst q" "snd q" "kept 0"] by (simp add: outbox_ok_def session_only_def)

lemma loop_closes:
  assumes "c_state c = disconnectingTcp2" and "\<not> c_taken c" and "outbox_ok (c_outbox c)"
    and "fst (e_disconnected env (c_world c))"
  shows "MqttClient_loop env c = notify env g_onDisconnectCallback (OnDisconnect (c_disconnectReason c))
    (ended (snd (e_disconnected env (c_world c))) (c_disconnectReason c) c)"
proof -
  have "c\<lparr>c_world := w, c_outbox := q, c_taken := False, c_bytesSent := 0, c_state := s\<rparr> =
      c\<lparr>c_world := w, c_outbox := q, c_disconnectReason := c_disconnectReason c, c_taken := False, c_bytesSent := 0,
        c_state := s\<rparr>" for w q s
    by (cases c) simp
  with assms show ?thesis
    by (simp add: MqttClient_loop_def loop_disconnectingTcp2_def ask_eq MqttClient_clearQueueData_def clear_session
        MqttClient_setState_def Let_def with_semaphore_def semaphore_take_def semaphore_give_def ended_def)
qed

lemma loop_stops_transport:
  "c_state c = disconnectingTcp1 \<Longrightarrow>
    MqttClient_loop env c = Some (c\<lparr>c_world := e_stop env (c_world c), c_state := disconnectingTcp2\<rparr>)"
  by (simp add: MqttClient_loop_def loop_disconnectingTcp1_def MqttClient_setState_def)

lemma bind_run_nil: "Option.bind m (run_actions env []) = m"
  by (cases m) simp_all

lemma run_last: "run_actions env [Loop] c = MqttClient_loop env c"
  by (cases "MqttClient_loop env c") simp_all

lemma stopped_ends:
  assumes "c_state c = disconnectingTcp1" and "\<not> c_taken c" and "outbox_ok (c_outbox c)"
    and "fst (e_disconnected env (e_stop env (c_world c)))"
  shows "run_actions env [Loop, Loop] c = notify env g_onDisconnectCallback (OnDisconnect (c_disconnectReason c))
    (ended (snd (e_disconnected env (e_stop env (c_world c)))) (c_disconnectReason c) c)"
proof -
  have "run_actions env [Loop, Loop] c =
      run_actions env [Loop] (c\<lparr>c_world := e_stop env (c_world c), c_state := disconnectingTcp2\<rparr>)"
    by (simp add: loop_stops_transport [OF assms(1)])
  also have "\<dots> = notify env g_onDisconnectCallback (OnDisconnect (c_disconnectReason c))
    (ended (snd (e_disconnected env (e_stop env (c_world c)))) (c_disconnectReason c)
      (c\<lparr>c_world := e_stop env (c_world c), c_state := disconnectingTcp2\<rparr>))"
    unfolding run_last using assms by (subst loop_closes) simp_all
  finally show ?thesis by (simp add: ended_def)
qed

lemma ended_fields [simp]:
  "MqttClient_disconnected (ended w reason c)" "c_bytesSent (ended w reason c) = 0"
  "c_events (ended w reason c) = c_events c" "c_outbox (ended w reason c) = session_only (c_outbox c)"
  "c_config (ended w reason c) = c_config c"
  by (simp_all add: ended_def MqttClient_disconnected_def)

text \<open>C23: A forced disconnect ends, from every state: with a transport that says that it is disconnected once
  it has been stopped, two calls of \<open>loop\<close> make the client disconnected, one if its transport was already
  stopped. It then has dropped every packet that does not belong to the session and is ready to connect,
  and the last thing it does is to report the disconnect with its reason, whose callback may then connect
  again.\<close>

theorem forced_disconnect_ends:
  assumes "client_inv c" and "c_outbox c = (xs, i)" and "c_state c \<noteq> disconnected"
    and closed: "\<forall>w. fst (e_disconnected env (e_stop env w))"
      "c_state c = disconnectingTcp2 \<longrightarrow> fst (e_disconnected env (c_world c))"
  shows "\<exists>c'. run_actions env (Call (Disconnect True) # replicate (if c_state c = disconnectingTcp2 then 1 else 2) Loop) c =
      notify env g_onDisconnectCallback (OnDisconnect (c_disconnectReason c)) c' \<and>
    MqttClient_disconnected c' \<and> c_bytesSent c' = 0 \<and> c_events c' = c_events c \<and>
    c_outbox c' = (filter (kept 0) xs, length (filter (kept 0) (take i xs)))"
proof -
  have inv: "outbox_ok (c_outbox c)" "\<not> c_taken c" using assms(1) by (simp_all add: client_inv_def)
  have q: "session_only (c_outbox c) = (filter (kept 0) xs, length (filter (kept 0) (take i xs)))"
    by (simp add: session_only_def assms(2))
  show ?thesis
  proof (cases "c_state c = disconnectingTcp2")
    case True
    then have "snd (MqttClient_disconnect True c) = c" by (simp add: MqttClient_disconnect_def)
    with loop_closes [OF True inv(2,1)] closed(2) True q show ?thesis
      by (intro exI [of _ "ended (snd (e_disconnected env (c_world c))) (c_disconnectReason c) c"])
        (simp add: bind_run_nil del: run_actions.simps(1))
  next
    case False
    define d where "d = c\<lparr>c_state := disconnectingTcp1\<rparr>"
    have "snd (MqttClient_disconnect True c) = d"
      using False assms(3) by (cases c) (auto simp: MqttClient_disconnect_def MqttClient_setState_def d_def)
    then have "run_actions env [Call (Disconnect True), Loop, Loop] c = run_actions env [Loop, Loop] d" by simp
    moreover have "run_actions env [Loop, Loop] d = notify env g_onDisconnectCallback (OnDisconnect (c_disconnectReason c))
        (ended (snd (e_disconnected env (e_stop env (c_world c)))) (c_disconnectReason c) d)"
      using stopped_ends [of d env] inv closed(1) by (simp add: d_def)
    ultimately show ?thesis
      using False q
      by (intro exI [of _ "ended (snd (e_disconnected env (e_stop env (c_world c)))) (c_disconnectReason c) d"])
        (simp add: numeral_2_eq_2 d_def del: run_actions.simps)
  qed
qed

theorem forced_disconnect_ends_witness:
  "\<exists>c'. run_actions sink [Call (Disconnect True), Loop, Loop]
       ((sample_client ([sample_publish, sample_ping], 1))\<lparr>c_state := connected\<rparr>) = Some c' \<and>
     MqttClient_disconnected c' \<and> c_outbox c' = ([sample_publish], 1)"
proof -
  have "kept 0 sample_publish" "\<not> kept 0 sample_ping"
    by (simp_all add: kept_def sample_defs)
  moreover have "\<forall>w. fst (e_disconnected sink (e_stop sink w))" by (simp add: sink_def)
  moreover have "client_inv ((sample_client ([sample_publish, sample_ping], 1))\<lparr>c_state := connected\<rparr>)"
    using sample_inv [OF sample_ok(2)] parser_ok_init by (simp add: client_inv_def sample_client_def MqttClient_init_def)
  ultimately have "\<exists>c'. run_actions sink [Call (Disconnect True), Loop, Loop]
       ((sample_client ([sample_publish, sample_ping], 1))\<lparr>c_state := connected\<rparr>) =
     notify sink g_onDisconnectCallback (OnDisconnect TCP_DISCONNECTED) c' \<and>
     MqttClient_disconnected c' \<and> c_outbox c' = ([sample_publish], 1)"
    using forced_disconnect_ends [of "(sample_client ([sample_publish, sample_ping], 1))\<lparr>c_state := connected\<rparr>"
        "[sample_publish, sample_ping]" 1 sink]
    by (auto simp: numeral_2_eq_2 sample_client_def MqttClient_init_def simp del: run_actions.simps)
  moreover have "MqttClient_disconnected (d\<lparr>c_events := es\<rparr>) = MqttClient_disconnected d" for d :: "(u8 list) Client" and es
    by (simp add: MqttClient_disconnected_def)
  ultimately show ?thesis
    by (auto simp: silent_notify simp del: run_actions.simps)
qed

text \<open>C24: A lost connection ends: when the transport says that it is no longer connected, three calls of \<open>loop\<close>
  make a client that waits for CONNACK, is connected or has sent DISCONNECT disconnected, whatever it was
  doing. It keeps the packets of the session and reports TCP_DISCONNECTED.\<close>

theorem connection_loss_ends:
  assumes "client_inv c" and "c_state c \<in> {connectingMqtt, connected, disconnectingMqtt2}"
    and "\<not> fst (e_connected env (c_world c))" and "\<forall>w. fst (e_disconnected env (e_stop env w))"
  shows "\<exists>c'. run_actions env [Loop, Loop, Loop] c =
      notify env g_onDisconnectCallback (OnDisconnect TCP_DISCONNECTED) c' \<and>
    MqttClient_disconnected c' \<and> c_bytesSent c' = 0 \<and> c_events c' = c_events c \<and>
    fst (c_outbox c') = filter (kept 0) (fst (c_outbox c))"
proof -
  define d where "d = tcpLost (snd (ask (e_connected env) c))"
  have d: "c_state d = disconnectingTcp1" "\<not> c_taken d" "outbox_ok (c_outbox d)" "c_outbox d = c_outbox c"
    "c_events d = c_events c" "c_disconnectReason d = TCP_DISCONNECTED"
    using assms(1) by (simp_all add: d_def tcpLost_def ask_eq MqttClient_setState_def client_inv_def)
  have "MqttClient_loop env c = Some d"
    using assms(2,3)
    by (auto simp: MqttClient_loop_def loop_connected_def loop_connectingMqtt_def ask_eq d_def)
  then have "run_actions env [Loop, Loop, Loop] c = run_actions env [Loop, Loop] d" by simp
  also have "\<dots> = notify env g_onDisconnectCallback (OnDisconnect TCP_DISCONNECTED)
      (ended (snd (e_disconnected env (e_stop env (c_world d)))) TCP_DISCONNECTED d)"
    using stopped_ends [OF d(1-3)] assms(4) d(6) by simp
  finally show ?thesis
    by (intro exI [of _ "ended (snd (e_disconnected env (e_stop env (c_world d)))) TCP_DISCONNECTED d"])
      (simp add: d session_only_def)
qed

theorem connection_loss_ends_witness:
  "\<exists>c'. run_actions (sink\<lparr>e_connected := \<lambda>w. (False, w)\<rparr>) [Loop, Loop, Loop]
       ((sample_client ([sample_publish, sample_ping], 1))\<lparr>c_state := connected\<rparr>) = Some c' \<and>
     fst (c_outbox c') = [sample_publish]"
proof -
  let ?env = "sink\<lparr>e_connected := \<lambda>w. (False, w)\<rparr>"
  let ?c = "(sample_client ([sample_publish, sample_ping], 1))\<lparr>c_state := connected\<rparr>"
  have k: "kept 0 sample_publish" "\<not> kept 0 sample_ping"
    by (simp_all add: kept_def sample_defs)
  have "client_inv ?c"
    using sample_inv [OF sample_ok(2)] parser_ok_init by (simp add: client_inv_def sample_client_def MqttClient_init_def)
  then obtain c' where "run_actions ?env [Loop, Loop, Loop] ?c =
      notify ?env g_onDisconnectCallback (OnDisconnect TCP_DISCONNECTED) c'"
    "fst (c_outbox c') = filter (kept 0) (fst (c_outbox ?c))"
    using connection_loss_ends [of ?c ?env] by (auto simp: sink_def simp del: run_actions.simps)
  then show ?thesis
    using k by (auto simp: notify_def sink_def sample_client_def MqttClient_init_def simp del: run_actions.simps)
qed

end
