(* ===== verification/ClientStream.thy ===== *)
theory ClientStream
  imports ClientProtocol
begin

text \<open>
  What the client puts on the wire: the packets of the outbox from the cursor on, byte by byte, in
  whatever portions the transport takes them.
\<close>

definition packet_bytes :: "OutgoingPacket \<Rightarrow> u8 list" where
  "packet_bytes x = (case p_data (op_packet x) of None \<Rightarrow> [] | Some data \<Rightarrow> data)"

text \<open>The bytes that are still to be sent.\<close>

definition pending :: "'w Client \<Rightarrow> u8 list" where
  "pending c = drop (unat (c_bytesSent c))
     (concat (map packet_bytes (drop (snd (c_outbox c)) (fst (c_outbox c)))))"

text \<open>A transport that appends to \<open>log\<close> what it reports as written.\<close>

definition transmits :: "('w \<Rightarrow> u8 list) \<Rightarrow> 'w Env \<Rightarrow> bool" where
  "transmits log env \<longleftrightarrow>
     (\<forall>bytes w. length bytes < 2 ^ 31 \<longrightarrow> unat (fst (e_write env bytes w)) \<le> length bytes \<and>
        log (snd (e_write env bytes w)) = log w @ take (unat (fst (e_write env bytes w))) bytes) \<and>
     (\<forall>w. log (snd (e_clock env w)) = log w)"

definition takes_all :: "'w Env \<Rightarrow> bool" where
  "takes_all env \<longleftrightarrow> (\<forall>bytes w. length bytes < 2 ^ 31 \<longrightarrow> unat (fst (e_write env bytes w)) = length bytes)"

text \<open>Packets that hold their bytes, and a position inside the current one.\<close>

definition stream_inv :: "'w Client \<Rightarrow> bool" where
  "stream_inv c \<longleftrightarrow> (\<forall>x \<in> set (fst (c_outbox c)). whole (op_packet x) \<and> 0 < p_size (op_packet x) \<and>
       unat (p_size (op_packet x)) < 2 ^ 31) \<and>
     snd (c_outbox c) \<le> length (fst (c_outbox c)) \<and>
     unat (c_bytesSent c) \<le> current_size c"

lemma whole_bytes: "whole (op_packet x) \<Longrightarrow> p_data (op_packet x) = Some (packet_bytes x) \<and>
    length (packet_bytes x) = unat (p_size (op_packet x)) \<and> p_getPayload (op_packet x) = None"
  by (auto simp: whole_def packet_bytes_def)

lemma current_split:
  "q_current (xs, i) = Some x \<Longrightarrow> xs = take i xs @ x # drop (Suc i) xs \<and> i < length xs \<and> xs ! i = x"
  by (auto simp: q_current_def at_def id_take_nth_drop split: if_splits)

lemma pending_current:
  assumes "q_current (c_outbox c) = Some x"
  shows "pending c = drop (unat (c_bytesSent c))
    (packet_bytes x @ concat (map packet_bytes (drop (Suc (snd (c_outbox c))) (fst (c_outbox c)))))"
proof -
  obtain xs i where q: "c_outbox c = (xs, i)" by (cases "c_outbox c")
  with assms have "i < length xs" "xs ! i = x" by (auto simp: q_current_def at_def split: if_splits)
  then show ?thesis by (simp add: pending_def q Cons_nth_drop_Suc [symmetric])
qed

lemma pos_unat_sint:
  assumes "0 < unat (w :: u32)" and "unat w < 2 ^ 31"
  shows "0 < sint w"
proof -
  define n where "n = unat w"
  have n: "0 < n" "n < 2 ^ 31" using assms by (simp_all add: n_def)
  have "signed_take_bit 31 (int n) = int n"
    by (rule signed_take_bit_int_eq_self) (use n in simp_all)
  moreover have "w = of_nat n" by (simp add: n_def)
  ultimately have "sint w = int n"
    using signed_of_nat [of n, where ?'b = 32 and ?'a = int] by simp
  with n(1) show ?thesis by linarith
qed

text \<open>One call of \<open>sendPacket\<close>.\<close>

definition streamed :: "('w \<Rightarrow> u8 list) \<Rightarrow> 'w Client \<Rightarrow> 'w Client \<Rightarrow> bool" where
  "streamed log c c' \<longleftrightarrow> stream_inv c' \<and> log (c_world c') @ pending c' = log (c_world c) @ pending c"

lemma current_rewrite:
  assumes inv: "stream_inv c" and cur: "q_current (c_outbox c) = Some x"
    and p: "op_packet (f x) = op_packet x"
  shows "stream_inv (writeCurrent f c)" and "pending (writeCurrent f c) = pending c"
    and "q_current (c_outbox (writeCurrent f c)) = Some (f x)"
proof -
  obtain xs i where q: "c_outbox c = (xs, i)" by (cases "c_outbox c")
  with cur have i: "i < length xs" "xs ! i = x" by (auto simp: q_current_def at_def split: if_splits)
  show cur': "q_current (c_outbox (writeCurrent f c)) = Some (f x)"
    using current_write [OF cur] by simp
  have bytes: "packet_bytes (f x) = packet_bytes x" using p by (simp add: packet_bytes_def)
  show "pending (writeCurrent f c) = pending c"
    using pending_current [OF cur'] pending_current [OF cur] bytes q i
    by (simp add: q_write_def drop_update_swap)
  show "stream_inv (writeCurrent f c)"
    using inv cur cur' p q i
    by (auto simp: stream_inv_def current_size_def q_write_def dest!: subsetD [OF set_update_subset_insert])
qed

lemma sendPacket_streams:
  assumes t: "transmits log env" and inv: "stream_inv c"
  shows "ok (MqttClient_sendPacket env c) (\<lambda>(n, c'). streamed log c c' \<and> progress c (n, c') \<and>
    (n \<le> 0 \<and> takes_all env \<longrightarrow> pending c' = [] \<or> unat (c_bytesSent c) = current_size c))"
proof (cases "q_current (c_outbox c)")
  case None
  then have "pending c = []" by (simp add: pending_def current_None)
  with None inv show ?thesis by (simp add: MqttClient_sendPacket_def wp progress_def streamed_def)
next
  case (Some x)
  define i where "i = c_bytesSent c"
  define p where "p = op_packet x"
  have x: "whole p" "0 < p_size p" "unat (p_size p) < 2 ^ 31" "unat i \<le> unat (p_size p)"
    using inv current_in [OF Some] Some by (auto simp: stream_inv_def current_size_def p_def i_def)
  note b = whole_bytes [of x, folded p_def, OF x(1)]
  have same: "op_packet (x\<lparr>op_packet := p\<rparr>) = op_packet x" by (simp add: p_def)
  define c1 where "c1 = writeCurrent (\<lambda>x. x\<lparr>op_packet := p\<rparr>) c"
  note c1 = current_rewrite [OF inv Some, of "\<lambda>x. x\<lparr>op_packet := p\<rparr>", OF same, folded c1_def]
  show ?thesis
  proof (cases "p_size p \<le> i")
    case True
    then have "MqttClient_sendPacket env c = Some (0, c1)"
      using Some by (simp add: MqttClient_sendPacket_def Packet_available_def i_def c1_def Let_def flip: p_def)
    moreover have "unat i = unat (p_size p)" using True x(4) by (simp add: word_le_nat_alt)
    ultimately show ?thesis
      using c1 Some by (simp add: wp streamed_def progress_def current_size_def flip: i_def p_def) (simp add: c1_def)
  next
    case False
    then have lt: "i < p_size p" by simp
    have want: "unat (p_size p - i) = unat (p_size p) - unat i" using lt by (simp add: unat_sub less_imp_le)
    define bytes where "bytes = drop (unat i) (packet_bytes x)"
    have len: "length bytes = unat (p_size p) - unat i" using b by (simp add: bytes_def)
    have read: "Packet_bytes i (p_size p - i) p = Some bytes"
      using b lt want False by (simp add: Packet_bytes_def Packet_data_def bytes_def word_less_nat_alt)
    define written where "written = fst (e_write env bytes (c_world c))"
    have short: "length bytes < 2 ^ 31" using len x(3) by linarith
    have w: "unat written \<le> length bytes" "log (snd (e_write env bytes (c_world c))) = log (c_world c) @ take (unat written) bytes"
      using t short unfolding transmits_def written_def by blast+
    define now where "now = fst (e_millis env (snd (e_write env bytes (c_world c))))"
    define c2 where "c2 = writeCurrent (\<lambda>x. x\<lparr>op_timeSent := now\<rparr>) c1"
    note c2 = current_rewrite [OF c1(1,3), of "\<lambda>x. x\<lparr>op_timeSent := now\<rparr>", folded c2_def, simplified]
    have avail: "Packet_available i p = Some (p_size p - i, p)"
      using b False by (simp add: Packet_available_def)
    define c3 where "c3 = snd (the (MqttClient_sendPacket env c))"
    have ne: "p_size p - i \<noteq> 0" using lt by simp
    have eq: "MqttClient_sendPacket env c = Some (sint written, c3)"
      and c3: "c_outbox c3 = c_outbox c2" "c_bytesSent c3 = i + written"
        "log (c_world c3) = log (c_world c) @ take (unat written) bytes"
      unfolding c3_def using Some avail ne read w(2) t b
      by (simp_all add: MqttClient_sendPacket_def ask_eq Let_def written_def now_def c1_def c2_def
          len x(3) transmits_def flip: i_def p_def)
    have sum: "unat (i + written) = unat i + unat written"
      using w(1) len x(3) lt by (subst unat_add_lem [THEN iffD1]) (simp_all add: word_less_nat_alt)
    have cur3: "q_current (c_outbox c3) = Some (x\<lparr>op_packet := p, op_timeSent := now\<rparr>)"
      using c2(3) c3(1) by simp
    have size3: "current_size c3 = unat (p_size p)" "current_size c = unat (p_size p)"
      using cur3 Some by (simp_all add: current_size_def p_def)
    have inv3: "stream_inv c3"
      using c2(1) c3(1,2) sum w(1) len size3 lt by (simp add: stream_inv_def word_less_nat_alt)
    have pend3: "take (unat written) bytes @ pending c3 = pending c"
    proof -
      define rest where "rest = concat (map packet_bytes (drop (Suc (snd (c_outbox c))) (fst (c_outbox c))))"
      have "drop (Suc (snd (c_outbox c3))) (fst (c_outbox c3)) = drop (Suc (snd (c_outbox c))) (fst (c_outbox c))"
        unfolding c3(1) c2_def c1_def
        by (cases "c_outbox c") (simp add: q_write_def drop_update_swap)
      then have "pending c3 = drop (unat i + unat written) (packet_bytes x @ rest)"
        using pending_current [OF cur3] sum c3(2) by (simp add: rest_def packet_bytes_def p_def)
      moreover have "pending c = drop (unat i) (packet_bytes x @ rest)"
        using pending_current [OF Some] by (simp add: rest_def i_def)
      moreover have "take (unat written) bytes = take (unat written) (drop (unat i) (packet_bytes x @ rest))"
        using w(1) b by (simp add: bytes_def)
      moreover have "drop (unat i + unat written) (packet_bytes x @ rest) =
          drop (unat written) (drop (unat i) (packet_bytes x @ rest))"
        by (simp only: drop_drop add.commute)
      ultimately show ?thesis
        by (simp only: append_take_drop_id)
    qed
    have "0 < sint written" if "takes_all env"
    proof -
      have "unat written = length bytes" using that len x(3) by (simp add: takes_all_def written_def)
      then have "unat written < 2 ^ 31" "0 < unat written" using len x(3) lt by (simp_all add: word_less_nat_alt)
      then show ?thesis by (simp add: pos_unat_sint)
    qed
    moreover have "progress c (sint written, c3)"
    proof -
      have "0 < sint written \<Longrightarrow> 0 < unat written" by (rule sint_pos_unat)
      moreover have "to_send c3 = to_send c"
        unfolding to_send_def c3(1) c2_def c1_def by simp
      moreover have "unat i + unat written \<le> unat (p_size p)"
        using w(1) len lt by (simp add: word_less_nat_alt)
      ultimately show ?thesis
        using cur3 size3 sum w(1) len c3(2) lt by (simp add: progress_def i_def [symmetric] word_less_nat_alt)
    qed
    ultimately show ?thesis
      using eq inv3 pend3 c3(3) by (auto simp: wp streamed_def)
  qed
qed


subsection \<open>The outbox moves on\<close>

definition resumable :: "'w Client \<Rightarrow> bool" where
  "resumable c \<longleftrightarrow> (q_current (c_outbox c) \<noteq> None \<longrightarrow> unat (c_bytesSent c) < current_size c)"

definition streamable :: "OutgoingPacket \<Rightarrow> bool" where
  "streamable x \<longleftrightarrow> whole (op_packet x) \<and> 0 < p_size (op_packet x) \<and> unat (p_size (op_packet x)) < 2 ^ 31"

lemma stream_inv_start:
  "i \<le> length xs \<Longrightarrow> \<forall>x \<in> set xs. streamable x \<Longrightarrow> c_outbox c = (xs, i) \<Longrightarrow> c_bytesSent c = 0 \<Longrightarrow>
    stream_inv c \<and> resumable c"
  by (auto simp: stream_inv_def resumable_def streamable_def current_size_def q_current_def at_def
      word_less_nat_alt split: if_splits)

lemma streamable_setDup: "streamable x \<Longrightarrow> streamable (x\<lparr>op_packet := Packet_setDup (op_packet x)\<rparr>)"
  by (auto simp: streamable_def whole_def Packet_setDup_def split: option.splits)

text \<open>Past the whole current packet, the rest of the outbox is pending.\<close>

lemma pending_next:
  assumes "q_current (c_outbox c) = Some x" and "c_bytesSent c = p_size (op_packet x)" and "streamable x"
  shows "pending c = concat (map packet_bytes (drop (Suc (snd (c_outbox c))) (fst (c_outbox c))))"
  using pending_current [OF assms(1)] whole_bytes [of x] assms(2,3) by (simp add: streamable_def)

lemma advanceOutbox_streams:
  assumes inv: "stream_inv c"
  shows "stream_inv (snd (MqttClient_advanceOutbox c)) \<and> resumable (snd (MqttClient_advanceOutbox c)) \<and>
    pending (snd (MqttClient_advanceOutbox c)) = pending c \<and>
    c_world (snd (MqttClient_advanceOutbox c)) = c_world c"
proof (cases "q_current (c_outbox c)")
  case None
  then show ?thesis using inv by (simp add: MqttClient_advanceOutbox_def resumable_def)
next
  case (Some x)
  obtain xs i where q: "c_outbox c = (xs, i)" by (cases "c_outbox c")
  have i: "i < length xs" "xs ! i = x" using Some q by (auto simp: q_current_def at_def split: if_splits)
  have all: "\<forall>x \<in> set xs. streamable x" using inv q by (simp add: stream_inv_def streamable_def)
  have x: "streamable x" using all i by auto
  have le: "unat (c_bytesSent c) \<le> unat (p_size (op_packet x))"
    using inv Some by (simp add: stream_inv_def current_size_def)
  show ?thesis
  proof (cases "c_bytesSent c = p_size (op_packet x)")
    case False
    then have "unat (c_bytesSent c) \<noteq> unat (p_size (op_packet x))" by (simp add: word_unat_eq_iff)
    with False le inv Some show ?thesis
      by (simp add: MqttClient_advanceOutbox_def resumable_def current_size_def Packet_size_def)
  next
    case True
    define c' where "c' = snd (MqttClient_advanceOutbox c)"
    define y where "y = (if op_packetType x = PUBLISH then x\<lparr>op_packet := Packet_setDup (op_packet x)\<rparr> else x)"
    have y: "streamable y" using x streamable_setDup by (simp add: y_def)
    have same: "xs = xs[i := x]" using i by auto
    have q': "c_outbox c' = (if Packet_removable (op_packet x) then (take i xs @ drop (Suc i) xs, i)
        else (xs[i := y], Suc i))"
      and c': "c_bytesSent c' = 0" "c_world c' = c_world c"
      using Some True i q same
      by (simp_all add: c'_def y_def del_def MqttClient_advanceOutbox_def MqttClient_setState_def writeCurrent_def Let_def
          Packet_size_def q_removeCurrent_def q_remove_def q_next_def q_write_def)
    have "\<forall>x \<in> set (fst (c_outbox c')). streamable x"
      using all y q' by (auto split: if_splits dest!: in_set_takeD in_set_dropD subsetD [OF set_update_subset_insert])
    moreover have "snd (c_outbox c') \<le> length (fst (c_outbox c'))" using q' i by (auto split: if_splits)
    ultimately have "stream_inv c' \<and> resumable c'"
      using c'(1) stream_inv_start [of "snd (c_outbox c')" "fst (c_outbox c')" c'] by simp
    moreover have "pending c' = pending c"
      using pending_next [OF Some True x] q q' c' i by (simp add: pending_def)
    ultimately show ?thesis using c'(2) by (simp add: c'_def)
  qed
qed


subsection \<open>A whole check of the outbox\<close>

definition emptied :: "'w Env \<Rightarrow> 'w Client \<Rightarrow> bool" where
  "emptied env c \<longleftrightarrow> (takes_all env \<longrightarrow> pending c = [])"

lemma streamed_trans:
  "streamed log c c1 \<Longrightarrow> streamed log c1 c2 \<and> emptied env c2 \<Longrightarrow> streamed log c c2 \<and> emptied env c2"
  by (simp add: streamed_def)

lemma checkOutbox_streams:
  assumes t: "transmits log env"
  shows "stream_inv c \<Longrightarrow> resumable c \<Longrightarrow>
    ok (MqttClient_checkOutbox env c) (\<lambda>c'. streamed log c c' \<and> emptied env c')"
proof (induction "(to_send c, current_size c - unat (c_bytesSent c))" arbitrary: c
    rule: wf_induct_rule [OF wf_lex_prod [OF wf_less_than wf_less_than], case_names less])
  case (less c)
  obtain n c1 where send: "MqttClient_sendPacket env c = Some (n, c1)"
    and c1: "streamed log c c1" and prog: "progress c (n, c1)"
    and stop: "n \<le> 0 \<and> takes_all env \<longrightarrow> pending c1 = [] \<or> unat (c_bytesSent c) = current_size c"
    using sendPacket_streams [OF t less.prems(1)] by (auto simp: ok_def)
  have inv1: "stream_inv c1" using c1 by (simp add: streamed_def)
  obtain any c2 where adv: "MqttClient_advanceOutbox c1 = (any, c2)" by (cases "MqttClient_advanceOutbox c1")
  have c2: "stream_inv c2" "resumable c2" "streamed log c1 c2"
    using advanceOutbox_streams [OF inv1] adv by (simp_all add: streamed_def)
  have moved: "advanced c1 (any, c2)"
    using advanceOutbox_advances [of c1] adv by simp
  have c02: "streamed log c c2" using c1 c2(3) by (simp add: streamed_def)
  consider (refused) "\<not> 0 < n" | (last) "0 < n" "\<not> any" | (more_left) "0 < n" "any" by blast
  then show ?case
  proof cases
    case refused
    have "emptied env c1"
    proof (cases "q_current (c_outbox c)")
      case None
      then have "n = 0 \<and> c1 = c" using send by (simp add: MqttClient_sendPacket_def)
      with None show ?thesis by (simp add: emptied_def pending_def current_None)
    next
      case (Some x)
      with less.prems(2) refused stop show ?thesis by (auto simp: emptied_def resumable_def)
    qed
    with refused send c1 show ?thesis by (subst MqttClient_checkOutbox.simps) (simp add: wp)
  next
    case last
    have "pending c2 = []" using last(2) moved by (simp add: advanced_def pending_def current_None)
    with last send adv c02 show ?thesis by (subst MqttClient_checkOutbox.simps) (simp add: wp emptied_def)
  next
    case more_left
    have "((to_send c2, current_size c2 - unat (c_bytesSent c2)), (to_send c, current_size c - unat (c_bytesSent c)))
        \<in> less_than <*lex*> less_than"
      using more_left prog moved by (auto simp: progress_def advanced_def)
    from less.hyps [OF this c2(1,2)]
    have "ok (MqttClient_checkOutbox env c2) (\<lambda>c'. streamed log c c' \<and> emptied env c')"
      by (rule ok_mono) (rule streamed_trans [OF c02])
    with send adv more_left show ?thesis by (subst MqttClient_checkOutbox.simps) (simp add: wp)
  qed
qed

lemma sink_streams: "transmits (\<lambda>w. w) sink" "takes_all sink"
proof -
  have short: "unat (of_nat n :: u32) \<le> n" "n < 2147483648 \<Longrightarrow> unat (of_nat n :: u32) = n" for n
    by (simp_all add: unat_of_nat)
  show "transmits (\<lambda>w. w) sink" using short by (simp add: transmits_def sink_def unat_of_nat)
  show "takes_all sink" using short by (simp add: takes_all_def sink_def)
qed

text \<open>C7: A check of the outbox returns, and puts exactly the pending bytes on the wire, in order,
  each once, in whatever portions the transport accepts them: what it wrote, followed by what is
  still pending, is what was pending before. If the transport takes whole packets, nothing is left.\<close>

theorem outbox_stream:
  assumes "transmits log env" and "stream_inv c" and "resumable c"
  shows "\<exists>c'. MqttClient_checkOutbox env c = Some c' \<and>
    log (c_world c') @ pending c' = log (c_world c) @ pending c \<and>
    (takes_all env \<longrightarrow> log (c_world c') = log (c_world c) @ pending c)"
  using checkOutbox_streams [OF assms] by (auto simp: ok_def streamed_def emptied_def)

theorem outbox_stream_witness:
  "\<exists>c'. MqttClient_checkOutbox sink ((MqttClient_init [97] [])
      \<lparr>c_outbox := ([\<lparr>op_timeSent = 0, op_packet = packet_of 1 [0x32, 5, 0, 1, 116, 0, 1]\<rparr>,
         \<lparr>op_timeSent = 0, op_packet = packet_of 0 [0xC0, 0]\<rparr>], 0)\<rparr>) = Some c' \<and>
    c_world c' = [0x32, 5, 0, 1, 116, 0, 1, 0xC0, 0]"
proof -
  define a where "a = \<lparr>op_timeSent = 0, op_packet = packet_of 1 [0x32, 5, 0, 1, 116, 0, 1]\<rparr>"
  define b where "b = \<lparr>op_timeSent = 0, op_packet = packet_of 0 [0xC0, 0]\<rparr>"
  define c where "c = (MqttClient_init [97] ([] :: u8 list))\<lparr>c_outbox := ([a, b], 0)\<rparr>"
  have c: "c_outbox c = ([a, b], 0)" "c_bytesSent c = 0" "c_world c = []"
    by (simp_all add: c_def MqttClient_init_def)
  have "streamable a" "streamable b"
    by (simp_all add: a_def b_def streamable_def whole_def packet_of_def blank_def)
  then have start: "stream_inv c" "resumable c"
    using stream_inv_start [OF _ _ c(1,2)] by simp_all
  from outbox_stream [OF sink_streams(1) start] have "\<exists>c'. MqttClient_checkOutbox sink c = Some c' \<and>
      (takes_all sink \<longrightarrow> c_world c' = c_world c @ pending c)" by auto
  moreover have "pending c = [0x32, 5, 0, 1, 116, 0, 1, 0xC0, 0]"
    using c by (simp add: pending_def packet_bytes_def a_def b_def packet_of_def blank_def)
  ultimately show ?thesis using c(3) sink_streams(2) by (simp add: c_def a_def b_def)
qed

subsection \<open>Retransmission\<close>

text \<open>When the clock and the time a packet was sent at, both counted without wrapping, are known.\<close>

lemma sinceSent_clock:
  assumes "0 \<le> t0"
  shows "sinceSent env t (word_of_int t0) = (if e_wideClock env then t - t0 mod 2 ^ 32 else (t - t0) mod 2 ^ 32)"
proof -
  have "(word_of_int t - word_of_int t0 :: u32) = word_of_int (t - t0)"
    by simp
  then show ?thesis
    using assms by (simp add: sinceSent_def uint_word_of_int take_bit_eq_mod del: of_int_diff)
qed

lemma retransmits:
  assumes "transmits log env" and "takes_all env" and "stream_inv c"
    and "c_outbox c = (x # xs, Suc (length xs))" and "c_bytesSent c = 0"
  shows "\<exists>c'. MqttClient_checkOutbox env (MqttClient_checkTimeout env c) = Some c' \<and>
    log (c_world c') = log (c_world c) @
      (if sinceSent env (fst (e_clock env (c_world c))) (op_timeSent x) > uint (g_timeout (c_config c))
       then concat (map packet_bytes (x # xs)) else [])"
proof -
  define late where "late = (sinceSent env (fst (e_clock env (c_world c))) (op_timeSent x) > uint (g_timeout (c_config c)))"
  define d where "d = MqttClient_checkTimeout env c"
  have d: "c_outbox d = (x # xs, if late then 0 else Suc (length xs))" "c_bytesSent d = 0"
    "c_world d = snd (e_clock env (c_world c))"
    using assms(4,5) by (simp_all add: d_def late_def checkTimeout_eq split_beta Let_def)
  have "\<forall>y \<in> set (x # xs). streamable y" using assms(3,4) by (simp add: stream_inv_def streamable_def)
  then have "stream_inv d \<and> resumable d"
    by (intro stream_inv_start [OF _ _ d(1,2)]) simp_all
  then obtain c' where c': "MqttClient_checkOutbox env d = Some c'"
    "streamed log d c'" "emptied env c'"
    using checkOutbox_streams [OF assms(1)] by (auto simp: ok_def)
  have "pending d = (if late then concat (map packet_bytes (x # xs)) else [])"
    using d by (simp add: pending_def)
  moreover have "log (c_world d) = log (c_world c)" using assms(1) d(3) by (simp add: transmits_def)
  ultimately show ?thesis
    using c' assms(2) by (simp add: streamed_def emptied_def late_def d_def)
qed

text \<open>C8: The check of the timeout acts only when no packet is partly sent and the cursor is past the oldest
  packet; then, if that packet was sent longer ago than the timeout, the cursor goes back to it, and
  nothing else changes, whatever the packets are. If moreover everything has been sent, the packets hold
  their bytes and the transport takes all it is given, the next check of the outbox puts all packets on
  the wire again, from the oldest on, if they are late, and nothing if they are not. The age of the
  packet is its real one if the clock has 32 bits, up to the wrap-around of 49.7 days. If it
  has 64 bits, as on Linux, it is that only while the clock itself is below \<open>2 ^ 32\<close> milliseconds when the
  packet is sent: afterwards every packet is late at once, since the 64-bit clock is compared with the
  32 bits that were stored.\<close>

theorem retransmission:
  fixes c :: "'w Client" and t t0 :: int
  assumes "c_outbox c = (x # xs, i)" and "fst (e_clock env (c_world c)) = t" and "op_timeSent x = word_of_int t0"
    and "0 \<le> t0" and "t0 \<le> t" and "late = (sinceSent env t (op_timeSent x) > uint (g_timeout (c_config c)))"
  shows "MqttClient_checkTimeout env c =
      (if c_bytesSent c = 0 \<and> 0 < i
       then c\<lparr>c_world := snd (e_clock env (c_world c)), c_outbox := (x # xs, if late then 0 else i)\<rparr> else c) \<and>
    MqttClient_checkTimeout env (c\<lparr>c_outbox := ([], i)\<rparr>) = c\<lparr>c_outbox := ([], i)\<rparr> \<and>
    (transmits log env \<and> takes_all env \<and> stream_inv c \<and> i = Suc (length xs) \<and> c_bytesSent c = 0 \<longrightarrow>
      (\<exists>c'. MqttClient_checkOutbox env (MqttClient_checkTimeout env c) = Some c' \<and>
         log (c_world c') = log (c_world c) @ (if late then concat (map packet_bytes (x # xs)) else []))) \<and>
    (if e_wideClock env
     then (t0 < 2 ^ 32 \<longrightarrow> late = (t - t0 > uint (g_timeout (c_config c)))) \<and> (2 ^ 32 \<le> t0 \<longrightarrow> late)
     else t - t0 < 2 ^ 32 \<longrightarrow> late = (t - t0 > uint (g_timeout (c_config c))))"
proof (intro conjI)
  show "MqttClient_checkTimeout env c =
      (if c_bytesSent c = 0 \<and> 0 < i
       then c\<lparr>c_world := snd (e_clock env (c_world c)), c_outbox := (x # xs, if late then 0 else i)\<rparr> else c)"
    using assms(1,2,6) by (simp add: checkTimeout_eq split_beta Let_def)
  show "MqttClient_checkTimeout env (c\<lparr>c_outbox := ([], i)\<rparr>) = c\<lparr>c_outbox := ([], i)\<rparr>"
    by (simp add: checkTimeout_eq)
  show "transmits log env \<and> takes_all env \<and> stream_inv c \<and> i = Suc (length xs) \<and> c_bytesSent c = 0 \<longrightarrow>
      (\<exists>c'. MqttClient_checkOutbox env (MqttClient_checkTimeout env c) = Some c' \<and>
         log (c_world c') = log (c_world c) @ (if late then concat (map packet_bytes (x # xs)) else []))"
    using retransmits [of log env c x xs] assms(1,2,6) by auto
  have age: "sinceSent env t (op_timeSent x) = (if e_wideClock env then t - t0 mod 2 ^ 32 else (t - t0) mod 2 ^ 32)"
    using sinceSent_clock [OF assms(4)] assms(3) by metis
  have "uint (g_timeout (c_config c)) < 2 ^ 32"
    using uint_lt2p [of "g_timeout (c_config c)"] by simp
  moreover have "t0 mod 2 ^ 32 \<le> t0 - 2 ^ 32" if "2 ^ 32 \<le> t0"
    using that zmod_le_nonneg_dividend [of "t0 - 2 ^ 32" "2 ^ 32"] by simp
  ultimately show "if e_wideClock env
     then (t0 < 2 ^ 32 \<longrightarrow> late = (t - t0 > uint (g_timeout (c_config c)))) \<and> (2 ^ 32 \<le> t0 \<longrightarrow> late)
     else t - t0 < 2 ^ 32 \<longrightarrow> late = (t - t0 > uint (g_timeout (c_config c)))"
    using assms(4,5) unfolding assms(6) age by auto
qed

theorem retransmission_witness:
  "(\<exists>c'. MqttClient_checkOutbox (sink\<lparr>e_clock := \<lambda>w. (20000, w)\<rparr>)
      (MqttClient_checkTimeout (sink\<lparr>e_clock := \<lambda>w. (20000, w)\<rparr>) (sample_client ([sample_publish], 1))) = Some c' \<and>
    c_world c' = [0x3A, 5, 0, 1, 116, 0, 1]) \<and>
   c_outbox (MqttClient_checkTimeout (sink\<lparr>e_clock := \<lambda>w. (4294967297, w), e_wideClock := True\<rparr>)
     (sample_client ([sample_publish\<lparr>op_timeSent := 0\<rparr>], 1))) = ([sample_publish\<lparr>op_timeSent := 0\<rparr>], 0)"
proof -
  define env where "env = sink\<lparr>e_clock := \<lambda>w. (20000, w)\<rparr>"
  define linux where "linux = sink\<lparr>e_clock := \<lambda>w. (4294967297, w), e_wideClock := True\<rparr>"
  have env: "transmits (\<lambda>w. w) env" "takes_all env"
    using sink_streams by (simp_all add: env_def transmits_def takes_all_def sink_def)
  let ?c = "sample_client ([sample_publish], 1)" and ?d = "sample_client ([sample_publish\<lparr>op_timeSent := 0\<rparr>], 1)"
  have c: "c_bytesSent ?c = 0" "c_world ?c = []" "g_timeout (c_config ?c) = 10000" "c_outbox ?c = ([sample_publish], 1)"
    "c_bytesSent ?d = 0" "c_outbox ?d = ([sample_publish\<lparr>op_timeSent := 0\<rparr>], 1)" "g_timeout (c_config ?d) = 10000"
    by (simp_all add: sample_client_def MqttClient_init_def Config_init_def)
  then have inv: "stream_inv ?c"
    by (simp add: stream_inv_def whole_def sample_publish_def packet_of_def blank_def)
  have age: "sinceSent env 20000 (op_timeSent sample_publish) = 19995" "fst (e_clock env (c_world ?c)) = 20000"
    "op_timeSent sample_publish = word_of_int 5" "fst (e_clock linux (c_world ?d)) = 4294967297"
    by (simp_all add: env_def linux_def sinceSent_def sample_publish_def sink_def)
  have wide: "op_timeSent (sample_publish\<lparr>op_timeSent := 0\<rparr>) = word_of_int 4294967296"
    "sinceSent linux 4294967297 (op_timeSent (sample_publish\<lparr>op_timeSent := 0\<rparr>)) = 4294967297"
    by (simp_all add: linux_def sinceSent_def sink_def)
  have "\<exists>c'. MqttClient_checkOutbox env (MqttClient_checkTimeout env ?c) = Some c' \<and> c_world c' = packet_bytes sample_publish"
    using retransmission [OF c(4) age(2) age(3), of True "\<lambda>w. w"] env inv c(1-3) age(1) by auto
  moreover have "packet_bytes sample_publish = [0x3A, 5, 0, 1, 116, 0, 1]"
    by (simp add: sample_publish_def packet_bytes_def packet_of_def blank_def)
  moreover have "c_outbox (MqttClient_checkTimeout linux ?d) = ([sample_publish\<lparr>op_timeSent := 0\<rparr>], 0)"
    using retransmission [OF c(6) age(4) wide(1), of True "\<lambda>w. w"] c(5,7) wide(2) by simp
  ultimately show ?thesis by (simp add: env_def linux_def)
qed

subsection \<open>A failed write\<close>

text \<open>
  A transport that answers \<open>-1\<close>, as \<open>ClientPosix::write\<close> does when \<open>send\<close> fails, moves the count of
  the sent bytes back: it wraps, and from then on nothing is sent, whatever the transport does,
  until the connection is closed.
\<close>

lemma failed_write_stalls:
  assumes cur: "q_current (c_outbox c) = Some x" and "streamable x" and "c_bytesSent c = 0"
    and "\<And>bytes w. fst (e_write env bytes w) = - 1"
  shows "\<exists>c'. MqttClient_sendPacket env c = Some (- 1, c') \<and> c_bytesSent c' = - 1 \<and>
    (\<forall>env'. \<exists>c''. MqttClient_sendPacket env' c' = Some (0, c'') \<and> c_world c'' = c_world c')"
proof -
  define p where "p = op_packet x"
  have x: "whole p" "0 < p_size p" using assms(2) by (simp_all add: streamable_def p_def)
  note b = whole_bytes [of x, folded p_def, OF x(1)]
  have avail: "Packet_available 0 p = Some (p_size p, p)" "Packet_available (- 1) p = Some (0, p)"
    using b x(2) by (simp_all add: Packet_available_def not_le flip: word_neq_0_conv)
  have read: "Packet_bytes 0 (p_size p) p = Some (packet_bytes x)"
    using b x(2) by (simp add: Packet_bytes_def Packet_data_def not_le)
  define c1 where "c1 = writeCurrent (\<lambda>x. x\<lparr>op_packet := p\<rparr>) c"
  define c' where "c' = snd (the (MqttClient_sendPacket env c))"
  have ne: "p_size p \<noteq> 0" using x(2) by simp
  have send: "MqttClient_sendPacket env c = Some (- 1, c')" "c_bytesSent c' = - 1"
    "\<exists>t. c_outbox c' = c_outbox (writeCurrent (\<lambda>x. x\<lparr>op_timeSent := t\<rparr>) c1)"
    unfolding c'_def using cur avail(1) read ne assms(3,4)
    by (auto simp: MqttClient_sendPacket_def ask_eq Let_def c1_def simp flip: p_def)
  then obtain t where "c_outbox c' = c_outbox (writeCurrent (\<lambda>x. x\<lparr>op_timeSent := t\<rparr>) c1)" by blast
  moreover have "q_current (c_outbox c1) = Some (x\<lparr>op_packet := p\<rparr>)"
    unfolding c1_def using current_write [OF cur] by simp
  ultimately have "q_current (c_outbox c') = Some (x\<lparr>op_packet := p, op_timeSent := t\<rparr>)"
    using current_write by fastforce
  with send avail(2) show ?thesis by (auto simp: MqttClient_sendPacket_def Let_def)
qed

end
