(* ===== verification/EndToEnd.thy ===== *)
theory EndToEnd
  imports ParserCorrect ClientStream
begin

text \<open>
  The parts together: a message published by one client, put on the wire by its \<open>loop\<close>, forwarded as
  it is, and received by the \<open>loop\<close> of another client.
\<close>

subsection \<open>One packet in the receive buffer\<close>

lemma zero_terminated:
  assumes "take (Suc (length topic)) mem = topic @ [0]" and "0 \<notin> set topic"
  shows "strlen mem = Some (length topic)" and "take (length topic) mem = topic"
proof -
  have mem: "mem = topic @ 0 # drop (Suc (length topic)) mem"
    using append_take_drop_id [of "Suc (length topic)" mem] assms(1) by simp
  have "takeWhile (\<lambda>b. b \<noteq> 0) (topic @ 0 # r) = topic" for r :: cstring
    using assms(2) by (induction topic) auto
  with mem have "takeWhile (\<lambda>b. b \<noteq> 0) mem = topic" by metis
  moreover have "0 \<in> set mem" by (subst mem) simp
  ultimately show "strlen mem = Some (length topic)" by (simp add: strlen_def)
  show "take (length topic) mem = topic" by (subst mem) simp
qed

lemma receive_one:
  assumes "Parser_parse data n (c_parser c) = Some (result, n, p)" and "0 < sint n"
    and "MqttClient_dispatch env result (c\<lparr>c_parser := p\<rparr>) = Some (continue, c')"
  shows "MqttClient_receive env data n 0 c = Some c'"
  using assms
  by (subst MqttClient_receive.simps) (simp add: MqttClient_receive.simps [of env data 0])

text \<open>A connected client at a packet boundary, about to read, with the semaphore.\<close>

definition listening :: "'w Client \<Rightarrow> bool" where
  "listening c \<longleftrightarrow> c_state c = connected \<and> parser_inv (c_parser c) \<and> r_parse (c_parser c) = fixedHeader \<and>
     outbox_ok (c_outbox c) \<and> c_taken c \<and> config_ok (c_config c) \<and> g_onMessageCallback (c_config c) \<and>
     (\<forall>x \<in> set (fst (c_outbox c)). op_packetType x \<noteq> PUBREC)"

text \<open>The message that a PUBLISH makes, and its delivery by the client that receives it.\<close>

definition message :: "u8 \<Rightarrow> bool \<Rightarrow> bool \<Rightarrow> u16 \<Rightarrow> cstring \<Rightarrow> u8 list \<Rightarrow> Event" where
  "message qos dup retain packetId topic payload =
     OnMessage \<lparr>mp_qos = qos, mp_dup = dup, mp_retain = retain, mp_packetId = (if qos = 0 then 0 else packetId)\<rparr>
       topic payload (of_nat (length payload)) 0 (of_nat (length payload))"

text \<open>A callback runs with its event; the calls it makes only add events of errors.\<close>

lemma callback_event:
  assumes env: "reacts_by_calls env" and c: "config_ok (c_config c)" "c_taken c" and set: "isSet (c_config c)"
  shows "\<exists>c' es. callback env isSet e c = Some c' \<and> c_events c' = c_events c @ e # es \<and> c_taken c'"
proof -
  have "ok (e_react env e (c\<lparr>c_taken := False, c_events := c_events c @ [e]\<rparr>))
      (called (c\<lparr>c_taken := False, c_events := c_events c @ [e]\<rparr>))"
    by (rule react_called [OF env]) (use c in simp)
  then show ?thesis
    using c(2) set by (auto simp: callback_def semaphore_give_def semaphore_take_def called_def ok_def)
qed

lemma incoming_publish:
  assumes l: "listening c" and env: "reacts_by_calls env"
    and "qos \<le> 2" "qos = 0 \<longrightarrow> \<not> dup" "topic \<noteq> []" "length topic \<le> 128" "0 \<notin> set topic"
    and "fits (publish_body packetId topic payload qos)" "qos \<noteq> 0 \<longrightarrow> packetId \<noteq> 0"
    and wire: "wire = wire_publish dup packetId topic payload qos retain" and short: "length wire < 2 ^ 31"
    and read: "e_read env EMC_RX_BUFFER_SIZE (c_world c) = ((of_nat (length wire), wire), w)"
  shows "\<exists>c' es. MqttClient_checkIncoming env c = Some c' \<and>
    c_events c' = c_events c @ message qos dup retain packetId topic payload # es \<and> c_taken c'"
proof -
  define n where "n = (of_nat (length wire) :: u32)"
  have pos: "0 < length wire" by (simp add: wire wire_publish_def wire_packet_def)
  have n: "unat n = length wire" using short by (simp add: n_def unat_of_nat32)
  have sint: "0 < sint n" using n pos short by (intro pos_unat_sint) simp_all
  have lp: "parser_inv (c_parser c)" "r_parse (c_parser c) = fixedHeader" using l by (simp_all add: listening_def)
  have small: "length (wire_publish dup packetId topic payload qos retain @ []) < 2 ^ 32"
    using short wire by simp
  obtain p where parse: "Parser_parse wire n (c_parser c) = Some (packet, n, p)"
    and pub: "published (publish_header dup qos retain) (if qos = 0 then 0 else packetId) topic payload p"
    and bits: "IncomingPacket_qos (r_packet p) = qos" "IncomingPacket_dup (r_packet p) = dup"
      "IncomingPacket_retain (r_packet p) = retain"
    and payload: "payload \<noteq> [] \<longrightarrow> Parser_payload p = Some payload"
    using receive_publish [OF lp assms(3-6,8,9) small] wire by (auto simp: n_def)
  define d where "d = c\<lparr>c_world := snd (e_clock env w), c_lastServerActivity := fst (e_millis env w), c_parser := p\<rparr>"
  have d: "c_outbox d = c_outbox c" "c_config d = c_config c" "c_events d = c_events c" "c_state d = connected"
    "incoming d = r_packet p" "c_parser d = p" "c_taken d" "config_ok (c_config d)"
    using l by (simp_all add: d_def incoming_def listening_def)
  have size: "unat (i_length (r_packet p)) = length payload" "i_index (r_packet p) = 0"
    "unat (i_total (r_packet p)) = length payload" "i_packetId (r_packet p) = (if qos = 0 then 0 else packetId)"
    and type: "i_packetType (r_packet p) = publish_header dup qos retain"
    and topic: "take (Suc (length topic)) (i_topic (r_packet p)) = topic @ [0]"
    using pub by (simp_all add: published_def Let_def)
  have lengths: "i_length (r_packet p) = of_nat (length payload)" "i_total (r_packet p) = of_nat (length payload)"
    by (simp flip: size(1)) (simp flip: size(3))
  have empty: "payload = [] \<longleftrightarrow> i_length (r_packet p) = 0" using size(1) by (metis length_0_conv unat_eq_0)
  have "messageEvent d = Some (message qos dup retain packetId topic payload)"
    using zero_terminated [OF topic assms(7)] d bits size payload empty lengths
    by (cases "payload = []") (simp_all add: messageEvent_def message_def Let_def)
  moreover have "outbox_ok (c_outbox d)" "\<not> already_received d" "g_onMessageCallback (c_config d)"
    using l d by (auto simp: listening_def already_received_def)
  ultimately obtain d' where d': "answered env d d'"
    "MqttClient_onPublish env d = callback env g_onMessageCallback (message qos dup retain packetId topic payload) d'"
    using onPublish_effect [of d _ env] by auto
  moreover have "\<exists>c' es. callback env g_onMessageCallback (message qos dup retain packetId topic payload) d' = Some c' \<and>
      c_events c' = c_events d' @ message qos dup retain packetId topic payload # es \<and> c_taken c'"
    by (rule callback_event [OF env]) (use d d'(1) l in \<open>simp_all add: answered_def listening_def\<close>)
  ultimately obtain c' es where c': "MqttClient_onPublish env d = Some c'"
    "c_events c' = c_events c @ message qos dup retain packetId topic payload # es" "c_taken c'"
    using d by (auto simp: answered_def)
  have "i_packetType (incoming d) AND 0xF0 = PUBLISH"
    using publish_header_bits(1) [OF assms(3,4)] type d by simp
  then have "MqttClient_dispatch env packet d = Some (True, c')"
    using c'(1) d by (simp add: MqttClient_dispatch_def)
  then have "MqttClient_receive env wire n 0 (c\<lparr>c_world := snd (e_clock env w), c_lastServerActivity := fst (e_millis env w)\<rparr>) = Some c'"
    using parse sint by (intro receive_one) (simp_all add: d_def)
  then have "MqttClient_checkIncoming env c = Some c'"
    using read sint by (simp add: MqttClient_checkIncoming_def ask_eq n_def [symmetric])
  with c'(2,3) show ?thesis by blast
qed


subsection \<open>From publish to the message callback\<close>

text \<open>The line of the publisher: it is connected, nothing arrives, and only a write puts bytes on it.\<close>

definition idle_line :: "('w \<Rightarrow> u8 list) \<Rightarrow> 'w Env \<Rightarrow> bool" where
  "idle_line log env \<longleftrightarrow> transmits log env \<and> takes_all env \<and>
     (\<forall>w. fst (e_connected env w) \<and> log (snd (e_connected env w)) = log w \<and> log (snd (e_alloc env w)) = log w \<and>
       (\<forall>n. fst (fst (e_read env n w)) = 0 \<and> log (snd (e_read env n w)) = log w))"

text \<open>Keep-alive and retries put nothing on the line and report nothing.\<close>

lemma checkPing_silent:
  "ok (MqttClient_checkPing env c) (\<lambda>c'. c_events c' = c_events c \<and> c_taken c' = c_taken c \<and>
    (idle_line log env \<longrightarrow> log (c_world c') = log (c_world c)))"
proof -
  define w where "w = snd (e_clock env (c_world c))"
  obtain added c2 where add: "MqttClient_addPacket env (\<lambda>mem. Packet_simple mem PINGREQ) (c\<lparr>c_world := w\<rparr>) = Some (added, c2)"
    and "evolves {} (c\<lparr>c_world := w\<rparr>) c2" "c_events c2 = c_events (c\<lparr>c_world := w\<rparr>)"
    using addPacket_evolves [OF builds_simple, where c = "c\<lparr>c_world := w\<rparr>" and S = "{}"] by (force simp: ok_def)
  then have c2: "c_events c2 = c_events c" "c_taken c2 = c_taken c" by (simp_all add: evolves_def)
  have w2: "c_world c2 = snd (e_alloc env w)"
  proof -
    obtain node mem u where al: "e_alloc env w = ((node, mem), u)" by (metis prod.collapse)
    show ?thesis
      using add by (cases node; cases "Packet_simple mem PINGREQ")
        (auto simp: MqttClient_addPacket_def ask_eq al Let_def split: if_splits)
  qed
  have "log w = log (c_world c)" "log (snd (e_alloc env w)) = log w" if "idle_line log env"
    using that by (simp_all add: idle_line_def transmits_def w_def)
  then show ?thesis
    unfolding MqttClient_checkPing_def Let_def ask_eq prod.case snd_millis w_def [symmetric]
    using add c2 w2 by (simp add: wp MqttClient_setState_def)
qed

lemma checkTimeout_silent:
  "c_events (MqttClient_checkTimeout env c) = c_events c" "c_taken (MqttClient_checkTimeout env c) = c_taken c"
  "idle_line log env \<Longrightarrow> log (c_world (MqttClient_checkTimeout env c)) = log (c_world c)"
  by (auto simp: MqttClient_checkTimeout_def ask_eq Let_def idle_line_def transmits_def split: list.split)

lemma sendPacket_taken: "MqttClient_sendPacket env c = Some (n, c') \<Longrightarrow> c_taken c' = c_taken c"
  by (auto simp: MqttClient_sendPacket_def ask_eq Let_def bind_eq_Some split: option.splits if_splits)

lemma advanceOutbox_taken: "c_taken (snd (MqttClient_advanceOutbox c)) = c_taken c"
  by (simp add: MqttClient_advanceOutbox_def MqttClient_setState_def writeCurrent_def Let_def split: option.split)

lemma checkOutbox_taken: "MqttClient_checkOutbox env c = Some c' \<Longrightarrow> c_taken c' = c_taken c"
proof (induction rule: MqttClient_checkOutbox.raw_induct [rotated, consumes 1, case_names step])
  case (step rec env c c')
  obtain n c1 where send: "MqttClient_sendPacket env c = Some (n, c1)"
    using step(2) by (auto simp: bind_eq_Some)
  obtain any c2 where adv: "MqttClient_advanceOutbox c1 = (any, c2)" by (cases "MqttClient_advanceOutbox c1")
  have "c_taken c1 = c_taken c" using send by (rule sendPacket_taken)
  moreover have "c_taken c2 = c_taken c1" using advanceOutbox_taken [of c1] adv by simp
  moreover have "c' = c1 \<or> c' = c2 \<or> rec env c2 = Some c'"
    using step(2) send adv by (auto split: if_splits)
  ultimately show ?case using step(1) [of env c2 c'] by auto
qed

text \<open>One call of \<open>loop\<close> of the publisher.\<close>

lemma loop_sends:
  assumes line: "idle_line log env" and st: "c_state c = connected" and free: "\<not> c_taken c"
    and c: "stream_inv c" "resumable c"
  shows "\<exists>c'. MqttClient_loop env c = Some c' \<and> log (c_world c') = log (c_world c) @ pending c"
proof -
  have t: "transmits log env" "takes_all env" using line by (simp_all add: idle_line_def)
  define c1 where "c1 = c\<lparr>c_world := snd (e_connected env (c_world c)), c_taken := True\<rparr>"
  have c1: "stream_inv c1" "resumable c1" "pending c1 = pending c" "log (c_world c1) = log (c_world c)"
    using c line by (simp_all add: c1_def stream_inv_def resumable_def pending_def current_size_def idle_line_def)
  obtain c2 where c2: "MqttClient_checkOutbox env c1 = Some c2" "log (c_world c2) = log (c_world c) @ pending c"
    using checkOutbox_streams [OF t(1) c1(1,2)] t(2) c1(3,4) by (auto simp: ok_def streamed_def emptied_def)
  have taken2: "c_taken c2"
    using checkOutbox_taken [of env c1 c2] c2(1) by (simp add: c1_def)
  define c3 where "c3 = c2\<lparr>c_world := snd (e_read env EMC_RX_BUFFER_SIZE (c_world c2))\<rparr>"
  have c3: "MqttClient_checkIncoming env c2 = Some c3"
    using line by (simp add: MqttClient_checkIncoming_def ask_eq c3_def idle_line_def split: prod.split) (metis sint_0 fst_conv less_irrefl)
  obtain c4 where c4: "MqttClient_checkPing env c3 = Some c4" "c_taken c4" "log (c_world c4) = log (c_world c3)"
    using checkPing_silent [of env c3 log] line taken2 by (auto simp: ok_def c3_def)
  have "MqttClient_loop env c = Some ((MqttClient_checkTimeout env c4)\<lparr>c_taken := False\<rparr>)"
    using st free line c2(1) c3 c4 checkTimeout_silent(2) [of env c4]
    by (simp add: MqttClient_loop_def loop_connected_def ask_eq with_semaphore_def semaphore_take_def semaphore_give_def
        loop_exchange_def idle_line_def c1_def)
  moreover have "log (c_world c3) = log (c_world c2)" using line by (simp add: c3_def idle_line_def)
  ultimately show ?thesis
    using c2(2) c4(3) checkTimeout_silent(3) [OF line, of c4] by auto
qed

text \<open>One call of \<open>loop\<close> of the subscriber.\<close>

lemma loop_receives:
  assumes inv: "client_inv c" "c_state c = connected" "c_outbox c = ([], 0)" "r_parse (c_parser c) = fixedHeader"
    "g_onMessageCallback (c_config c)" and env: "reacts_by_calls env" and line: "\<And>w. fst (e_connected env w)"
    and m: "qos \<le> 2" "qos = 0 \<longrightarrow> \<not> dup" "topic \<noteq> []" "length topic \<le> 128" "0 \<notin> set topic"
    "fits (publish_body packetId topic payload qos)" "qos \<noteq> 0 \<longrightarrow> packetId \<noteq> 0"
    and wire: "wire = wire_publish dup packetId topic payload qos retain" and short: "length wire < 2 ^ 31"
    and read: "\<And>w. fst (e_read env EMC_RX_BUFFER_SIZE w) = (of_nat (length wire), wire)"
  shows "\<exists>c' es. MqttClient_loop env c = Some c' \<and>
    c_events c' = c_events c @ message qos dup retain packetId topic payload # es"
proof -
  define c1 where "c1 = c\<lparr>c_world := snd (e_connected env (c_world c)), c_taken := True\<rparr>"
  have free: "\<not> c_taken c" using inv(1) by (simp add: client_inv_def)
  have "parser_inv (c_parser c)" using inv(1,2,4) by (simp add: client_inv_def active_def parser_ok_def)
  then have l: "listening c1" using inv by (simp add: listening_def c1_def client_inv_def)
  have none: "MqttClient_checkOutbox env c1 = Some c1"
    using inv(3) by (subst MqttClient_checkOutbox.simps) (simp add: c1_def MqttClient_sendPacket_def q_current_def at_def)
  have "e_read env EMC_RX_BUFFER_SIZE (c_world c1) =
      ((of_nat (length wire), wire), snd (e_read env EMC_RX_BUFFER_SIZE (c_world c1)))"
    using read [of "c_world c1"] by (metis prod.collapse)
  from incoming_publish [OF l env m wire short this] obtain c2 es where c2: "MqttClient_checkIncoming env c1 = Some c2"
    "c_events c2 = c_events c1 @ message qos dup retain packetId topic payload # es" "c_taken c2"
    by auto
  obtain c3 where c3: "MqttClient_checkPing env c2 = Some c3" "c_taken c3" "c_events c3 = c_events c2"
    using checkPing_silent [of env c2] c2(3) by (auto simp: ok_def)
  have "MqttClient_loop env c = Some ((MqttClient_checkTimeout env c3)\<lparr>c_taken := False\<rparr>)"
    using inv(2) free line none c2(1) c3 checkTimeout_silent(2) [of env c3]
    by (simp add: MqttClient_loop_def loop_connected_def ask_eq with_semaphore_def semaphore_take_def semaphore_give_def
        loop_exchange_def c1_def)
  then show ?thesis
    using c2(2) c3(3) checkTimeout_silent(1) [of env c3] by (auto simp: c1_def)
qed

text \<open>C1: What \<open>publish\<close> is called with reaches the message callback of a client that receives what was
  written: on an idle connection the next call of \<open>loop\<close> writes the whole message, and when the transport
  of another connected client has these bytes to read, its next call of \<open>loop\<close> calls its message callback
  with the same topic, payload, QoS and retain flag, and the packet identifier that \<open>publish\<close> returned,
  once and before any other callback. The message is one that fits the receive buffer and the topic
  buffer; the callback may do what it likes with its client.\<close>

theorem publish_end_to_end:
  fixes env :: "'w Env" and env' :: "'v Env"
  assumes "client_inv a" and "c_state a = connected" and "c_outbox a = ([], 0)" and "c_bytesSent a = 0"
    and "granted env a (publish_acc (publish_id qos a) topic payload qos)" and "idle_line log env"
    and "qos \<le> 2" and "topic \<noteq> []" and "length topic \<le> 128" and "0 \<notin> set topic" and "length payload \<le> 1300"
    and "client_inv b" and "c_state b = connected" and "c_outbox b = ([], 0)" and "r_parse (c_parser b) = fixedHeader"
    and "g_onMessageCallback (c_config b)" and "reacts_by_calls env'" and "\<forall>w. fst (e_connected env' w)"
  shows "\<exists>r a1 a2 bytes. MqttClient_publish env topic qos retain payload (of_nat (length payload)) a = Some (r, a1) \<and>
    MqttClient_loop env a1 = Some a2 \<and> log (c_world a2) = log (c_world a) @ bytes \<and> length bytes \<le> 1440 \<and>
    ((\<forall>w. fst (e_read env' EMC_RX_BUFFER_SIZE w) = (of_nat (length bytes), bytes)) \<longrightarrow>
      (\<exists>b' es. MqttClient_loop env' b = Some b' \<and>
        c_events b' = c_events b @ message qos False retain r topic payload # es))"
proof -
  define r where "r = publish_id qos a"
  define bytes where "bytes = wire_publish False r topic payload qos retain"
  define x where "x = \<lparr>op_timeSent = 0, op_packet = packet_of (if qos = 0 then 0 else r) bytes\<rparr>"
  define a1 where "a1 = enqueue (op_packet x) (after_alloc env (identified qos a))"
  have body: "length (publish_body r topic payload qos) \<le> 1432"
    using assms(9,11) by (simp add: length_publish_body)
  then have fits: "fits (publish_body r topic payload qos)" "fits (publish_body 0 topic payload qos)"
    by (simp_all add: fits_def length_publish_body)
  have "unat (of_nat (length (publish_body r topic payload qos)) :: u32) \<le> 1432"
    using body by (simp add: unat_of_nat32)
  then have "length (encodeRemainingLength (of_nat (length (publish_body r topic payload qos)))) \<le> 4"
    by (simp add: length_encode_cases)
  then have len: "0 < length bytes" "length bytes \<le> 1440"
    using body by (simp_all add: bytes_def wire_publish_def length_wire_packet)
  have inv: "outbox_ok (c_outbox a)" "\<not> c_taken a" using assms(1) by (simp_all add: client_inv_def)
  have "mayPublish env a" using assms(2) by (simp add: mayPublish_def)
  then have "MqttClient_publish env topic qos retain payload (of_nat (length payload)) a = Some (r, a1)"
    using publish_eq [OF inv assms(7) _ fits(2), of env retain] assms(3,5,9)
    by (simp add: Let_def r_def a1_def x_def bytes_def)
  moreover have a1: "c_outbox a1 = ([x], 0)" "c_bytesSent a1 = 0" "log (c_world a1) = log (c_world a)"
      "c_state a1 = connected" "\<not> c_taken a1"
    using assms(2,3,4,6) inv(2) by (simp_all add: a1_def x_def enqueue_def after_alloc_def idle_line_def identified_def)
  have "streamable x"
    using len by (simp add: streamable_def whole_def x_def packet_of_def blank_def unat_of_nat32 word_less_nat_alt)
  then have "stream_inv a1 \<and> resumable a1"
    by (intro stream_inv_start [OF _ _ a1(1,2)]) simp_all
  then obtain a2 where "MqttClient_loop env a1 = Some a2" "log (c_world a2) = log (c_world a1) @ pending a1"
    using loop_sends [OF assms(6) a1(4,5)] by auto
  moreover have "pending a1 = bytes"
    using a1 by (simp add: pending_def packet_bytes_def x_def packet_of_def blank_def)
  moreover have "\<exists>b' es. MqttClient_loop env' b = Some b' \<and>
        c_events b' = c_events b @ message qos False retain r topic payload # es"
    if "\<forall>w. fst (e_read env' EMC_RX_BUFFER_SIZE w) = (of_nat (length bytes), bytes)"
    using that len publish_id_nonzero [of qos a] assms(18)
    by (intro loop_receives [OF assms(12-17) _ assms(7) _ assms(8-10) fits(1) _ bytes_def]) (auto simp: r_def)
  ultimately show ?thesis
    using a1(3) len(2) by (intro exI [of _ r] exI [of _ a1] exI [of _ a2] exI [of _ bytes]) auto
qed

theorem publish_end_to_end_witness:
  "\<exists>r bytes b'. MqttClient_loop (sink\<lparr>e_read := \<lambda>n w. ((of_nat (length bytes), bytes), w)\<rparr>)
      ((sample_client ([], 0))\<lparr>c_state := connected, c_config := (Config_init [97])\<lparr>g_onMessageCallback := True\<rparr>\<rparr>) = Some b' \<and>
    message 1 False True r [116] [7] \<in> set (c_events b')"
proof -
  let ?a = "(sample_client ([], 0))\<lparr>c_state := connected\<rparr>"
  let ?b = "?a\<lparr>c_config := (Config_init [97])\<lparr>g_onMessageCallback := True\<rparr>\<rparr>"
  define reader where "reader bytes = sink\<lparr>e_read := \<lambda>n w. ((of_nat (length bytes), bytes), w)\<rparr>" for bytes :: "u8 list"
  have inv: "client_inv ?a"
    using sample_inv [of "([], 0)"] parser_ok_init
    by (simp add: client_inv_def sample_client_def MqttClient_init_def outbox_ok_def)
  moreover have "config_ok ((Config_init [97])\<lparr>g_onMessageCallback := True\<rparr>)"
    using config_ok_init by (simp add: config_ok_def)
  ultimately have "client_inv ?b" by (simp add: client_inv_def)
  moreover have "reacts_by_calls (reader bytes)" "\<forall>w. fst (e_connected (reader bytes) w)" for bytes
    by (simp_all add: reader_def sink_def)
  moreover have "granted sink ?a (publish_acc i t m q)" "idle_line (\<lambda>w. w) sink" for i t m q
    using sink_streams by (simp_all add: granted_def publish_acc_def idle_line_def) (simp_all add: sink_def)
  moreover have "c_outbox ?a = ([], 0)" "c_bytesSent ?a = 0" "r_parse (c_parser ?a) = fixedHeader" "c_world ?a = []"
    by (simp_all add: sample_client_def MqttClient_init_def Parser_init_def)
  ultimately have e2e: "\<exists>r a1 a2 bytes. MqttClient_publish sink [116] 1 True [7] (of_nat (length [7 :: u8])) ?a = Some (r, a1) \<and>
    MqttClient_loop sink a1 = Some a2 \<and> c_world a2 = c_world ?a @ bytes \<and> length bytes \<le> 1440 \<and>
    ((\<forall>w. fst (e_read (reader x) EMC_RX_BUFFER_SIZE w) = (of_nat (length bytes), bytes)) \<longrightarrow>
      (\<exists>b' es. MqttClient_loop (reader x) ?b = Some b' \<and>
        c_events b' = c_events ?b @ message 1 False True r [116] [7] # es))" for x
    using inv by (intro publish_end_to_end) simp_all
  obtain r a1 a2 where sent: "MqttClient_publish sink [116] 1 True [7] (of_nat (length [7 :: u8])) ?a = Some (r, a1)"
    "MqttClient_loop sink a1 = Some a2"
    using e2e [of "[]"] by blast
  have "\<forall>w. fst (e_read (reader bytes) EMC_RX_BUFFER_SIZE w) = (of_nat (length bytes), bytes)" for bytes
    by (simp add: reader_def)
  with e2e [of "c_world a2"] sent obtain b' es where "MqttClient_loop (reader (c_world a2)) ?b = Some b'"
    "c_events b' = c_events ?b @ message 1 False True r [116] [7] # es"
    using \<open>c_world ?a = []\<close> by auto
  then show ?thesis unfolding reader_def by (intro exI [of _ r] exI [of _ "c_world a2"] exI [of _ b']) simp
qed

end
