(* ===== verification/ClientWorld.thy ===== *)
theory ClientWorld
  imports ClientSystem
begin

text \<open>
  What the client does to the world behind its transport. It connects only in \<open>connectingTcp1\<close> and
  stops the transport only in \<open>disconnectingTcp1\<close>; everything else it does, callbacks included, are
  writes, reads, questions and allocations. The locale \<open>observer\<close> is a predicate on
  the world and the events that all of those keep, but for the event that reports the end of the connection;
  the locale \<open>steady\<close> is what a transport promises of its calls: a relation between worlds that they
  keep. The transports instantiate it.
\<close>

text \<open>The event that reports the end of a connection.\<close>

fun isDisconnect :: "Event \<Rightarrow> bool" where
  "isDisconnect (OnDisconnect reason) = True"
| "isDisconnect e = False"

text \<open>What is observed of the world and the events, and kept by every call of the transport and every other event.\<close>

locale observer =
  fixes env :: "'w Env" and Q :: "'w \<Rightarrow> Event list \<Rightarrow> bool"
  assumes Q_step: "Q w es \<Longrightarrow> Q (snd (e_write env bytes w)) es" "Q w es \<Longrightarrow> Q (snd (e_read env n w)) es"
      "Q w es \<Longrightarrow> Q (snd (e_connected env w)) es" "Q w es \<Longrightarrow> Q (snd (e_disconnected env w)) es"
      "Q w es \<Longrightarrow> Q (snd (e_clock env w)) es" "Q w es \<Longrightarrow> Q (snd (e_alloc env w)) es"
    and Q_event: "\<not> isDisconnect e \<Longrightarrow> Q w es \<Longrightarrow> Q w (es @ [e])"
begin

text \<open>
  Each operation that neither connects nor stops, if it returns, keeps what is observed.
\<close>

lemma addPacket_world:
  "Q (c_world c) (c_events c) \<Longrightarrow> post (MqttClient_addPacket env build c) (\<lambda>(added, c'). Q (c_world c') (c_events c'))"
  "Q (c_world c) (c_events c) \<Longrightarrow> post (MqttClient_addPacketFront env build c) (\<lambda>(added, c'). Q (c_world c') (c_events c'))"
  by (auto simp: MqttClient_addPacket_def MqttClient_addPacketFront_def ask_eq wp Q_step Let_def post_def
      bind_eq_Some split: prod.splits if_splits)

lemma clear_world [simp]: "c_world (MqttClient_clearQueueData b c) = c_world c" "c_events (MqttClient_clearQueueData b c) = c_events c"
  by (simp_all add: MqttClient_clearQueueData_def)

lemma setState_world [simp]: "c_world (MqttClient_setState s c) = c_world c" "c_events (MqttClient_setState s c) = c_events c"
  by (simp_all add: MqttClient_setState_def)

lemma disconnect_world [simp]: "c_world (snd (MqttClient_disconnect force c)) = c_world c" "c_events (snd (MqttClient_disconnect force c)) = c_events c"
  by (simp_all add: MqttClient_disconnect_def)

lemma clearQueue_world: "Q (c_world c) (c_events c) \<Longrightarrow> post (MqttClient_clearQueue b c) (\<lambda>c'. Q (c_world c') (c_events c'))"
  by (simp add: MqttClient_clearQueue_def with_semaphore_def wp)

lemma run_calls_world:
  assumes "\<And>a c. a \<in> set as \<Longrightarrow> Q (c_world c) (c_events c) \<Longrightarrow> post (perform_call env a c) (\<lambda>c'. Q (c_world c') (c_events c'))"
  shows "Q (c_world c) (c_events c) \<Longrightarrow> post (run_calls env as c) (\<lambda>c'. Q (c_world c') (c_events c'))"
  using assms
proof (induction as arbitrary: c)
  case Nil
  then show ?case by (simp add: wp)
next
  case (Cons a as)
  show ?case
    unfolding run_calls.simps post_bind
    by (rule post_mono [OF Cons.prems(2) Cons.IH]) (use Cons.prems in simp_all)
qed

lemma error_world:
  assumes env: "reacts_by_calls env" and e: "isError e" and c: "Q (c_world c) (c_events c)"
  shows "post (e_react env e c) (\<lambda>c'. Q (c_world c') (c_events c'))"
proof -
  obtain as where as: "reaction e as" "e_react env e c = run_calls env as c"
    using env by (auto simp: reacts_by_calls_def)
  have "post (perform_call env a d) (\<lambda>c'. Q (c_world c') (c_events c'))" if "a \<in> set as" "Q (c_world d) (c_events d)" for a d
    using as(1) e that clearQueue_world [OF that(2)]
    by (cases a) (auto simp: reaction_def wp)
  from run_calls_world [OF this c] as(2) show ?thesis by simp
qed

lemma report_world:
  assumes "reacts_by_calls env" and "Q (c_world c) (c_events c)"
  shows "post (report env i c) (\<lambda>c'. Q (c_world c') (c_events c'))"
  using assms by (auto simp: report_def MqttClient_onError_def notify_def wp intro!: post_mono [OF error_world] Q_event)

lemma nextId_world [simp]: "c_world (snd (MqttClient_getNextPacketId c)) = c_world c" "c_events (snd (MqttClient_getNextPacketId c)) = c_events c"
  by (simp_all add: MqttClient_getNextPacketId_def Let_def)

lemma nextId_world' [simp]: "MqttClient_getNextPacketId c = (i, c') \<Longrightarrow> c_world c' = c_world c \<and> c_events c' = c_events c"
  by (metis nextId_world snd_conv)

lemma publish_world:
  assumes env: "reacts_by_calls env" and c: "Q (c_world c) (c_events c)"
  shows "post (do {
      c \<leftarrow> semaphore_take c;
      let (packetId, c) = (if qos > 0 then MqttClient_getNextPacketId c else (1, c));
      (added, c) \<leftarrow> MqttClient_addPacket env (mk packetId) c;
      c \<leftarrow> (if added then Some c else report env packetId c);
      c \<leftarrow> semaphore_give c;
      Some (if added then packetId else 0, c) }) (\<lambda>(r, c'). Q (c_world c') (c_events c'))"
  using c by (auto simp: wp Let_def split: prod.splits if_splits
      intro!: post_mono [OF addPacket_world(1)] post_mono [OF report_world [OF env]])

lemma subscribe_world:
  assumes c: "Q (c_world c) (c_events c)"
  shows "post (do {
      c \<leftarrow> semaphore_take c;
      let (packetId, c) = MqttClient_getNextPacketId c;
      (added, c) \<leftarrow> MqttClient_addPacket env (mk packetId) c;
      c \<leftarrow> semaphore_give c;
      Some (if added then packetId else 0, c) }) (\<lambda>(r, c'). Q (c_world c') (c_events c'))"
  using c by (auto simp: wp Let_def split: prod.splits intro!: post_mono [OF addPacket_world(1)])

lemma connect_world:
  assumes env: "reacts_by_calls env" and c: "Q (c_world c) (c_events c)"
  shows "post (MqttClient_connect env c) (\<lambda>(r, c'). Q (c_world c') (c_events c'))"
  using c by (auto simp: MqttClient_connect_def wp Let_def
      intro!: post_mono [OF addPacket_world(2)] post_mono [OF report_world [OF env]])

lemma perform_call_world:
  assumes env: "reacts_by_calls env" and c: "Q (c_world c) (c_events c)"
  shows "post (perform_call env a c) (\<lambda>c'. Q (c_world c') (c_events c'))"
proof -
  have p: "post (MqttClient_publish env topic qos retain payload n c) (\<lambda>(r, c'). Q (c_world c') (c_events c'))"
    "post (MqttClient_publish_callback env topic qos retain f n c) (\<lambda>(r, c'). Q (c_world c') (c_events c'))"
    for topic qos retain payload f n
    unfolding MqttClient_publish_def MqttClient_publish_callback_def
    by (simp_all only: post_if post_Some prod.case publish_world [OF env c] c simp_thms)
  have s: "post (MqttClient_subscribe env items c) (\<lambda>(r, c'). Q (c_world c') (c_events c'))"
    "post (MqttClient_unsubscribe env topics c) (\<lambda>(r, c'). Q (c_world c') (c_events c'))" for items topics
    unfolding MqttClient_subscribe_def MqttClient_unsubscribe_def
    by (simp_all only: post_if post_Some prod.case subscribe_world [OF c] c simp_thms)
  show ?thesis
    using p s connect_world [OF env c] clearQueue_world [OF c] c by (cases a) (simp_all add: wp)
qed

lemma react_world:
  assumes env: "reacts_by_calls env" and c: "Q (c_world c) (c_events c)"
  shows "post (e_react env e c) (\<lambda>c'. Q (c_world c') (c_events c'))"
proof -
  obtain as where "e_react env e c = run_calls env as c"
    using env by (auto simp: reacts_by_calls_def)
  with run_calls_world [OF perform_call_world [OF env] c] show ?thesis by simp
qed

lemma callback_world:
  assumes env: "reacts_by_calls env" and e: "\<not> isDisconnect e" and c: "Q (c_world c) (c_events c)"
  shows "post (callback env isSet e c) (\<lambda>c'. Q (c_world c') (c_events c'))"
    "post (notify env isSet e c) (\<lambda>c'. Q (c_world c') (c_events c'))"
  using c Q_event [OF e] by (auto simp: callback_def notify_def wp intro!: post_mono [OF react_world [OF env]])

subsection \<open>Sending and receiving\<close>

lemma sendPacket_world:
  "Q (c_world c) (c_events c) \<Longrightarrow> post (MqttClient_sendPacket env c) (\<lambda>(sent, c'). Q (c_world c') (c_events c'))"
  by (auto simp: MqttClient_sendPacket_def ask_eq wp Q_step Let_def post_def bind_eq_Some
      split: option.splits if_splits)

lemma advanceOutbox_world [simp]: "c_world (snd (MqttClient_advanceOutbox c)) = c_world c" "c_events (snd (MqttClient_advanceOutbox c)) = c_events c"
  by (simp_all add: MqttClient_advanceOutbox_def Let_def split: option.split)

lemma checkOutbox_world':
  "MqttClient_checkOutbox e c = Some c' \<Longrightarrow> e = env \<Longrightarrow> Q (c_world c) (c_events c) \<Longrightarrow> Q (c_world c') (c_events c')"
proof (induction rule: MqttClient_checkOutbox.raw_induct [rotated, consumes 1, case_names step])
  case (step f e c c')
  obtain sent c1 where c1: "MqttClient_sendPacket e c = Some (sent, c1)" "Q (c_world c1) (c_events c1)"
    using step.hyps step.prems sendPacket_world by (auto simp: bind_eq_Some post_def)
  obtain any c2 where c2: "MqttClient_advanceOutbox c1 = (any, c2)" by (cases "MqttClient_advanceOutbox c1")
  with c1(2) advanceOutbox_world [of c1] have "Q (c_world c2) (c_events c2)" by simp
  with step c1 c2 show ?case by (auto split: if_splits)
qed

lemma checkOutbox_world:
  "Q (c_world c) (c_events c) \<Longrightarrow> post (MqttClient_checkOutbox env c) (\<lambda>c'. Q (c_world c') (c_events c'))"
  using checkOutbox_world' by (auto simp: post_def)

lemma checkPing_world:
  "Q (c_world c) (c_events c) \<Longrightarrow> post (MqttClient_checkPing env c) (\<lambda>c'. Q (c_world c') (c_events c'))"
  by (auto simp: MqttClient_checkPing_def ask_eq wp Q_step Let_def intro!: post_mono [OF addPacket_world(1)])

lemma checkTimeout_world: "Q (c_world c) (c_events c) \<Longrightarrow> Q (c_world (MqttClient_checkTimeout env c)) (c_events (MqttClient_checkTimeout env c))"
  by (simp add: MqttClient_checkTimeout_def ask_eq Q_step Let_def split: list.split)

lemma removeAt_world [simp]: "c_world (removeAt k c) = c_world c" "c_events (removeAt k c) = c_events c"
  by (simp_all add: removeAt_def)

lemma handlers_world:
  assumes env: "reacts_by_calls env" and c: "Q (c_world c) (c_events c)"
  shows "post (MqttClient_onConnack env c) (\<lambda>c'. Q (c_world c') (c_events c'))"
    "post (MqttClient_onPuback env c) (\<lambda>c'. Q (c_world c') (c_events c'))"
    "post (MqttClient_onPubrec env c) (\<lambda>c'. Q (c_world c') (c_events c'))"
    "post (MqttClient_onPubrel env c) (\<lambda>c'. Q (c_world c') (c_events c'))"
    "post (MqttClient_onPubcomp env c) (\<lambda>c'. Q (c_world c') (c_events c'))"
    "post (MqttClient_onSuback env c) (\<lambda>c'. Q (c_world c') (c_events c'))"
    "post (MqttClient_onUnsuback env c) (\<lambda>c'. Q (c_world c') (c_events c'))"
proof -
  show "post (MqttClient_onConnack env c) (\<lambda>c'. Q (c_world c') (c_events c'))"
    using c unfolding MqttClient_onConnack_def
    by (auto simp: wp Let_def post_def [of "DisconnectReason_cast x" for x] intro!: callback_world [OF env])
  show "post (MqttClient_onSuback env c) (\<lambda>c'. Q (c_world c') (c_events c'))"
    using c unfolding MqttClient_onSuback_def
    by (auto simp: wp Let_def post_def [of "returnCodes x" for x] intro!: callback_world(1) [OF env] split: option.split)
qed (use c in \<open>auto simp: MqttClient_onPuback_def MqttClient_onPubrec_def MqttClient_onPubrel_def
    MqttClient_onPubcomp_def MqttClient_onUnsuback_def wp Let_def split: option.split
    intro!: callback_world(1) [OF env] post_mono [OF addPacket_world(1)]\<close>)

lemma onPublish_world:
  assumes env: "reacts_by_calls env" and c: "Q (c_world c) (c_events c)"
  shows "post (MqttClient_onPublish env c) (\<lambda>c'. Q (c_world c') (c_events c'))"
proof -
  have message: "post (messageEvent d) (\<lambda>e. post (callback env g_onMessageCallback e d) (\<lambda>c'. Q (c_world c') (c_events c')))"
    if d: "Q (c_world d) (c_events d)" for d
    unfolding post_def [of "messageEvent d"]
    by (intro allI impI callback_world(1) [OF env _ d]) (auto simp: messageEvent_def bind_eq_Some Let_def)
  show ?thesis
    unfolding MqttClient_onPublish_def
    by (auto simp: wp Let_def c intro!: message post_mono [OF addPacket_world(1) [OF c]] split: prod.splits)
qed

lemma dispatch_world:
  assumes env: "reacts_by_calls env" and c: "Q (c_world c) (c_events c)"
  shows "post (MqttClient_dispatch env r c) (\<lambda>(continue, c'). Q (c_world c') (c_events c'))"
  by (simp add: MqttClient_dispatch_def wp Let_def handlers_world [OF env c] onPublish_world [OF env c] c)

lemma receive_world':
  "MqttClient_receive e rx remaining index c = Some c' \<Longrightarrow> e = env \<Longrightarrow> reacts_by_calls env \<Longrightarrow>
   Q (c_world c) (c_events c) \<Longrightarrow> Q (c_world c') (c_events c')"
proof (induction rule: MqttClient_receive.raw_induct [rotated, consumes 1, case_names step])
  case (step f e rx remaining index c c')
  show ?case
  proof (cases "0 < sint remaining")
    case False
    with step show ?thesis by simp
  next
    case True
    then obtain result n p continue c1 where
      "Parser_parse (drop (unat index) rx) remaining (c_parser c) = Some (result, n, p)"
      and disp: "MqttClient_dispatch env result (c\<lparr>c_parser := p\<rparr>) = Some (continue, c1)"
      and rest: "(if continue then f e rx (remaining - n) (index + n) c1 else Some c1) = Some c'"
      using step.hyps step.prems(1) by (auto simp: bind_eq_Some)
    moreover have "Q (c_world c1) (c_events c1)"
      using dispatch_world [OF step.prems(2), of "c\<lparr>c_parser := p\<rparr>"] step.prems(3) disp
      by (auto simp: post_def)
    ultimately show ?thesis
      using step.IH step.prems by (cases continue) auto
  qed
qed

lemma checkIncoming_world:
  assumes env: "reacts_by_calls env" and c: "Q (c_world c) (c_events c)"
  shows "post (MqttClient_checkIncoming env c) (\<lambda>c'. Q (c_world c') (c_events c'))"
  using receive_world' [OF _ refl env] c
  by (auto simp: MqttClient_checkIncoming_def ask_eq Let_def wp Q_step post_def split: prod.split)

subsection \<open>The loop\<close>

lemma exchange_world:
  assumes env: "reacts_by_calls env" and c: "Q (c_world c) (c_events c)"
  shows "post (loop_exchange env c) (\<lambda>c'. Q (c_world c') (c_events c'))"
  unfolding loop_exchange_def
  by (auto simp: wp checkTimeout_world intro!: c post_mono [OF checkOutbox_world]
      post_mono [OF checkIncoming_world [OF env]] post_mono [OF checkPing_world])

lemma connecting_world: "Q (c_world c) (c_events c) \<Longrightarrow>
    Q (c_world (loop_connectingTcp2 env c)) (c_events (loop_connectingTcp2 env c))"
  by (simp add: loop_connectingTcp2_def ask_eq Let_def tcpLost_def Q_step)

lemma connected_world:
  assumes env: "reacts_by_calls env" and c: "Q (c_world c) (c_events c)"
  shows "post (loop_connected env c) (\<lambda>c'. Q (c_world c') (c_events c'))"
    "post (loop_connectingMqtt env c) (\<lambda>c'. Q (c_world c') (c_events c'))"
  using c unfolding loop_connectingMqtt_def loop_connected_def
  by (auto simp: ask_eq wp with_semaphore_def tcpLost_def Q_step intro!: post_mono [OF exchange_world [OF env]]
     post_mono [OF checkIncoming_world [OF env]] post_mono [OF checkPing_world] post_mono [OF sendPacket_world])

lemma disconnecting_world:
  assumes env: "reacts_by_calls env" and c: "Q (c_world c) (c_events c)"
  shows "post (loop_disconnectingMqtt1 env c) (\<lambda>c'. Q (c_world c') (c_events c'))"
  using c unfolding loop_disconnectingMqtt1_def
  by (auto simp: wp with_semaphore_def Let_def intro!: post_mono [OF exchange_world [OF env]]
      post_mono [OF addPacket_world(1)] post_mono [OF report_world [OF env]])

text \<open>The end of the connection, with the event that reports it.\<close>

lemma closed_world:
  assumes env: "reacts_by_calls env" and c: "Q (c_world c) (c_events c)"
    and e: "\<And>w. Q w (c_events c) \<Longrightarrow> Q w (c_events c @ [OnDisconnect (c_disconnectReason c)])"
  shows "post (loop_disconnectingTcp2 env c) (\<lambda>c'. Q (c_world c') (c_events c'))"
proof -
  have "c_disconnectReason (MqttClient_setState s (d\<lparr>c_bytesSent := n\<rparr>)) = c_disconnectReason d"
    "c_disconnectReason (MqttClient_clearQueueData k d) = c_disconnectReason d" for s n k and d :: "'w Client"
    by (simp_all add: MqttClient_setState_def MqttClient_clearQueueData_def)
  with c e show ?thesis
    unfolding loop_disconnectingTcp2_def
    by (auto simp: ask_eq wp with_semaphore_def Q_step Let_def notify_def intro!: post_mono [OF react_world [OF env]])
qed

lemma open_world:
  assumes "Q (c_world c) (c_events c)" and "\<not> fst (e_disconnected env (c_world c))"
  shows "post (loop_disconnectingTcp2 env c) (\<lambda>c'. Q (c_world c') (c_events c'))"
  using assms by (simp add: loop_disconnectingTcp2_def ask_eq wp Q_step)

text \<open>So only three states of the client change what \<open>Q\<close> observes.\<close>

lemma loop_world:
  assumes env: "reacts_by_calls env" and c: "Q (c_world c) (c_events c)"
    and s: "c_state c \<notin> {connectingTcp1, disconnectingTcp1, disconnectingTcp2}"
  shows "post (MqttClient_loop env c) (\<lambda>c'. Q (c_world c') (c_events c'))"
  using c s by (cases "c_state c")
    (simp_all add: MqttClient_loop_def wp connecting_world connected_world disconnecting_world env)

lemma loop_connects:
  assumes "c_state c = connectingTcp1" and "Q (snd ((if g_useIp (c_config c)
      then e_connectIp env (g_ip (c_config c)) (g_port (c_config c))
      else e_connectHost env (g_host (c_config c)) (g_port (c_config c))) (c_world c))) (c_events c)"
  shows "post (MqttClient_loop env c) (\<lambda>c'. Q (c_world c') (c_events c'))"
  unfolding MqttClient_loop_def assms(1) State.case post_Some
  using assms(2) by (simp add: loop_connectingTcp1_def ask_eq Let_def tcpLost_def connecting_world)

end

lemma loop_stops:
  assumes "c_state c = disconnectingTcp1"
  shows "post (MqttClient_loop env c) (\<lambda>c'. c_world c' = e_stop env (c_world c) \<and> c_events c' = c_events c \<and> c_state c' = disconnectingTcp2)"
  using assms by (simp add: MqttClient_loop_def wp loop_disconnectingTcp1_def MqttClient_setState_def)

subsection \<open>Relations between worlds\<close>

locale steady =
  fixes env :: "'w Env" and R :: "'w \<Rightarrow> 'w \<Rightarrow> bool"
  assumes R_refl: "R w w"
    and R_trans: "R w1 w2 \<Longrightarrow> R w2 w3 \<Longrightarrow> R w1 w3"
    and R_write: "R w (snd (e_write env bytes w))"
    and R_read: "R w (snd (e_read env n w))"
    and R_connected: "R w (snd (e_connected env w))"
    and R_disconnected: "R w (snd (e_disconnected env w))"
    and R_millis: "R w (snd (e_clock env w))"
    and R_alloc: "R w (snd (e_alloc env w))"

sublocale steady \<subseteq> related: observer env "\<lambda>w es. R w0 w" for w0
  by unfold_locales (blast intro: R_trans R_write R_read R_connected R_disconnected R_millis R_alloc)+

context steady begin

lemma loop_related:
  assumes env: "reacts_by_calls env" and c: "c_state c \<noteq> connectingTcp1" "c_state c \<noteq> disconnectingTcp1"
  shows "post (MqttClient_loop env c) (\<lambda>c'. R (c_world c) (c_world c'))"
proof (cases "c_state c = disconnectingTcp2")
  case True
  with related.closed_world [OF env R_refl] show ?thesis by (simp add: MqttClient_loop_def)
next
  case False
  with related.loop_world [OF env R_refl] c show ?thesis by simp
qed

end

text \<open>
  A transport that is closed when it has been stopped, stays so until the client connects, and then
  says that it is disconnected. In the states in which the client rests it is closed, whatever the
  user and the server do; so a disconnect always ends.
\<close>

definition resting :: "State \<Rightarrow> bool" where
  "resting s \<longleftrightarrow> s \<in> {disconnected, connectingTcp1, disconnectingTcp2}"

definition rests :: "('w \<Rightarrow> bool) \<Rightarrow> 'w Client \<Rightarrow> bool" where
  "rests closed c \<longleftrightarrow> (resting (c_state c) \<longrightarrow> closed (c_world c))"

lemma moves_resting: "moves s s' \<Longrightarrow> resting s' \<Longrightarrow> resting s"
  by (auto simp: resting_def moves_def)

lemma transition_resting:
  "transition s s' \<Longrightarrow> resting s' \<Longrightarrow> s = disconnectingTcp1 \<or> resting s \<and> s \<noteq> connectingTcp1"
  by (erule transition.cases) (simp_all add: resting_def)

lemmas resting_from = transition_resting [OF _ moves_resting]

locale closing = steady env "\<lambda>w w'. closed w \<longrightarrow> closed w'"
  for env :: "'w Env" and closed :: "'w \<Rightarrow> bool" +
  assumes stop_closes: "closed (e_stop env w)"
    and closed_disconnected: "closed w \<Longrightarrow> fst (e_disconnected env w)"
begin

lemma loop_rests:
  assumes env: "transport_ok env" "reacts_by_calls env" and inv: "client_inv c" and rests: "rests closed c"
  shows "ok (MqttClient_loop env c) (\<lambda>c'. client_inv c' \<and> c_config c' = c_config c \<and> rests closed c')"
proof -
  obtain c' s where c': "MqttClient_loop env c = Some c'" "client_inv c'" "c_config c' = c_config c"
    and s: "transition (c_state c) s" "moves s (c_state c')"
    using client_loop_safe [OF env inv] by (auto simp: ok_def loop_result_def)
  have "closed (c_world c')" if r: "resting (c_state c')"
  proof -
    from resting_from [OF s r] show ?thesis
    proof
      assume "c_state c = disconnectingTcp1"
      from loop_stops [OF this, of env] c'(1) have "c_world c' = e_stop env (c_world c)" by (simp add: post_def)
      with stop_closes show ?thesis by metis
    next
      assume st: "resting (c_state c) \<and> c_state c \<noteq> connectingTcp1"
      then have "c_state c \<noteq> disconnectingTcp1" "closed (c_world c)" using rests by (auto simp: resting_def rests_def)
      with loop_related [OF env(2)] st c'(1) show ?thesis by (auto simp: post_def)
    qed
  qed
  with c' show ?thesis by (simp add: ok_def rests_def)
qed

lemma perform_rests:
  assumes env: "transport_ok env" "reacts_by_calls env" and inv: "client_inv c" and rests: "rests closed c"
    and a: "valid_action a"
  shows "ok (perform env a c) (\<lambda>c'. client_inv c' \<and> c_config c' = c_config c \<and> rests closed c')"
proof (cases a)
  case Loop
  then show ?thesis using loop_rests [OF env inv rests] by simp
next
  case (Call b)
  with a have "ok (perform_call env b c) (called c)"
    using perform_called [OF env(2) _ client_inv_ready [OF inv]] by simp
  then obtain c' where c': "perform_call env b c = Some c'" "called c c'" by (auto simp: ok_def)
  have "closed (c_world c')" if "resting (c_state c')"
    using moves_resting [of "c_state c" "c_state c'"] c' that rests
      related.perform_call_world [OF env(2) R_refl [of "c_world c"], of b]
    by (auto simp: called_def rests_def post_def)
  moreover have "client_inv c'" by (rule called_inv [OF c'(2) inv])
  moreover have "c_config c' = c_config c" using c'(2) by (simp add: called_def)
  ultimately show ?thesis using c'(1) Call by (simp add: ok_def rests_def)
qed

lemma run_rests:
  assumes env: "transport_ok env" "reacts_by_calls env"
  shows "client_inv c \<Longrightarrow> rests closed c \<Longrightarrow> \<forall>a \<in> set as. valid_action a \<Longrightarrow>
    ok (run_actions env as c) (\<lambda>c'. client_inv c' \<and> c_config c' = c_config c \<and> rests closed c')"
proof (induction as arbitrary: c)
  case Nil
  then show ?case by (simp add: wp)
next
  case (Cons a as)
  obtain c1 where c1: "perform env a c = Some c1" "client_inv c1" "c_config c1 = c_config c" "rests closed c1"
    using perform_rests [OF env Cons.prems(1,2), of a] Cons.prems(3) by (auto simp: ok_def)
  with Cons.IH [of c1] Cons.prems(3) show ?case by simp
qed

end

end
