(* ===== verification/ClientRead.thy ===== *)
theory ClientRead
  imports ClientWorld
begin

text \<open>
  What the client does depends on the \<open>read\<close> of its transport only where \<open>checkIncoming\<close> calls it. So a
  transport whose \<open>read\<close> is only usable in some worlds can be compared with one whose \<open>read\<close> always is:
  if the worlds of a run are such ones, the client does the same with both. And where \<open>loop\<close>
  reads, it leaves what every \<open>read\<close> leaves.
\<close>

subsection \<open>Operations that do not read\<close>

lemmas body_cong = if_cong option.case_cong list.case_cong prod.case_cong

lemma addPacket_read [simp]:
  "MqttClient_addPacket (env\<lparr>e_read := r\<rparr>) build c = MqttClient_addPacket env build c"
  by (simp add: MqttClient_addPacket_def Let_def cong: body_cong)

lemma notify_read [simp]: "notify (env\<lparr>e_read := r\<rparr>) isSet e c = notify env isSet e c"
  by (simp add: notify_def Let_def cong: body_cong)

lemma callback_read [simp]: "callback (env\<lparr>e_read := r\<rparr>) isSet e c = callback env isSet e c"
  by (simp add: callback_def Let_def cong: body_cong)

lemma millis_read [simp]: "e_millis (env\<lparr>e_read := r\<rparr>) = e_millis env"
  by (simp add: e_millis_def fun_eq_iff)

lemma report_read [simp]: "report (env\<lparr>e_read := r\<rparr>) i c = report env i c"
  by (simp add: report_def MqttClient_onError_def Let_def cong: body_cong)

lemma sendPacket_read [simp]: "MqttClient_sendPacket (env\<lparr>e_read := r\<rparr>) c = MqttClient_sendPacket env c"
  by (simp add: MqttClient_sendPacket_def Let_def cong: body_cong)

lemma checkPing_read [simp]: "MqttClient_checkPing (env\<lparr>e_read := r\<rparr>) = MqttClient_checkPing env"
  by (intro ext) (simp add: MqttClient_checkPing_def Let_def cong: body_cong)

lemma checkTimeout_read [simp]: "MqttClient_checkTimeout (env\<lparr>e_read := r\<rparr>) c = MqttClient_checkTimeout env c"
  by (simp add: MqttClient_checkTimeout_def sinceSent_def Let_def cong: body_cong)

lemma handlers_read [simp]:
  "MqttClient_onConnack (env\<lparr>e_read := r\<rparr>) c = MqttClient_onConnack env c"
  "MqttClient_onPublish (env\<lparr>e_read := r\<rparr>) c = MqttClient_onPublish env c"
  "MqttClient_onPuback (env\<lparr>e_read := r\<rparr>) c = MqttClient_onPuback env c"
  "MqttClient_onPubrec (env\<lparr>e_read := r\<rparr>) c = MqttClient_onPubrec env c"
  "MqttClient_onPubrel (env\<lparr>e_read := r\<rparr>) c = MqttClient_onPubrel env c"
  "MqttClient_onPubcomp (env\<lparr>e_read := r\<rparr>) c = MqttClient_onPubcomp env c"
  "MqttClient_onSuback (env\<lparr>e_read := r\<rparr>) c = MqttClient_onSuback env c"
  "MqttClient_onUnsuback (env\<lparr>e_read := r\<rparr>) c = MqttClient_onUnsuback env c"
  by (simp_all add: MqttClient_onConnack_def MqttClient_onPublish_def MqttClient_onPuback_def MqttClient_onPubrec_def
      MqttClient_onPubrel_def MqttClient_onPubcomp_def MqttClient_onSuback_def MqttClient_onUnsuback_def Let_def cong: body_cong)

lemma dispatch_read [simp]: "MqttClient_dispatch (env\<lparr>e_read := r\<rparr>) result c = MqttClient_dispatch env result c"
  by (simp add: MqttClient_dispatch_def Let_def cong: body_cong)

lemma checkOutbox_read:
  "MqttClient_checkOutbox env c = Some c' \<Longrightarrow> MqttClient_checkOutbox (env\<lparr>e_read := r\<rparr>) c = Some c'"
proof (induction rule: MqttClient_checkOutbox.raw_induct [rotated, consumes 1, case_names step])
  case (step f env c c')
  obtain sent c1 where c1: "MqttClient_sendPacket env c = Some (sent, c1)"
    using step.hyps by (auto simp: bind_eq_Some)
  obtain any c2 where "MqttClient_advanceOutbox c1 = (any, c2)" by (cases "MqttClient_advanceOutbox c1")
  with c1 step show ?case
    by (subst MqttClient_checkOutbox.simps) (auto split: if_splits)
qed

lemma receive_read:
  "MqttClient_receive env rx remaining index c = Some c' \<Longrightarrow>
    MqttClient_receive (env\<lparr>e_read := r\<rparr>) rx remaining index c = Some c'"
proof (induction rule: MqttClient_receive.raw_induct [rotated, consumes 1, case_names step])
  case (step f env rx remaining index c c')
  show ?case
  proof (cases "0 < sint remaining")
    case False
    with step show ?thesis by (subst MqttClient_receive.simps) simp
  next
    case True
    then obtain result n p continue c1 where "Parser_parse (drop (unat index) rx) remaining (c_parser c) = Some (result, n, p)"
      "MqttClient_dispatch env result (c\<lparr>c_parser := p\<rparr>) = Some (continue, c1)"
      "(if continue then f env rx (remaining - n) (index + n) c1 else Some c1) = Some c'"
      using step.hyps by (auto simp: bind_eq_Some)
    with True step.IH show ?thesis
      by (subst MqttClient_receive.simps) (auto split: if_splits)
  qed
qed

lemma perform_call_read [simp]: "perform_call (env\<lparr>e_read := r\<rparr>) a c = perform_call env a c"
  by (rule perform_call_cong) simp_all

lemma run_calls_read [simp]: "run_calls (env\<lparr>e_read := r\<rparr>) as = run_calls env as"
  by (rule run_calls_cong) simp_all

lemma reacts_read [simp]: "reacts_by_calls (env\<lparr>e_read := r\<rparr>) = reacts_by_calls env"
  by (simp add: reacts_by_calls_def)

subsection \<open>The loop with another read\<close>

locale reading = observer env "\<lambda>w es. good w"
  for env :: "'w Env" and good :: "'w \<Rightarrow> bool" +
  fixes r :: "size_t \<Rightarrow> 'w \<Rightarrow> (u32 \<times> u8 list) \<times> 'w"
  assumes same_read: "good w \<Longrightarrow> r n w = e_read env n w"
begin

lemma checkIncoming_same:
  assumes "good (c_world c)" and "MqttClient_checkIncoming env c = Some c'"
  shows "MqttClient_checkIncoming (env\<lparr>e_read := r\<rparr>) c = Some c'"
  using assms by (auto simp: MqttClient_checkIncoming_def ask_eq same_read Let_def receive_read split: if_splits prod.splits)

lemma exchange_same:
  assumes "good (c_world c)" and "loop_exchange env c = Some c'"
  shows "loop_exchange (env\<lparr>e_read := r\<rparr>) c = Some c'"
proof -
  obtain c1 c2 where c1: "MqttClient_checkOutbox env c = Some c1" and c2: "MqttClient_checkIncoming env c1 = Some c2"
    and rest: "(do { c \<leftarrow> MqttClient_checkPing env c2; Some (MqttClient_checkTimeout env c) }) = Some c'"
    using assms(2) by (auto simp: loop_exchange_def bind_eq_Some)
  have "good (c_world c1)" using checkOutbox_world [of c] assms(1) c1 by (simp add: post_def)
  from checkIncoming_same [OF this c2] checkOutbox_read [OF c1] rest show ?thesis
    by (simp add: loop_exchange_def)
qed

lemma with_semaphore_same:
  assumes "with_semaphore f c = Some c'" and "good (c_world c)"
    and "\<And>d d'. good (c_world d) \<Longrightarrow> f d = Some d' \<Longrightarrow> g d = Some d'"
  shows "with_semaphore g c = Some c'"
  using assms(1,2) assms(3) [of "c\<lparr>c_taken := True\<rparr>"]
  by (auto simp: with_semaphore_def bind_eq_Some semaphore_take_def split: if_splits)

lemma connected_same:
  assumes "good (c_world c)" and "loop_connected env c = Some c'"
  shows "loop_connected (env\<lparr>e_read := r\<rparr>) c = Some c'"
  using assms Q_step(3) [of "c_world c"]
  by (auto simp: loop_connected_def ask_eq split: if_splits
      elim!: with_semaphore_same intro: exchange_same)

lemma connectingMqtt_same:
  assumes "good (c_world c)" and "loop_connectingMqtt env c = Some c'"
  shows "loop_connectingMqtt (env\<lparr>e_read := r\<rparr>) c = Some c'"
proof -
  define f where "f = (\<lambda>env (d :: 'w Client). do { (sent, c) \<leftarrow> MqttClient_sendPacket env d;
      c \<leftarrow> MqttClient_checkIncoming env c; MqttClient_checkPing env c })"
  have send: "f (env\<lparr>e_read := r\<rparr>) d = Some d'" if d: "good (c_world d)" and run: "f env d = Some d'" for d d'
  proof -
    obtain n c1 c2 where c1: "MqttClient_sendPacket env d = Some (n, c1)" "MqttClient_checkIncoming env c1 = Some c2"
      "MqttClient_checkPing env c2 = Some d'"
      using run by (auto simp: f_def bind_eq_Some)
    have "good (c_world c1)" using sendPacket_world [of d] d c1(1) by (simp add: post_def)
    from checkIncoming_same [OF this c1(2)] c1 show ?thesis by (simp add: f_def)
  qed
  have eq: "loop_connectingMqtt e c = (if e_waitForConnack e then
      (let (isConnected, c) = ask (e_connected e) c
       in if isConnected then with_semaphore (f e) c else Some (tcpLost c)) else loop_connected e c)" for e c
    unfolding loop_connectingMqtt_def f_def by (rule HOL.refl)
  have w: "good (c_world (snd (ask (e_connected env) c)))"
    using assms(1) Q_step(3) [of "c_world c"] by (simp add: ask_eq)
  show ?thesis
    using assms connected_same [OF assms(1)] with_semaphore_same [of "f env" _ c' "f (env\<lparr>e_read := r\<rparr>)", OF _ _ send] w
    by (auto simp: eq Let_def case_prod_beta split: if_splits)
qed

lemma disconnectingMqtt1_same:
  assumes env: "reacts_by_calls env" and c: "good (c_world c)" and loop: "loop_disconnectingMqtt1 env c = Some c'"
  shows "loop_disconnectingMqtt1 (env\<lparr>e_read := r\<rparr>) c = Some c'"
proof -
  let ?first = "\<lambda>env c. if fst (c_outbox c) = [] then do {
      (added, c) \<leftarrow> MqttClient_addPacket env (\<lambda>mem. Packet_simple mem DISCONNECT) c;
      if \<not> added then report env 0 c else Some (MqttClient_setState disconnectingMqtt2 c) } else Some c"
  have same: "(do { c \<leftarrow> ?first (env\<lparr>e_read := r\<rparr>) d; loop_exchange (env\<lparr>e_read := r\<rparr>) c }) = Some d'"
    if d: "good (c_world d)" and run: "(do { c \<leftarrow> ?first env d; loop_exchange env c }) = Some d'" for d d'
  proof -
    obtain d1 where d1: "?first env d = Some d1" "loop_exchange env d1 = Some d'"
      using run unfolding bind_eq_Some by blast
    have "post (?first env d) (\<lambda>c'. good (c_world c'))"
      by (auto simp: wp d intro!: post_mono [OF addPacket_world(1)] report_world [OF env])
    then have "good (c_world d1)" using d1(1) by (simp add: post_def)
    have first: "?first (env\<lparr>e_read := r\<rparr>) d = ?first env d" by (simp cong: body_cong)
    from exchange_same [OF \<open>good (c_world d1)\<close> d1(2)] d1(1) show ?thesis unfolding first by simp
  qed
  from with_semaphore_same [OF loop [unfolded loop_disconnectingMqtt1_def] c same] show ?thesis
    by (simp only: loop_disconnectingMqtt1_def)
qed

lemma loop_same:
  assumes "reacts_by_calls env" and "good (c_world c)" and "MqttClient_loop env c = Some c'"
  shows "MqttClient_loop (env\<lparr>e_read := r\<rparr>) c = Some c'"
  using assms connected_same [OF assms(2)] connectingMqtt_same [OF assms(2)] disconnectingMqtt1_same [OF assms(1,2)]
  by (cases "c_state c")
    (simp_all add: MqttClient_loop_def loop_connectingTcp1_def loop_connectingTcp2_def loop_disconnectingTcp1_def
      loop_disconnectingTcp2_def Let_def cong: body_cong)

end

subsection \<open>What a read leaves\<close>

text \<open>The states of the client in which \<open>loop\<close> reads from the transport.\<close>

definition loop_receives :: "'w Env \<Rightarrow> 'w Client \<Rightarrow> bool" where
  "loop_receives env c \<longleftrightarrow> c_state c = disconnectingMqtt1 \<or>
     c_state c \<in> {connectingMqtt, connected, disconnectingMqtt2} \<and> fst (e_connected env (c_world c))"

locale draining = observer env "\<lambda>w es. drained w"
  for env :: "'w Env" and drained :: "'w \<Rightarrow> bool" +
  assumes read_drains: "drained (snd (e_read env n w))"
begin

lemma checkIncoming_drains:
  assumes "reacts_by_calls env"
  shows "post (MqttClient_checkIncoming env c) (\<lambda>c'. drained (c_world c'))"
  using receive_world' [OF _ HOL.refl assms] read_drains Q_step(5)
  by (auto simp: MqttClient_checkIncoming_def ask_eq Let_def wp post_def split: prod.split)

lemma exchange_drains:
  assumes "reacts_by_calls env"
  shows "post (loop_exchange env c) (\<lambda>c'. drained (c_world c'))"
proof -
  have "post (MqttClient_checkIncoming env d)
      (\<lambda>c. post (MqttClient_checkPing env c) (\<lambda>c. drained (c_world (MqttClient_checkTimeout env c))))" for d
    by (rule post_mono [OF checkIncoming_drains [OF assms]])
      (auto intro!: post_mono [OF checkPing_world] checkTimeout_world)
  then show ?thesis by (simp add: loop_exchange_def wp post_trivial)
qed

lemma loop_drains:
  assumes env: "reacts_by_calls env" and c: "loop_receives env c"
  shows "post (MqttClient_loop env c) (\<lambda>c'. drained (c_world c'))"
proof -
  have ex: "post (with_semaphore (\<lambda>c. Option.bind (f c) (loop_exchange env)) d) (\<lambda>c'. drained (c_world c'))" for f d
    by (auto simp: with_semaphore_def wp intro!: post_first post_mono [OF exchange_drains [OF env]])
  have ex': "post (with_semaphore (loop_exchange env) d) (\<lambda>c'. drained (c_world c'))" for d
    by (auto simp: with_semaphore_def wp intro!: post_mono [OF exchange_drains [OF env]])
  have send: "post (with_semaphore (\<lambda>c. do { (sent, c) \<leftarrow> MqttClient_sendPacket env c;
      c \<leftarrow> MqttClient_checkIncoming env c; MqttClient_checkPing env c }) d) (\<lambda>c'. drained (c_world c'))" for d
  proof -
    have ping: "post (MqttClient_checkPing env c) (\<lambda>c. post (semaphore_give c) (\<lambda>c. drained (c_world c)))"
      if "drained (c_world c)" for c
      by (rule post_mono [OF checkPing_world]) (use that in \<open>auto simp: wp\<close>)
    have "post (MqttClient_checkIncoming env c) (\<lambda>c. post (MqttClient_checkPing env c)
        (\<lambda>c. post (semaphore_give c) (\<lambda>c. drained (c_world c))))" for c
      by (rule post_mono [OF checkIncoming_drains [OF env]]) (rule ping)
    then show ?thesis
      by (simp only: with_semaphore_def post_bind) (simp add: case_prod_beta post_bind post_trivial)
  qed
  show ?thesis
    using c ex ex' send
    by (auto simp: loop_receives_def MqttClient_loop_def loop_connected_def loop_connectingMqtt_def
        loop_disconnectingMqtt1_def ask_eq wp)
qed

end

end
