(* ===== verification/EspMqttClientAsync.thy ===== *)
theory EspMqttClientAsync
  imports ClientRead ClientProtocol
begin

text \<open>
  \<open>src/src/espMqttClientAsync.cpp\<close> and \<open>src/src/Transport/ClientAsync.cpp\<close>: the client on an
  asynchronous TCP library. The library's \<open>AsyncClient\<close> is a parameter, as are the clock, the
  allocator and the user's callbacks. Its callbacks set the state of the client or hand over received data, and call \<open>loop\<close>;
  that they run one at a time, and not during a call of the library, is assumed.

  The received data is read through the pointer that the callback has stored, so \<open>bufData\<close> is the
  memory it points at, and \<open>None\<close> if it may not be read: at the start, when the pointer is null, and
  after the callback has returned, when the memory is the library's again.
\<close>

record 'a ClientAsync =
  t_client :: 'a
  t_availableData :: size_t
  t_bufData :: "u8 list option"

text \<open>\<open>ac_esp32\<close> says for which of the two platforms the code is built.\<close>

record 'a AsyncClient =
  ac_esp32 :: bool
  ac_connectIp :: "u32 \<Rightarrow> u16 \<Rightarrow> 'a \<Rightarrow> bool \<times> 'a"
  ac_connectHost :: "cstring option \<Rightarrow> u16 \<Rightarrow> 'a \<Rightarrow> bool \<times> 'a"
  ac_write :: "u8 list \<Rightarrow> 'a \<Rightarrow> size_t \<times> 'a"
  ac_close :: "'a \<Rightarrow> 'a"
  ac_connected :: "'a \<Rightarrow> bool \<times> 'a"
  ac_disconnected :: "'a \<Rightarrow> bool \<times> 'a"
  ac_setNoDelay :: "bool \<Rightarrow> 'a \<Rightarrow> 'a"
  ac_millis :: "'a \<Rightarrow> u32 \<times> 'a"
  ac_alloc :: "'a \<Rightarrow> (bool \<times> Memory) \<times> 'a"
  ac_react :: "Event \<Rightarrow> 'a ClientAsync Client \<Rightarrow> 'a ClientAsync Client option"

definition ClientAsync_init :: "'a \<Rightarrow> 'a ClientAsync" where
  "ClientAsync_init client = \<lparr>t_client = client, t_availableData = 0, t_bufData = None\<rparr>"

definition on_client :: "('a \<Rightarrow> 'x \<times> 'a) \<Rightarrow> 'a ClientAsync \<Rightarrow> 'x \<times> 'a ClientAsync" where
  "on_client f t = (case f (t_client t) of (x, client) \<Rightarrow> (x, t\<lparr>t_client := client\<rparr>))"

definition ClientAsync_connectIp :: "'a AsyncClient \<Rightarrow> u32 \<Rightarrow> u16 \<Rightarrow> 'a ClientAsync \<Rightarrow> bool \<times> 'a ClientAsync" where
  "ClientAsync_connectIp lib ip port = on_client (ac_connectIp lib ip port)"

definition ClientAsync_connectHost ::
    "'a AsyncClient \<Rightarrow> cstring option \<Rightarrow> u16 \<Rightarrow> 'a ClientAsync \<Rightarrow> bool \<times> 'a ClientAsync" where
  "ClientAsync_connectHost lib host port = on_client (ac_connectHost lib host port)"

definition ClientAsync_write :: "'a AsyncClient \<Rightarrow> u8 list \<Rightarrow> 'a ClientAsync \<Rightarrow> size_t \<times> 'a ClientAsync" where
  "ClientAsync_write lib buf = on_client (ac_write lib buf)"

text \<open>What does not fit the buffer is dropped: \<open>availableData\<close> is reset all the same. Copying from memory
  that may not be read is a fault.\<close>

definition ClientAsync_read :: "size_t \<Rightarrow> 'a ClientAsync \<Rightarrow> ((u32 \<times> u8 list) \<times> 'a ClientAsync) option" where
  "ClientAsync_read n t = do {
     let willRead = min n (t_availableData t);
     copied \<leftarrow> (if willRead = 0 then Some [] else do { mem \<leftarrow> t_bufData t; region mem 0 (unat willRead) });
     Some ((willRead, copied), t\<lparr>t_availableData := 0\<rparr>)
   }"

definition ClientAsync_stop :: "'a AsyncClient \<Rightarrow> 'a ClientAsync \<Rightarrow> 'a ClientAsync" where
  "ClientAsync_stop lib t = (if ac_esp32 lib then t\<lparr>t_client := ac_close lib (t_client t)\<rparr> else t)"

definition ClientAsync_connected :: "'a AsyncClient \<Rightarrow> 'a ClientAsync \<Rightarrow> bool \<times> 'a ClientAsync" where
  "ClientAsync_connected lib = on_client (ac_connected lib)"

definition ClientAsync_disconnected :: "'a AsyncClient \<Rightarrow> 'a ClientAsync \<Rightarrow> bool \<times> 'a ClientAsync" where
  "ClientAsync_disconnected lib = on_client (ac_disconnected lib)"

text \<open>
  The transport of the client, with the default build flags. A read that faults gives the client its
  count and no bytes, so that it faults when it parses them (\<open>dangling_read_faults\<close>).
\<close>

definition async_read :: "size_t \<Rightarrow> 'a ClientAsync \<Rightarrow> (u32 \<times> u8 list) \<times> 'a ClientAsync" where
  "async_read n t = (case ClientAsync_read n t of Some res \<Rightarrow> res
     | None \<Rightarrow> ((min n (t_availableData t), []), t\<lparr>t_availableData := 0\<rparr>))"

definition async_millis :: "'a AsyncClient \<Rightarrow> 'a \<Rightarrow> int \<times> 'a" where
  "async_millis lib a = (case ac_millis lib a of (now, a) \<Rightarrow> (uint now, a))"

definition async_env :: "'a AsyncClient \<Rightarrow> 'a ClientAsync Env" where
  "async_env lib =
     \<lparr>e_connectIp = ClientAsync_connectIp lib, e_connectHost = ClientAsync_connectHost lib,
      e_write = ClientAsync_write lib, e_read = async_read, e_stop = ClientAsync_stop lib,
      e_connected = ClientAsync_connected lib, e_disconnected = ClientAsync_disconnected lib,
      e_clock = on_client (async_millis lib), e_wideClock = False, e_alloc = on_client (ac_alloc lib), e_react = ac_react lib,
      e_waitForConnack = True, e_allowNotConnectedPublish = True\<rparr>"

subsection \<open>The callbacks\<close>

definition espMqttClientAsync_init :: "cstring \<Rightarrow> 'a \<Rightarrow> 'a ClientAsync Client" where
  "espMqttClientAsync_init generatedClientId client = MqttClient_init generatedClientId (ClientAsync_init client)"

definition espMqttClientAsync_connect ::
    "'a AsyncClient \<Rightarrow> 'a ClientAsync Client \<Rightarrow> (bool \<times> 'a ClientAsync Client) option" where
  "espMqttClientAsync_connect lib c = do {
     (ret, c) \<leftarrow> MqttClient_connect (async_env lib) c;
     c \<leftarrow> MqttClient_loop (async_env lib) c;
     Some (ret, c)
   }"

definition onConnectCb :: "'a AsyncClient \<Rightarrow> 'a ClientAsync Client \<Rightarrow> 'a ClientAsync Client option" where
  "onConnectCb lib c =
     (let t = c_world c;
          c = c\<lparr>c_world := t\<lparr>t_client := ac_setNoDelay lib True (t_client t)\<rparr>\<rparr>
      in MqttClient_loop (async_env lib) (c\<lparr>c_state := connectingTcp2\<rparr>))"

definition onDataCb :: "'a AsyncClient \<Rightarrow> u8 list \<Rightarrow> 'a ClientAsync Client \<Rightarrow> 'a ClientAsync Client option" where
  "onDataCb lib data c =
     MqttClient_loop (async_env lib)
       (c\<lparr>c_world := (c_world c)\<lparr>t_bufData := Some data, t_availableData := of_nat (length data)\<rparr>\<rparr>)"

definition onDisconnectCb :: "'a AsyncClient \<Rightarrow> 'a ClientAsync Client \<Rightarrow> 'a ClientAsync Client option" where
  "onDisconnectCb lib c = MqttClient_loop (async_env lib) (c\<lparr>c_state := disconnectingTcp2\<rparr>)"

definition onPollCb :: "'a AsyncClient \<Rightarrow> 'a ClientAsync Client \<Rightarrow> 'a ClientAsync Client option" where
  "onPollCb lib c = MqttClient_loop (async_env lib) c"

subsection \<open>Runs\<close>

text \<open>The user's calls, and the callbacks. When the data callback has returned, its memory is gone.\<close>

datatype AsyncAction =
    User Action
  | AsyncConnect
  | ConnectCb
  | DataCb "u8 list"
  | DisconnectCb
  | PollCb

fun perform_async :: "'a AsyncClient \<Rightarrow> AsyncAction \<Rightarrow> 'a ClientAsync Client \<Rightarrow> 'a ClientAsync Client option" where
  "perform_async lib (User a) c = perform (async_env lib) a c"
| "perform_async lib AsyncConnect c = map_option snd (espMqttClientAsync_connect lib c)"
| "perform_async lib ConnectCb c = onConnectCb lib c"
| "perform_async lib (DataCb data) c = do {
     c \<leftarrow> onDataCb lib data c;
     Some (c\<lparr>c_world := (c_world c)\<lparr>t_bufData := None\<rparr>\<rparr>)
   }"
| "perform_async lib DisconnectCb c = onDisconnectCb lib c"
| "perform_async lib PollCb c = onPollCb lib c"

fun run_async :: "'a AsyncClient \<Rightarrow> AsyncAction list \<Rightarrow> 'a ClientAsync Client \<Rightarrow> 'a ClientAsync Client option" where
  "run_async lib [] c = Some c"
| "run_async lib (a # as) c = do { c \<leftarrow> perform_async lib a c; run_async lib as c }"

fun valid_async :: "AsyncAction \<Rightarrow> bool" where
  "valid_async (User a) \<longleftrightarrow> valid_action a"
| "valid_async _ \<longleftrightarrow> True"

text \<open>Data arrives only where \<open>loop\<close> reads it: the connection is open, for the library and for the client.\<close>

fun heeded :: "'a AsyncClient \<Rightarrow> AsyncAction \<Rightarrow> 'a ClientAsync Client \<Rightarrow> bool" where
  "heeded lib (DataCb data) c \<longleftrightarrow> c_state c = disconnectingMqtt1 \<or>
     c_state c \<in> {connectingMqtt, connected, disconnectingMqtt2} \<and> fst (ac_connected lib (t_client (c_world c)))"
| "heeded lib _ c \<longleftrightarrow> True"

fun data_heeded :: "'a AsyncClient \<Rightarrow> AsyncAction list \<Rightarrow> 'a ClientAsync Client \<Rightarrow> bool" where
  "data_heeded lib [] c \<longleftrightarrow> True"
| "data_heeded lib (a # as) c \<longleftrightarrow> heeded lib a c \<and>
     (case perform_async lib a c of None \<Rightarrow> True | Some c' \<Rightarrow> data_heeded lib as c')"

text \<open>The library accepts no more than it is given.\<close>

definition library_ok :: "'a AsyncClient \<Rightarrow> bool" where
  "library_ok lib \<longleftrightarrow> (\<forall>buf a. unat (fst (ac_write lib buf a)) \<le> length buf)"

subsection \<open>The received data\<close>

text \<open>The memory can be read if there is anything to read; and a transport that always can, for comparison.\<close>

definition readable :: "'a ClientAsync \<Rightarrow> bool" where
  "readable t \<longleftrightarrow> (t_availableData t = 0 \<or> (\<exists>mem. t_bufData t = Some mem \<and> unat (t_availableData t) \<le> length mem))"

definition drained :: "'a ClientAsync \<Rightarrow> bool" where
  "drained t \<longleftrightarrow> t_availableData t = 0"

definition safe_read :: "size_t \<Rightarrow> 'a ClientAsync \<Rightarrow> (u32 \<times> u8 list) \<times> 'a ClientAsync" where
  "safe_read n t = (case ClientAsync_read n t of Some res \<Rightarrow> res | None \<Rightarrow> ((0, []), t\<lparr>t_availableData := 0\<rparr>))"

definition safe_env :: "'a AsyncClient \<Rightarrow> 'a ClientAsync Env" where
  "safe_env lib = (async_env lib)\<lparr>e_read := safe_read\<rparr>"

lemma async_env_safe: "async_env lib = (safe_env lib)\<lparr>e_read := async_read\<rparr>"
  by (simp add: safe_env_def async_env_def)

lemma safe_reacts [simp]: "reacts_by_calls (safe_env lib) = reacts_by_calls (async_env lib)"
  by (simp add: safe_env_def)

lemma drained_readable: "drained t \<Longrightarrow> readable t"
  by (simp add: drained_def readable_def)

text \<open>A read gives the first bytes of the data, at most what fits, and leaves nothing for the next one.\<close>

lemma async_read_bytes:
  assumes "readable t"
  shows "\<exists>copied. ClientAsync_read n t = Some ((min n (t_availableData t), copied), t\<lparr>t_availableData := 0\<rparr>) \<and>
    length copied = unat (min n (t_availableData t)) \<and>
    (\<forall>mem. t_availableData t \<noteq> 0 \<and> t_bufData t = Some mem \<longrightarrow> copied = take (unat (min n (t_availableData t))) mem)"
proof (cases "min n (t_availableData t) = 0")
  case True
  then show ?thesis by (simp add: ClientAsync_read_def)
next
  case False
  then have "t_availableData t \<noteq> 0" by (auto simp: min_def split: if_splits)
  with assms obtain mem where mem: "t_bufData t = Some mem" "unat (t_availableData t) \<le> length mem"
    by (auto simp: readable_def)
  moreover have "unat (min n (t_availableData t)) \<le> unat (t_availableData t)"
    by (simp add: min_def word_le_nat_alt)
  ultimately show ?thesis using False by (simp add: ClientAsync_read_def min_absorb2 Let_def)
qed

lemma read_drained: "drained (snd (safe_read n t))"
  by (auto simp: safe_read_def drained_def ClientAsync_read_def Let_def bind_eq_Some split: option.split)

lemma safe_transport_ok: "library_ok lib \<Longrightarrow> transport_ok (safe_env lib)"
proof -
  assume lib: "library_ok lib"
  have "unat (fst (fst (safe_read n t))) \<le> length (snd (fst (safe_read n t)))" for n and t :: "'a ClientAsync"
    by (auto simp: safe_read_def ClientAsync_read_def Let_def bind_eq_Some region_def min_def split: option.split if_splits)
  with lib show ?thesis
    by (auto simp: transport_ok_def safe_env_def async_env_def library_ok_def ClientAsync_write_def on_client_def
        split: prod.split) (metis fst_conv)
qed

lemmas async_simps = safe_env_def async_env_def ClientAsync_write_def ClientAsync_connected_def
  ClientAsync_disconnected_def on_client_def ClientAsync_connectIp_def ClientAsync_connectHost_def ClientAsync_stop_def

interpretation drains: draining "safe_env lib" drained for lib
  by unfold_locales (auto simp: async_simps case_prod_unfold drained_def [of "t\<lparr>t_client := a\<rparr>" for t a]
      read_drained simp flip: drained_def)

interpretation reads: reading "safe_env lib" readable async_read for lib
proof unfold_locales
  show "readable w \<Longrightarrow> readable (snd (e_read (safe_env lib) n w))" for w n
    using drained_readable [OF read_drained] by (simp add: safe_env_def)
  show "readable w \<Longrightarrow> async_read n w = e_read (safe_env lib) n w" for n w
    using async_read_bytes [of w n] by (auto simp: async_read_def safe_read_def safe_env_def)
qed (auto simp: async_simps case_prod_unfold readable_def)

subsection \<open>Runs of callbacks\<close>

lemma loop_drained:
  assumes "reacts_by_calls (async_env lib)" and "drained (c_world c)"
  shows "post (MqttClient_loop (safe_env lib) c) (\<lambda>c'. drained (c_world c'))"
proof (cases "c_state c")
  case connectingTcp1
  then show ?thesis
    by (rule drains.loop_connects) (use assms(2) in \<open>auto simp: async_simps case_prod_unfold drained_def\<close>)
next
  case disconnectingTcp1
  from loop_stops [OF this, of "safe_env lib"] show ?thesis
    by (rule post_mono) (use assms(2) in \<open>auto simp: async_simps drained_def\<close>)
next
  case disconnectingTcp2
  then show ?thesis
    using drains.closed_world [of lib c] assms by (simp add: MqttClient_loop_def)
qed (use drains.loop_world [of lib c] assms in simp_all)

text \<open>One call of \<open>loop\<close>, with no data or with data that it reads.\<close>

lemma loop_keeps:
  assumes lib: "library_ok lib" "reacts_by_calls (async_env lib)" and inv: "client_inv c"
    and w: "drained (c_world c) \<or> readable (c_world c) \<and> loop_receives (async_env lib) c"
  shows "ok (MqttClient_loop (async_env lib) c) (\<lambda>c'. keeps c c' \<and> drained (c_world c'))"
proof -
  have react: "reacts_by_calls (safe_env lib)" using lib(2) by simp
  obtain c' where c': "MqttClient_loop (safe_env lib) c = Some c'" "keeps c c'"
    using client_loop_safe [OF safe_transport_ok [OF lib(1)] react inv]
    by (auto simp: ok_def loop_result_def keeps_def)
  have "readable (c_world c)" using w drained_readable by blast
  from reads.loop_same [OF react this c'(1)] have "MqttClient_loop (async_env lib) c = Some c'"
    by (simp only: async_env_safe)
  moreover have "drained (c_world c')"
  proof (cases "drained (c_world c)")
    case True
    from loop_drained [OF lib(2) this] c'(1) show ?thesis by (simp add: post_def)
  next
    case False
    with w have "loop_receives (safe_env lib) c"
      by (simp add: loop_receives_def safe_env_def)
    from drains.loop_drains [OF react this] c'(1) show ?thesis by (simp add: post_def)
  qed
  ultimately show ?thesis using c'(2) by (simp add: ok_def)
qed

lemma client_inv_world [simp]: "client_inv (c\<lparr>c_world := w\<rparr>) = client_inv c"
  by (simp add: client_inv_def)

definition settled :: "'a ClientAsync Client \<Rightarrow> 'a ClientAsync Client \<Rightarrow> bool" where
  "settled c c' \<longleftrightarrow> keeps c c' \<and> drained (c_world c')"

lemma loop_settled:
  assumes "library_ok lib" and "reacts_by_calls (async_env lib)" and "client_inv d" and "c_config d = c_config c"
    and "drained (c_world d) \<or> readable (c_world d) \<and> loop_receives (async_env lib) d"
  shows "ok (MqttClient_loop (async_env lib) d) (settled c)"
  by (rule ok_mono [OF loop_keeps [OF assms(1-3,5)]]) (simp add: settled_def keeps_def assms(4))

lemma perform_async_settled:
  assumes lib: "library_ok lib" "reacts_by_calls (async_env lib)" and inv: "client_inv c" "drained (c_world c)"
    and a: "valid_async a" "heeded lib a c"
  shows "ok (perform_async lib a c) (settled c)"
proof -
  have call: "ok (perform_call (async_env lib) b c) (\<lambda>c'. called c c' \<and> drained (c_world c'))" if v: "valid_call b" for b
  proof -
    obtain c' where c': "perform_call (async_env lib) b c = Some c'" "called c c'"
      using perform_called [OF lib(2) v client_inv_ready [OF inv(1)]] by (auto simp: ok_def)
    moreover have "perform_call (safe_env lib) b c = Some c'" using c'(1) by (simp add: safe_env_def)
    ultimately show ?thesis
      using drains.perform_call_world [of lib c b] lib(2) inv(2) by (simp add: ok_def post_def)
  qed
  show ?thesis
  proof (cases a)
    case (User b)
    show ?thesis
    proof (cases b)
      case Loop
      then show ?thesis using loop_settled [OF lib inv(1) HOL.refl] inv(2) User by simp
    next
      case (Call b')
      then show ?thesis
        using call [of b'] a(1) called_inv inv(1) User
        by (auto simp: ok_def settled_def keeps_def called_def)
    qed
  next
    case AsyncConnect
    obtain c1 where c1: "perform_call (async_env lib) Connect c = Some c1" "called c c1" "drained (c_world c1)"
      using call [of Connect] by (auto simp: ok_def)
    then obtain r where "MqttClient_connect (async_env lib) c = Some (r, c1)" by auto
    moreover have "client_inv c1" "c_config c1 = c_config c"
      using c1(2) called_inv inv(1) by (auto simp: called_def)
    ultimately show ?thesis
      using loop_settled [OF lib, of c1 c] c1(3) AsyncConnect
      by (auto simp: espMqttClientAsync_connect_def ok_def)
  next
    case ConnectCb
    have "client_inv (c\<lparr>c_world := w, c_state := connectingTcp2\<rparr>)" for w
      using inv(1) by (simp add: client_inv_state active_def)
    with loop_settled [OF lib this] ConnectCb inv(2) show ?thesis by (simp add: onConnectCb_def Let_def drained_def)
  next
    case (DataCb data)
    let ?d = "c\<lparr>c_world := (c_world c)\<lparr>t_bufData := Some data, t_availableData := of_nat (length data)\<rparr>\<rparr>"
    have "unat (of_nat (length data) :: u32) \<le> length data" by (simp add: unat_of_nat)
    then have "readable (c_world ?d)" by (simp add: readable_def)
    moreover have "loop_receives (async_env lib) ?d"
      using a(2) DataCb by (simp add: loop_receives_def async_env_def ClientAsync_connected_def on_client_def split_beta)
    ultimately have "ok (onDataCb lib data c) (settled c)"
      unfolding onDataCb_def by (intro loop_settled [OF lib]) (use inv in simp_all)
    then show ?thesis using DataCb by (auto simp: ok_def settled_def keeps_def drained_def)
  next
    case DisconnectCb
    have "client_inv (c\<lparr>c_state := disconnectingTcp2\<rparr>)" using inv(1) by (simp add: client_inv_state active_def)
    with loop_settled [OF lib this] DisconnectCb inv(2) show ?thesis by (simp add: onDisconnectCb_def)
  next
    case PollCb
    then show ?thesis using loop_settled [OF lib inv(1) HOL.refl] inv(2) by (simp add: onPollCb_def)
  qed
qed

lemma run_async_settled:
  assumes lib: "library_ok lib" "reacts_by_calls (async_env lib)"
  shows "client_inv c \<Longrightarrow> drained (c_world c) \<Longrightarrow> \<forall>a \<in> set as. valid_async a \<Longrightarrow> data_heeded lib as c \<Longrightarrow>
    ok (run_async lib as c) (settled c)"
proof (induction as arbitrary: c)
  case Nil
  then show ?case by (simp add: wp settled_def keeps_def)
next
  case (Cons a as)
  obtain c1 where c1: "perform_async lib a c = Some c1" "settled c c1"
    using perform_async_settled [OF lib Cons.prems(1,2), of a] Cons.prems(3,4) by (auto simp: ok_def)
  have "ok (run_async lib as c1) (settled c1)"
    by (rule Cons.IH) (use c1 Cons.prems in \<open>simp_all add: settled_def keeps_def\<close>)
  then show ?case using c1 by (auto simp: ok_def settled_def keeps_def)
qed

subsection \<open>Data that is not read\<close>

text \<open>
  In the states in which \<open>loop\<close> does not read, the pointer to the data outlives the callback, and the
  next read after it copies from it.
\<close>

lemma async_data_kept:
  assumes "c_state c \<in> {disconnected, disconnectingTcp1}"
  shows "\<exists>c'. perform_async lib (DataCb data) c = Some c' \<and> t_availableData (c_world c') = of_nat (length data) \<and>
    t_bufData (c_world c') = None"
  using assms
  by (auto simp: onDataCb_def MqttClient_loop_def loop_disconnectingTcp1_def async_env_def ClientAsync_stop_def
      MqttClient_setState_def)

lemma parse_nothing: "r_parse p = fixedHeader \<Longrightarrow> 0 < n \<Longrightarrow> Parser_parse [] n p = None"
  unfolding Parser_parse_def
  by (subst Parser_loop.simps) (simp add: Parser_fixedHeader_def Parser_byte_def peek_def)

lemma dangling_read_faults:
  assumes "t_bufData (c_world c) = None" and "0 < sint (t_availableData (c_world c))"
    and "r_parse (c_parser c) = fixedHeader"
  shows "MqttClient_checkIncoming (async_env lib) c = None"
proof -
  define n where "n = min EMC_RX_BUFFER_SIZE (t_availableData (c_world c))"
  have "n = EMC_RX_BUFFER_SIZE \<or> n = t_availableData (c_world c)"
    by (simp only: n_def min_def) meson
  moreover have "0 < sint (EMC_RX_BUFFER_SIZE :: u32)" by simp
  ultimately have pos: "0 < sint n" using assms(2) by metis
  then have "n \<noteq> 0" by (metis less_irrefl sint_0)
  with pos have n: "0 < sint n" "0 < n" by (simp_all add: word_gt_0)
  have "async_read EMC_RX_BUFFER_SIZE (c_world c) = ((n, []), (c_world c)\<lparr>t_availableData := 0\<rparr>)"
  proof -
    have "n \<noteq> 0" using n(2) by auto
    have "ClientAsync_read EMC_RX_BUFFER_SIZE (c_world c) = None"
      unfolding ClientAsync_read_def Let_def n_def [symmetric] assms(1) if_not_P [OF \<open>n \<noteq> 0\<close>]
      by (simp only: bind.bind_lzero)
    then show ?thesis
      unfolding async_read_def n_def [symmetric] by (simp only: option.case)
  qed
  moreover have "MqttClient_receive (async_env lib) [] n 0 d = None" if "c_parser d = c_parser c" for d
    by (subst MqttClient_receive.simps) (simp add: n parse_nothing assms(3) that)
  ultimately show ?thesis
    using n by (simp add: MqttClient_checkIncoming_def ask_eq async_env_def Let_def)
qed

lemma sendPacket_other:
  assumes "MqttClient_sendPacket (async_env lib) c = Some (n, c')"
  shows "t_bufData (c_world c') = t_bufData (c_world c) \<and> t_availableData (c_world c') = t_availableData (c_world c) \<and>
    c_parser c' = c_parser c"
  using assms
  by (auto simp: MqttClient_sendPacket_def bind_eq_Some ask_eq Let_def async_env_def ClientAsync_write_def on_client_def
      e_millis_def case_prod_unfold writeCurrent_def split: option.splits if_splits)

lemma dangling_poll_faults:
  assumes "t_bufData (c_world c) = None" and "0 < sint (t_availableData (c_world c))"
    and "r_parse (c_parser c) = fixedHeader" and "c_state c = connectingMqtt"
    and "fst (ac_connected lib (t_client (c_world c)))"
  shows "perform_async lib PollCb c = None"
proof -
  define f where "f = (\<lambda>c. do { (sent, c) \<leftarrow> MqttClient_sendPacket (async_env lib) c;
      c \<leftarrow> MqttClient_checkIncoming (async_env lib) c; MqttClient_checkPing (async_env lib) c })"
  have fault: "f d = None"
    if d: "t_bufData (c_world d) = None" "0 < sint (t_availableData (c_world d))" "r_parse (c_parser d) = fixedHeader" for d
  proof (cases "MqttClient_sendPacket (async_env lib) d")
    case (Some r)
    obtain sent c1 where r: "r = (sent, c1)" by (cases r)
    have "MqttClient_checkIncoming (async_env lib) c1 = None"
      using sendPacket_other [OF Some [unfolded r]] d by (intro dangling_read_faults) simp_all
    then show ?thesis by (simp add: f_def Some r)
  qed (simp add: f_def)
  have "loop_connectingMqtt (async_env lib) c = with_semaphore f
      (c\<lparr>c_world := (c_world c)\<lparr>t_client := snd (ac_connected lib (t_client (c_world c)))\<rparr>\<rparr>)"
    unfolding loop_connectingMqtt_def f_def
    using assms(5) by (simp add: ask_eq async_env_def ClientAsync_connected_def on_client_def split_beta)
  then have "perform_async lib PollCb c = with_semaphore f
      (c\<lparr>c_world := (c_world c)\<lparr>t_client := snd (ac_connected lib (t_client (c_world c)))\<rparr>\<rparr>)"
    using assms(4) by (simp add: onPollCb_def MqttClient_loop_def)
  also have "\<dots> = None"
    using assms(1-3) by (simp add: with_semaphore_def semaphore_take_def fault)
  finally show ?thesis .
qed

subsection \<open>Properties\<close>

text \<open>C34: On the asynchronous transport, whose callbacks set the state of the client from outside, no
  sequence of calls of the user and of callbacks makes the client fault or hang, provided that data
  arrives only while the connection is open and the client is beyond connecting and not about to stop the
  transport, where \<open>loop\<close> reads it; calls of the user are restricted as in \<open>valid_call\<close>. And a call of
  \<open>onDisconnectCb\<close> always ends the connection: if the library says that it is disconnected, so is the client,
  and it reports that. The condition on the data is needed: when it arrives after a forced disconnect, or
  while the client is disconnected, the pointer to it is kept beyond the callback, and the first call of \<open>loop\<close>
  of the next connection copies from memory that is the library's again.\<close>

theorem async_never_faults:
  assumes "library_ok lib" and "reacts_by_calls (async_env lib)" and "config_ok g" and "\<forall>a \<in> set as. valid_async a"
    and "data_heeded lib as ((espMqttClientAsync_init clientId client)\<lparr>c_config := g\<rparr>)"
  shows "(\<exists>c c' d. run_async lib as ((espMqttClientAsync_init clientId client)\<lparr>c_config := g\<rparr>) = Some c \<and>
      client_inv c \<and> c_config c = g \<and> onDisconnectCb lib c = Some c' \<and>
      (fst (ac_disconnected lib (t_client (c_world c))) \<longrightarrow> MqttClient_disconnected d \<and>
        notify (async_env lib) g_onDisconnectCallback (OnDisconnect (c_disconnectReason c)) d = Some c')) \<and>
    (\<forall>c data. c_state c \<in> {disconnected, disconnectingTcp1} \<longrightarrow>
      (\<exists>c'. perform_async lib (DataCb data) c = Some c' \<and> t_availableData (c_world c') = of_nat (length data) \<and>
         t_bufData (c_world c') = None)) \<and>
    (\<forall>c. t_bufData (c_world c) = None \<and> 0 < sint (t_availableData (c_world c)) \<and> c_state c = connectingMqtt \<and>
       r_parse (c_parser c) = fixedHeader \<and> fst (ac_connected lib (t_client (c_world c))) \<longrightarrow>
       perform_async lib PollCb c = None)"
proof (intro conjI)
  have inv: "client_inv ((espMqttClientAsync_init clientId client)\<lparr>c_config := g\<rparr>)"
    unfolding espMqttClientAsync_init_def by (rule init_inv [OF assms(3)])
  have "drained (c_world ((espMqttClientAsync_init clientId client)\<lparr>c_config := g\<rparr>))"
    by (simp add: espMqttClientAsync_init_def MqttClient_init_def ClientAsync_init_def drained_def)
  from run_async_settled [OF assms(1,2) inv this assms(4,5)] obtain c where
    c: "run_async lib as ((espMqttClientAsync_init clientId client)\<lparr>c_config := g\<rparr>) = Some c"
      "client_inv c" "c_config c = g" "drained (c_world c)"
    by (auto simp: ok_def settled_def keeps_def)
  obtain c' where c': "onDisconnectCb lib c = Some c'"
    using perform_async_settled [OF assms(1,2) c(2,4), of DisconnectCb] by (auto simp: ok_def)
  have eq: "onDisconnectCb lib c = loop_disconnectingTcp2 (async_env lib) (c\<lparr>c_state := disconnectingTcp2\<rparr>)"
    by (simp add: onDisconnectCb_def MqttClient_loop_def)
  have "\<exists>d. MqttClient_disconnected d \<and>
      notify (async_env lib) g_onDisconnectCallback (OnDisconnect (c_disconnectReason c)) d = Some c'"
    if "fst (ac_disconnected lib (t_client (c_world c)))"
    using that c' client_inv_ready [OF c(2)] unfolding eq
    by (intro exI conjI) (auto simp: loop_disconnectingTcp2_def ask_eq async_env_def ClientAsync_disconnected_def on_client_def
        split_beta MqttClient_setState_def Let_def MqttClient_disconnected_def with_semaphore_def semaphore_take_def
        semaphore_give_def MqttClient_clearQueueData_def)
  with c c' show "\<exists>c c' d. run_async lib as ((espMqttClientAsync_init clientId client)\<lparr>c_config := g\<rparr>) = Some c \<and>
      client_inv c \<and> c_config c = g \<and> onDisconnectCb lib c = Some c' \<and>
      (fst (ac_disconnected lib (t_client (c_world c))) \<longrightarrow> MqttClient_disconnected d \<and>
        notify (async_env lib) g_onDisconnectCallback (OnDisconnect (c_disconnectReason c)) d = Some c')"
    by blast
qed (use async_data_kept dangling_poll_faults in blast)+

text \<open>A library for the witness: it accepts everything, and its state is the number of its bytes.\<close>

definition loopback :: "nat AsyncClient" where
  "loopback = \<lparr>ac_esp32 = True, ac_connectIp = \<lambda>ip port n. (True, n), ac_connectHost = \<lambda>host port n. (True, n),
     ac_write = \<lambda>buf n. (of_nat (length buf), n + length buf), ac_close = \<lambda>n. 0, ac_connected = \<lambda>n. (True, n),
     ac_disconnected = \<lambda>n. (True, n), ac_setNoDelay = \<lambda>b n. n, ac_millis = \<lambda>n. (0, n),
     ac_alloc = \<lambda>n. ((True, ample), n), ac_react = \<lambda>e c. Some c\<rparr>"

theorem async_never_faults_witness:
  "(\<exists>c. run_async loopback [AsyncConnect, DataCb [0x20, 2, 0, 0], User (Call (Publish [116] 1 False [1])), PollCb]
      ((espMqttClientAsync_init [97] 0)\<lparr>c_config := Config_init [97]\<rparr>) = Some c \<and> client_inv c) \<and>
   perform_async loopback PollCb ((espMqttClientAsync_init [97] 0)
      \<lparr>c_state := connectingMqtt, c_world := \<lparr>t_client = 0, t_availableData = 4, t_bufData = None\<rparr>\<rparr>) = None"
proof -
  let ?c = "(espMqttClientAsync_init [97] (0 :: nat))\<lparr>c_config := Config_init [97]\<rparr>"
  let ?as = "[AsyncConnect, DataCb [0x20, 2, 0, 0], User (Call (Publish [116] 1 False [1])), PollCb]"
  have lib: "library_ok loopback" "reacts_by_calls (async_env loopback)"
    by (simp_all add: library_ok_def loopback_def unat_of_nat async_env_def)
  have valid: "\<forall>a \<in> set ?as. valid_async a"
    by (simp add: fits_def length_publish_body)
  have inv: "client_inv ?c"
    unfolding espMqttClientAsync_init_def by (rule init_inv [OF config_ok_init])
  have start: "c_state ?c = disconnected" "g_clientId (c_config ?c) = Some [97]" "g_willTopic (c_config ?c) = None"
    "g_willQos (c_config ?c) = 0"
    by (simp_all add: espMqttClientAsync_init_def MqttClient_init_def Config_init_def)
  have "granted (async_env loopback) ?c (\<lambda>mem. accepts mem False n)" for n
    by (simp add: granted_def async_env_def loopback_def on_client_def)
  with connect_starts [OF inv lib(2) start(2) _ _ _ HOL.refl] start obtain r c1 where
    c1: "MqttClient_connect (async_env loopback) ?c = Some (r, c1)" "c_state c1 = connectingTcp1"
    by auto
  obtain c2 where c2: "perform_async loopback AsyncConnect ?c = Some c2" "c_state c2 = connectingMqtt"
    using c1 by (auto simp: espMqttClientAsync_connect_def MqttClient_loop_def loop_connectingTcp1_def
        loop_connectingTcp2_def ask_eq async_env_def ClientAsync_connectIp_def ClientAsync_connectHost_def
        ClientAsync_connected_def on_client_def loopback_def MqttClient_setState_def Let_def)
  have "heeded loopback (DataCb data) c2" for data
    using c2(2) by (simp add: loopback_def)
  then have "data_heeded loopback ?as ?c"
    using c2(1) by (simp del: perform_async.simps heeded.simps(1) split: option.split)
  from async_never_faults [OF lib config_ok_init valid this]
  show ?thesis
    by (auto simp: espMqttClientAsync_init_def MqttClient_init_def Parser_init_def loopback_def
        simp del: perform_async.simps run_async.simps)
qed

end
