(* ===== verification/ClientDelivery.thy ===== *)
theory ClientDelivery
  imports ClientProtocol ParserCorrect
begin

text \<open>
  A message of QoS 2 is delivered once. From its first delivery on the outbox holds a PUBREC with its
  id, through everything the client, its callbacks and the connection do, until the packets that may
  take it out: its PUBREL, and those that end the session. As long as it is there no message with this id
  is delivered.
\<close>

subsection \<open>The debt of a PUBREL\<close>

definition pubrec_of :: "u16 \<Rightarrow> OutgoingPacket \<Rightarrow> bool" where
  "pubrec_of n x \<longleftrightarrow> op_packetType x = PUBREC \<and> op_packetId x = n"

definition owes :: "u16 \<Rightarrow> 'w Client \<Rightarrow> bool" where
  "owes n c \<longleftrightarrow> (\<exists>x \<in> set (fst (c_outbox c)). pubrec_of n x)"

fun delivers :: "u16 \<Rightarrow> Event \<Rightarrow> bool" where
  "delivers n (OnMessage properties topic payload len index full) \<longleftrightarrow>
     mp_qos properties = 2 \<and> mp_packetId properties = n"
| "delivers n e \<longleftrightarrow> False"

text \<open>Nothing was delivered under the id since \<open>c0\<close>, and the debt stands.\<close>

definition due :: "u16 \<Rightarrow> 'w Client \<Rightarrow> 'w Client \<Rightarrow> bool" where
  "due n c0 c \<longleftrightarrow> outbox_ok (c_outbox c) \<and> config_ok (c_config c) \<and> owes n c \<and>
     (\<exists>es. c_events c = c_events c0 @ es \<and> (\<forall>e \<in> set es. \<not> delivers n e))"

lemma due_frame [simp]:
  "due n c0 (c\<lparr>c_world := w\<rparr>) = due n c0 c" "due n c0 (c\<lparr>c_state := s\<rparr>) = due n c0 c"
  "due n c0 (c\<lparr>c_taken := b\<rparr>) = due n c0 c" "due n c0 (c\<lparr>c_packetId := i\<rparr>) = due n c0 c"
  "due n c0 (c\<lparr>c_bytesSent := k\<rparr>) = due n c0 c" "due n c0 (c\<lparr>c_parser := p\<rparr>) = due n c0 c"
  "due n c0 (c\<lparr>c_lastClientActivity := t\<rparr>) = due n c0 c" "due n c0 (c\<lparr>c_lastServerActivity := t\<rparr>) = due n c0 c"
  "due n c0 (c\<lparr>c_pingSent := b\<rparr>) = due n c0 c" "due n c0 (c\<lparr>c_disconnectReason := r\<rparr>) = due n c0 c"
  "due n c0 (MqttClient_setState s c) = due n c0 c"
  by (simp_all add: due_def owes_def MqttClient_setState_def)

lemma due_event: "due n c0 c \<Longrightarrow> \<not> delivers n e \<Longrightarrow> due n c0 (c\<lparr>c_events := c_events c @ [e]\<rparr>)"
  by (auto simp: due_def owes_def)

lemma due_outbox:
  "due n c0 c \<Longrightarrow> outbox_ok q \<Longrightarrow> (\<And>x. x \<in> set (fst (c_outbox c)) \<Longrightarrow> pubrec_of n x \<Longrightarrow> \<exists>y \<in> set (fst q). pubrec_of n y) \<Longrightarrow>
    due n c0 (c\<lparr>c_outbox := q\<rparr>)"
  by (auto simp: due_def owes_def)

lemma insert_del: "k < length xs \<Longrightarrow> set xs = insert (xs ! k) (set (del k xs))"
  by (subst (1) id_take_nth_drop [of k xs]) (auto simp: del_def)

lemma due_remove:
  assumes "due n c0 c" and "k < length (fst (c_outbox c))" and "\<not> pubrec_of n (fst (c_outbox c) ! k)"
  shows "due n c0 (c\<lparr>c_outbox := q_remove k (c_outbox c)\<rparr>)"
proof (rule due_outbox [OF assms(1)])
  show "outbox_ok (q_remove k (c_outbox c))" using assms(1) by (simp add: due_def)
  fix x assume "x \<in> set (fst (c_outbox c))" "pubrec_of n x"
  moreover have "fst (q_remove k (c_outbox c)) = del k (fst (c_outbox c))"
    using assms(2) by (cases "c_outbox c") (simp add: q_remove_def)
  ultimately show "\<exists>y \<in> set (fst (q_remove k (c_outbox c))). pubrec_of n y"
    using insert_del [OF assms(2)] assms(3) by auto
qed

lemma due_addPacket:
  assumes "builds build" and "due n c0 c"
  shows "post (MqttClient_addPacket env build c) (\<lambda>(added, c'). due n c0 c')"
    "post (MqttClient_addPacketFront env build c) (\<lambda>(added, c'). due n c0 c')"
proof -
  have ob: "outbox_ok (c_outbox c)" using assms(2) by (simp add: due_def)
  have b: "build mem = Some (SUCCESS, p) \<Longrightarrow> sendable p" for mem p
    using assms(1) [unfolded builds_def, rule_format, of mem] by (simp add: ok_def)
  have sets: "set (fst (q_emplace x (c_outbox c))) = insert x (set (fst (c_outbox c)))"
    "set (fst (q_emplaceFront x (c_outbox c))) = insert x (set (fst (c_outbox c)))"
    "fst (q_remove (length (fst (c_outbox c))) (q_emplace x (c_outbox c))) = fst (c_outbox c)"
    "fst (q_remove 0 (q_emplaceFront x (c_outbox c))) = fst (c_outbox c)"
    "outbox_ok (q_remove (length (fst (c_outbox c))) (q_emplace x (c_outbox c)))"
    "outbox_ok (q_remove 0 (q_emplaceFront x (c_outbox c)))" for x
    using ob by (cases "c_outbox c"; auto simp: q_emplace_def q_emplaceFront_def q_remove_def del_def outbox_ok_def)+
  have keep: "due n c0 (c\<lparr>c_world := w, c_outbox := q\<rparr>)"
    if "outbox_ok q" "set (fst (c_outbox c)) \<subseteq> set (fst q)" for w q
    by (rule due_outbox) (use assms(2) that in auto)
  have new: "due n c0 (c\<lparr>c_world := w, c_outbox := q_emplace x (c_outbox c)\<rparr>)"
    "due n c0 (c\<lparr>c_world := w, c_outbox := q_emplaceFront x (c_outbox c)\<rparr>)" if "sendable (op_packet x)" for w x
    using that ob by (auto intro!: keep outbox_ok_emplace outbox_ok_emplaceFront simp: sets)
  have undo: "due n c0 (c\<lparr>c_world := w, c_outbox := q_remove (length (fst (c_outbox c))) (q_emplace x (c_outbox c))\<rparr>)"
    "due n c0 (c\<lparr>c_world := w, c_outbox := q_remove 0 (q_emplaceFront x (c_outbox c))\<rparr>)" for w x
    by (auto intro!: keep simp: sets)
  show "post (MqttClient_addPacket env build c) (\<lambda>(added, c'). due n c0 c')"
    "post (MqttClient_addPacketFront env build c) (\<lambda>(added, c'). due n c0 c')"
    using b assms(2) undo new
    by (auto simp: MqttClient_addPacket_def MqttClient_addPacketFront_def ask_eq wp Let_def post_def
        bind_eq_Some split: prod.splits if_splits)
qed

text \<open>The calls of the user that do not delete the session keep the debt.\<close>

definition careful :: "'w Env \<Rightarrow> bool" where
  "careful env \<longleftrightarrow>
     (\<forall>e c. \<exists>as. reaction e as \<and> ClearQueue True \<notin> set as \<and> e_react env e c = run_calls env as c)"

lemma due_clear:
  assumes "due n c0 c"
  shows "due n c0 (MqttClient_clearQueueData 0 c)"
  unfolding MqttClient_clearQueueData_def
proof (rule due_outbox [OF assms])
  have ob: "outbox_ok (c_outbox c)" using assms by (simp add: due_def)
  then show "outbox_ok (clear_from (kept 0) 0 (c_outbox c))" by simp
  fix x assume "x \<in> set (fst (c_outbox c))" "pubrec_of n x"
  then show "\<exists>y \<in> set (fst (clear_from (kept 0) 0 (c_outbox c))). pubrec_of n y"
    unfolding clear_session [OF ob] by (auto simp: session_only_def kept_def pubrec_of_def)
qed

lemma due_disconnect: "due n c0 c \<Longrightarrow> due n c0 (snd (MqttClient_disconnect force c))"
  by (simp add: MqttClient_disconnect_def)

lemma due_clearQueue: "due n c0 c \<Longrightarrow> post (MqttClient_clearQueue False c) (due n c0)"
  by (simp add: MqttClient_clearQueue_def with_semaphore_def wp due_clear)

lemma due_run_calls:
  assumes "\<And>a c. a \<in> set as \<Longrightarrow> due n c0 c \<Longrightarrow> post (perform_call env a c) (due n c0)"
  shows "due n c0 c \<Longrightarrow> post (run_calls env as c) (due n c0)"
  using assms
proof (induction as arbitrary: c)
  case Nil
  then show ?case by (simp add: wp)
next
  case (Cons a as)
  show ?case
    unfolding run_calls.simps post_bind
    by (rule post_mono [OF Cons.prems(2) Cons.IH]) (use Cons.prems in simp_all)
qed

lemma due_error:
  assumes env: "careful env" and e: "isError e" and c: "due n c0 c"
  shows "post (e_react env e c) (due n c0)"
proof -
  obtain as where as: "reaction e as" "ClearQueue True \<notin> set as" "e_react env e c = run_calls env as c"
    using env by (auto simp: careful_def)
  have "post (perform_call env a d) (due n c0)" if "a \<in> set as" "due n c0 d" for a d
  proof (cases a)
    case (ClearQueue b)
    with as(2) that(1) have "\<not> b" by auto
    with ClearQueue due_clearQueue [OF that(2)] show ?thesis by simp
  qed (use as(1) e that due_disconnect in \<open>auto simp: reaction_def wp\<close>)
  from due_run_calls [OF this c] as(3) show ?thesis by simp
qed

lemma due_report:
  assumes "careful env" and "due n c0 c"
  shows "post (report env i c) (due n c0)"
  using assms by (auto simp: report_def MqttClient_onError_def notify_def wp due_event
      intro!: post_mono [OF due_error] due_event [of n c0 "c\<lparr>c_taken := False\<rparr>", simplified])

lemma due_publish:
  assumes env: "careful env" and build: "\<And>i. builds (mk i)" and c: "due n c0 c"
  shows "post (do {
      c \<leftarrow> semaphore_take c;
      let (packetId, c) = (if qos > 0 then MqttClient_getNextPacketId c else (1, c));
      (added, c) \<leftarrow> MqttClient_addPacket env (mk packetId) c;
      c \<leftarrow> (if added then Some c else report env packetId c);
      c \<leftarrow> semaphore_give c;
      Some (if added then packetId else 0, c) }) (\<lambda>(r, c'). due n c0 c')"
  using c by (auto simp: wp Let_def MqttClient_getNextPacketId_def split: prod.splits if_splits
      intro!: post_mono [OF due_addPacket(1) [OF build]] post_mono [OF due_report [OF env]])

lemma due_subscribe:
  assumes build: "\<And>i. builds (mk i)" and c: "due n c0 c"
  shows "post (do {
      c \<leftarrow> semaphore_take c;
      let (packetId, c) = MqttClient_getNextPacketId c;
      (added, c) \<leftarrow> MqttClient_addPacket env (mk packetId) c;
      c \<leftarrow> semaphore_give c;
      Some (if added then packetId else 0, c) }) (\<lambda>(r, c'). due n c0 c')"
  using c by (auto simp: wp Let_def MqttClient_getNextPacketId_def split: prod.splits
      intro!: post_mono [OF due_addPacket(1) [OF build]])

lemma due_perform:
  assumes env: "careful env" and a: "valid_call a" "a \<noteq> ClearQueue True" and c: "due n c0 c"
  shows "post (perform_call env a c) (due n c0)"
proof (cases a)
  case Connect
  have b: "builds (\<lambda>mem. Packet_connect mem (g_cleanSession (c_config c)) (g_username (c_config c))
      (g_password (c_config c)) (g_willTopic (c_config c)) (g_willRetain (c_config c)) (g_willQos (c_config c))
      (g_willPayload (c_config c)) (g_willPayloadLength (c_config c))
      (ucast (g_keepAlive (c_config c) div 1000)) (g_clientId (c_config c)))"
    by (rule config_builds) (use c in \<open>simp add: due_def\<close>)
  show ?thesis
    unfolding Connect perform_call.simps post_snd MqttClient_connect_def Let_def
    using c by (auto simp: wp intro!: post_mono [OF due_addPacket(2) [OF b]] post_mono [OF due_report [OF env]])
next
  case (Disconnect force)
  with c show ?thesis by (simp add: wp due_disconnect)
next
  case (Publish topic qos retain payload)
  note st = due_publish [where mk = "\<lambda>i mem. Packet_publish mem i topic payload (of_nat (length payload)) qos retain"
      and qos = qos, OF env call_builds(1) [OF a(1) [unfolded Publish]] c]
  show ?thesis
    unfolding Publish perform_call.simps MqttClient_publish_def post_snd post_if post_Some prod.case
    using st c by simp
next
  case (PublishCallback topic qos retain f k)
  note st = due_publish [where mk = "\<lambda>i mem. Packet_publish_callback mem i topic f (of_nat k) qos retain"
      and qos = qos, OF env call_builds(2) [OF a(1) [unfolded PublishCallback]] c]
  show ?thesis
    unfolding PublishCallback perform_call.simps MqttClient_publish_callback_def post_snd post_if post_Some prod.case
    using st c by simp
next
  case (Subscribe items)
  note st = due_subscribe [where mk = "\<lambda>i mem. Packet_subscribe mem i items",
      OF call_builds(3) [OF a(1) [unfolded Subscribe]] c]
  show ?thesis
    unfolding Subscribe perform_call.simps MqttClient_subscribe_def post_snd post_if post_Some prod.case
    using st c by simp
next
  case (Unsubscribe topics)
  note st = due_subscribe [where mk = "\<lambda>i mem. Packet_unsubscribe mem i topics",
      OF call_builds(4) [OF a(1) [unfolded Unsubscribe]] c]
  show ?thesis
    unfolding Unsubscribe perform_call.simps MqttClient_unsubscribe_def post_snd post_if post_Some prod.case
    using st c by simp
next
  case (ClearQueue b)
  with a(2) c show ?thesis by (cases b) (simp_all add: due_clearQueue)
qed

lemma due_react:
  assumes env: "careful env" and c: "due n c0 c"
  shows "post (e_react env e c) (due n c0)"
proof -
  obtain as where as: "reaction e as" "ClearQueue True \<notin> set as" "e_react env e c = run_calls env as c"
    using env by (auto simp: careful_def)
  have "post (perform_call env a d) (due n c0)" if "a \<in> set as" "due n c0 d" for a d
    by (rule due_perform [OF env _ _ that(2)]) (use that(1) as in \<open>auto simp: reaction_def\<close>)
  from due_run_calls [OF this c] as(3) show ?thesis by simp
qed

lemma due_callback:
  assumes "careful env" and "\<not> delivers n e" and "due n c0 c"
  shows "post (callback env isSet e c) (due n c0)" "post (notify env isSet e c) (due n c0)"
  using assms due_event [of n c0 "c\<lparr>c_taken := False\<rparr>" e]
  by (auto simp: callback_def notify_def wp due_event intro!: post_mono [OF due_react])

subsection \<open>Sending\<close>

lemma due_writeCurrent:
  assumes c: "due n c0 c" and x: "q_current (c_outbox c) = Some x"
    and f: "sendable (op_packet (f x))" "op_packetType (f x) = op_packetType x" "op_packetId (f x) = op_packetId x"
  shows "due n c0 (writeCurrent f c)"
proof -
  obtain xs i where q: "c_outbox c = (xs, i)" by (cases "c_outbox c")
  with current_in [OF x] have i: "i < length xs" "xs ! i = x" by auto
  have "writeCurrent f c = c\<lparr>c_outbox := q_write i f (xs, i)\<rparr>" by (simp add: writeCurrent_def q)
  moreover have "outbox_ok (q_write i f (xs, i))"
    using writeCurrent_ok [of c x f] x f(1) c by (simp add: due_def q)
  moreover have "\<exists>z \<in> set (fst (q_write i f (xs, i))). pubrec_of n z"
    if y: "y \<in> set (fst (c_outbox c))" "pubrec_of n y" for y
  proof -
    from y(1) obtain j where j: "j < length xs" "y = xs ! j" by (auto simp: q in_set_conv_nth)
    then have "pubrec_of n (xs[i := f x] ! j)"
      using y(2) f(2,3) i by (cases "j = i") (simp_all add: pubrec_of_def)
    with j(1) i show ?thesis
      by (intro bexI [of _ "xs[i := f x] ! j"]) (simp_all add: q_write_def)
  qed
  ultimately show ?thesis using due_outbox [OF c] by simp
qed

lemma due_current: "due n c0 c \<Longrightarrow> q_current (c_outbox c) = Some x \<Longrightarrow> sendable (op_packet x)"
  using current_in [of "c_outbox c" x] by (auto simp: due_def outbox_ok_def)

lemma due_sendPacket:
  assumes c: "due n c0 c"
  shows "post (MqttClient_sendPacket env c) (\<lambda>(sent, c'). due n c0 c')"
proof (cases "q_current (c_outbox c)")
  case None
  with c show ?thesis by (simp add: MqttClient_sendPacket_def wp)
next
  case (Some x)
  from available_sendable [OF due_current [OF c Some], of "c_bytesSent c"] obtain want p where
    avail: "Packet_available (c_bytesSent c) (op_packet x) = Some (want, p)"
    and p: "sendable p" "same_packet (op_packet x) p"
    by (auto simp: ok_def sends_def)
  define c1 where "c1 = writeCurrent (\<lambda>x. x\<lparr>op_packet := p\<rparr>) c"
  have c1: "due n c0 c1"
    unfolding c1_def by (rule due_writeCurrent [OF c Some])
      (use p in \<open>simp_all add: same_packet_def op_packetType_def op_packetId_def Packet_packetId_def\<close>)
  have cur: "q_current (c_outbox c1) = Some (x\<lparr>op_packet := p\<rparr>)"
    unfolding c1_def by (simp add: current_write [OF Some])
  have "due n c0 (writeCurrent (\<lambda>x. x\<lparr>op_timeSent := t\<rparr>) (c1\<lparr>c_world := w\<rparr>))" for t w
    by (rule due_writeCurrent [where x = "x\<lparr>op_packet := p\<rparr>"])
      (use c1 cur p(1) in \<open>simp_all add: op_packetType_def op_packetId_def\<close>)
  then show ?thesis
    using Some avail c1
    by (auto simp: MqttClient_sendPacket_def ask_eq Let_def wp post_def [of "Packet_bytes a b d" for a b d]
        simp flip: c1_def)
qed

lemma pubrec_stays: "n \<noteq> 0 \<Longrightarrow> pubrec_of n x \<Longrightarrow> \<not> Packet_removable (op_packet x)"
  by (auto simp: pubrec_of_def op_packetType_def op_packetId_def Packet_packetId_def Packet_removable_def)

lemma due_removeCurrent:
  assumes "n \<noteq> 0" and c: "due n c0 c" and x: "q_current (c_outbox c) = Some x" and "Packet_removable (op_packet x)"
  shows "due n c0 (c\<lparr>c_outbox := q_removeCurrent (c_outbox c)\<rparr>)"
  unfolding q_removeCurrent_def
  by (rule due_remove [OF c]) (use current_in [OF x] pubrec_stays [OF assms(1)] assms(4) in auto)

lemma due_advanceOutbox:
  assumes n: "n \<noteq> 0" and c: "due n c0 c"
  shows "due n c0 (snd (MqttClient_advanceOutbox c))"
proof (cases "q_current (c_outbox c)")
  case None
  with c show ?thesis by (simp add: MqttClient_advanceOutbox_def)
next
  case (Some x)
  define d where "d = (if op_packetType x = DISCONNECT
    then (MqttClient_setState disconnectingTcp1 c)\<lparr>c_disconnectReason := USER_OK\<rparr> else c)"
  have d: "due n c0 d" "c_outbox d = c_outbox c"
    using c by (simp_all add: d_def) (simp add: MqttClient_setState_def)
  define e where "e = (if op_packetType x = PUBLISH
    then writeCurrent (\<lambda>x. x\<lparr>op_packet := Packet_setDup (op_packet x)\<rparr>) d else d)"
  have e: "due n c0 e"
    unfolding e_def using d Some due_current [OF c Some]
    by (auto intro!: due_writeCurrent [where x = x] simp: sendable_setDup setDup_type setDup_same op_packetType_def
        op_packetId_def Packet_packetId_def)
  have "outbox_ok (c_outbox (snd (MqttClient_advanceOutbox c)))"
    using advanceOutbox_evolves [of c] c by (simp add: evolves_def due_def)
  moreover have "due n c0 (e\<lparr>c_outbox := q_next (c_outbox e)\<rparr>)" if "outbox_ok (q_next (c_outbox e))"
    by (rule due_outbox [OF e that]) (cases "c_outbox e", auto simp: q_next_def)
  moreover have "due n c0 (d\<lparr>c_outbox := q_removeCurrent (c_outbox d)\<rparr>)" if "Packet_removable (op_packet x)"
    by (rule due_removeCurrent [OF n d(1) _ that]) (simp add: d(2) Some)
  ultimately show ?thesis
    using Some c
    by (cases "Packet_removable (op_packet x)"; cases "c_bytesSent c = Packet_size (op_packet x)")
      (simp_all add: MqttClient_advanceOutbox_def Let_def flip: d_def e_def)
qed

lemma due_checkOutbox':
  "MqttClient_checkOutbox env c = Some c' \<Longrightarrow> n \<noteq> 0 \<Longrightarrow> due n c0 c \<Longrightarrow> due n c0 c'"
proof (induction rule: MqttClient_checkOutbox.raw_induct [rotated, consumes 1, case_names step])
  case (step f env c c')
  obtain sent c1 where c1: "MqttClient_sendPacket env c = Some (sent, c1)" "due n c0 c1"
    using step.hyps step.prems due_sendPacket [OF step.prems(2)] by (auto simp: bind_eq_Some post_def)
  obtain any c2 where c2: "MqttClient_advanceOutbox c1 = (any, c2)" by (cases "MqttClient_advanceOutbox c1")
  with due_advanceOutbox [OF step.prems(1) c1(2)] have "due n c0 c2" by simp
  with step c1 c2 show ?case by (auto split: if_splits)
qed

lemma due_checkOutbox: "n \<noteq> 0 \<Longrightarrow> due n c0 c \<Longrightarrow> post (MqttClient_checkOutbox env c) (due n c0)"
  using due_checkOutbox' by (auto simp: post_def)

lemma due_checkPing: "due n c0 c \<Longrightarrow> post (MqttClient_checkPing env c) (due n c0)"
  by (auto simp: MqttClient_checkPing_def ask_eq wp Let_def intro!: post_mono [OF due_addPacket(1) [OF builds_simple]])

lemma due_checkTimeout:
  assumes c: "due n c0 c"
  shows "due n c0 (MqttClient_checkTimeout env c)"
proof -
  have "due n c0 (d\<lparr>c_outbox := q_resetCurrent (c_outbox d)\<rparr>)" if "due n c0 d" for d
    by (rule due_outbox [OF that]) (use that in \<open>simp add: due_def\<close>, cases "c_outbox d", auto simp: q_resetCurrent_def)
  from this [of "c\<lparr>c_world := w\<rparr>" for w] c show ?thesis
    by (simp add: MqttClient_checkTimeout_def ask_eq Let_def split: list.split)
qed

subsection \<open>Handling\<close>

text \<open>The packets that may end the debt: the PUBREL, an UNSUBACK, which matches any packet by its id, and a
  CONNACK that says that the server has no session.\<close>

definition settles :: "u16 \<Rightarrow> 'w Client \<Rightarrow> bool" where
  "settles n c \<longleftrightarrow>
     typeBits (c_parser c) \<in> {PUBREL, UNSUBACK} \<and> i_packetId (incoming c) = n \<or>
     typeBits (c_parser c) = CONNACK \<and> i_returnCode (incoming c) = 0 \<and> i_sessionPresent (incoming c) = 0"

text \<open>An UNSUBACK with its number does take the PUBREC out.\<close>

lemma unsuback_takes_pubrec:
  "\<exists>c. MqttClient_onUnsuback sink (heard 0xB0 ([sample_ack 0x50], 1)) = Some c \<and> c_outbox c = ([], 0)"
  by (simp add: MqttClient_onUnsuback_def Let_def silent_callback removeAt_def q_remove_def del_def)

lemma first_of_type_at:
  "first_of_type type i k xs = Some j \<Longrightarrow>
    k \<le> j \<and> j < k + length xs \<and> op_packetType (xs ! (j - k)) = type \<and> op_packetId (xs ! (j - k)) = i"
proof (induction xs arbitrary: k)
  case (Cons x xs)
  show ?case
  proof (cases "op_packetType x = type")
    case False
    with Cons.IH [of "Suc k"] Cons.prems have "Suc k \<le> j \<and> j < Suc k + length xs \<and> op_packetType (xs ! (j - Suc k)) = type \<and>
        op_packetId (xs ! (j - Suc k)) = i" by simp
    then show ?thesis by (auto simp: nth_Cons' Suc_diff_Suc)
  qed (use Cons.prems in \<open>auto split: if_splits\<close>)
qed simp

lemma first_match_at: "first_match P k xs = Some j \<Longrightarrow> k \<le> j \<and> j < k + length xs \<and> P (xs ! (j - k))"
proof (induction xs arbitrary: k)
  case (Cons x xs)
  show ?case
  proof (cases "P x")
    case False
    with Cons.IH [of "Suc k"] Cons.prems have "Suc k \<le> j \<and> j < Suc k + length xs \<and> P (xs ! (j - Suc k))" by simp
    then show ?thesis by (auto simp: nth_Cons')
  qed (use Cons.prems in auto)
qed simp

lemma due_removeAt:
  assumes "due n c0 c"
  shows "first_of_type type i 0 (fst (c_outbox c)) = Some k \<Longrightarrow> type \<noteq> PUBREC \<or> i \<noteq> n \<Longrightarrow> due n c0 (removeAt k c)"
    "first_match P 0 (fst (c_outbox c)) = Some k \<Longrightarrow> (\<And>x. P x \<Longrightarrow> \<not> pubrec_of n x) \<Longrightarrow> due n c0 (removeAt k c)"
proof -
  show "due n c0 (removeAt k c)" if "first_of_type type i 0 (fst (c_outbox c)) = Some k" "type \<noteq> PUBREC \<or> i \<noteq> n"
    unfolding removeAt_def
    by (rule due_remove [OF assms]) (use first_of_type_at [OF that(1)] that(2) in \<open>auto simp: pubrec_of_def\<close>)
  show "due n c0 (removeAt k c)" if "first_match P 0 (fst (c_outbox c)) = Some k" "\<And>x. P x \<Longrightarrow> \<not> pubrec_of n x"
    unfolding removeAt_def
    by (rule due_remove [OF assms]) (use first_match_at [OF that(1)] that(2) in auto)
qed

lemma addPacket_outbox:
  "post (MqttClient_addPacket env build c) (\<lambda>(added, c').
     \<forall>k. k < length (fst (c_outbox c)) \<longrightarrow> snd (c_outbox c) \<le> length (fst (c_outbox c)) \<longrightarrow>
       k < length (fst (c_outbox c')) \<and> fst (c_outbox c') ! k = fst (c_outbox c) ! k)"
proof -
  obtain xs i where q: "c_outbox c = (xs, i)" by (cases "c_outbox c")
  show ?thesis
    by (auto simp: MqttClient_addPacket_def ask_eq wp Let_def post_def bind_eq_Some q q_emplace_def q_remove_def
        del_def nth_append split: prod.splits if_splits)
qed

lemma due_replace:
  assumes c: "due n c0 c" and k: "first_of_type type i 0 (fst (c_outbox c)) = Some k" "type \<noteq> PUBREC \<or> i \<noteq> n"
  shows "post (MqttClient_addPacket env (\<lambda>mem. Packet_ack mem t packetId) c)
    (\<lambda>r. post (case r of (added, c') \<Rightarrow> Some (removeAt k c')) (due n c0))"
  unfolding post_def [of "MqttClient_addPacket env b c" for b]
proof (intro allI impI)
  fix r assume r: "MqttClient_addPacket env (\<lambda>mem. Packet_ack mem t packetId) c = Some r"
  obtain added c' where rc: "r = (added, c')" by (cases r)
  have c': "due n c0 c'" using due_addPacket(1) [OF builds_ack c] r rc by (auto simp: post_def)
  have "snd (c_outbox c) \<le> length (fst (c_outbox c))" using c by (simp add: due_def outbox_ok_def)
  with first_of_type_at [OF k(1)] addPacket_outbox [of env "\<lambda>mem. Packet_ack mem t packetId" c] r rc
  have "k < length (fst (c_outbox c'))" "fst (c_outbox c') ! k = fst (c_outbox c) ! k"
    by (auto simp: post_def)
  with first_of_type_at [OF k(1)] k(2) have "due n c0 (removeAt k c')"
    unfolding removeAt_def by (intro due_remove [OF c']) (auto simp: pubrec_of_def)
  then show "post (case r of (added, c') \<Rightarrow> Some (removeAt k c')) (due n c0)" by (simp add: rc wp)
qed

lemma due_onConnack:
  assumes env: "careful env" and n: "n \<noteq> 0" and c: "due n c0 c"
    and session: "i_returnCode (incoming c) = 0 \<Longrightarrow> i_sessionPresent (incoming c) \<noteq> 0"
  shows "post (MqttClient_onConnack env c) (due n c0)"
proof -
  define d where "d = snd (MqttClient_advanceOutbox (MqttClient_setState connected (c\<lparr>c_pingSent := False\<rparr>)))"
  have d: "due n c0 d"
    unfolding d_def by (rule due_advanceOutbox [OF n]) (simp add: c)
  have "incoming d = incoming c"
    using advanceOutbox_evolves [of "MqttClient_setState connected (c\<lparr>c_pingSent := False\<rparr>)"] c
    by (simp add: d_def evolves_def due_def incoming_def MqttClient_setState_def)
  with session due_callback(1) [OF env _ d] c show ?thesis
    unfolding MqttClient_onConnack_def Let_def d_def [symmetric]
    by (auto simp: wp post_def [of "DisconnectReason_cast x" for x])
qed

lemma due_onPublish:
  assumes env: "careful env" and c: "due n c0 c"
  shows "post (MqttClient_onPublish env c) (due n c0)"
proof -
  define qos where "qos = IncomingPacket_qos (incoming c)"
  define known where "known = first_match (\<lambda>x. op_packetType x = PUBREC \<and> op_packetId x = i_packetId (incoming c)) 0
    (fst (c_outbox c))"
  have known: "known \<noteq> None" if "i_packetId (incoming c) = n"
    using c that by (auto simp: known_def first_match_None due_def owes_def pubrec_of_def)
  have add: "post (MqttClient_addPacket env (\<lambda>mem. Packet_ack mem t i) c) (\<lambda>(added, c'). due n c0 c' \<and> incoming c' = incoming c)"
    for t i
    using due_addPacket(1) [OF builds_ack c] addPacket_evolves [OF builds_ack, of env t i c "{}"]
    by (force simp: post_def ok_def evolves_def incoming_def)
  have deliver: "post (messageEvent d) (\<lambda>e. post (callback env g_onMessageCallback e d) (due n c0))"
    if d: "due n c0 d" "incoming d = incoming c" and new: "\<not> (qos = 2 \<and> i_packetId (incoming c) = n)" for d
    unfolding post_def [of "messageEvent d"]
  proof (intro allI impI)
    fix e assume "messageEvent d = Some e"
    then have "\<not> delivers n e"
      using d(2) new by (auto simp: messageEvent_def bind_eq_Some Let_def qos_def)
    then show "post (callback env g_onMessageCallback e d) (due n c0)" by (rule due_callback(1) [OF env _ d(1)])
  qed
  show ?thesis
    unfolding MqttClient_onPublish_def Let_def qos_def [symmetric] known_def [symmetric]
    using known c
    by (auto simp: wp intro!: deliver post_mono [OF add] split: prod.splits)
qed

lemma due_dispatch:
  assumes env: "careful env" and n: "n \<noteq> 0" and c: "due n c0 c" and unsettled: "\<not> settles n c"
  shows "post (MqttClient_dispatch env packet c) (\<lambda>(continue, c'). due n c0 c')"
proof -
  let ?type = "i_packetType (incoming c) AND 0xF0"
  have type: "typeBits (c_parser c) = ?type" by (simp add: incoming_def)
  have "post (MqttClient_onConnack env c) (due n c0)" if "?type = CONNACK"
    by (rule due_onConnack [OF env n c]) (use unsettled that type in \<open>auto simp: settles_def\<close>)
  moreover have "post (MqttClient_onPuback env c) (due n c0)" "post (MqttClient_onPubcomp env c) (due n c0)"
    unfolding MqttClient_onPuback_def MqttClient_onPubcomp_def
    using c by (auto simp: Let_def wp split: option.split intro!: due_callback(1) [OF env] due_removeAt(1))
  moreover have "post (MqttClient_onPubrec env c) (due n c0)"
    unfolding MqttClient_onPubrec_def
    using c by (auto simp: Let_def wp split: option.split intro!: due_replace)
  moreover have "post (MqttClient_onPubrel env c) (due n c0)" if "?type = PUBREL"
    unfolding MqttClient_onPubrel_def
    using c unsettled that type by (auto simp: Let_def wp settles_def split: option.split intro!: due_replace)
  moreover have "post (MqttClient_onSuback env c) (due n c0)"
    unfolding MqttClient_onSuback_def
    using c by (auto simp: Let_def wp post_def [of "returnCodes x" for x] pubrec_of_def split: option.split
        intro!: due_callback(1) [OF env] due_removeAt(2))
  moreover have "post (MqttClient_onUnsuback env c) (due n c0)" if "?type = UNSUBACK"
    unfolding MqttClient_onUnsuback_def
    using c unsettled that type by (auto simp: Let_def wp settles_def pubrec_of_def split: option.split
        intro!: due_callback(1) [OF env] due_removeAt(2))
  ultimately show ?thesis
    using c due_onPublish [OF env c] by (simp add: MqttClient_dispatch_def wp Let_def)
qed

subsection \<open>What a call of the loop handles\<close>

text \<open>\<open>dispatched env rx remaining index c d\<close>: the receive loop gets to a packet, with the client in \<open>d\<close>.\<close>

inductive dispatched :: "'w Env \<Rightarrow> u8 list \<Rightarrow> u32 \<Rightarrow> size_t \<Rightarrow> 'w Client \<Rightarrow> 'w Client \<Rightarrow> bool" for env rx where
  this: "0 < sint remaining \<Longrightarrow> Parser_parse (drop (unat index) rx) remaining (c_parser c) = Some (packet, k, p) \<Longrightarrow>
    dispatched env rx remaining index c (c\<lparr>c_parser := p\<rparr>)"
| later: "0 < sint remaining \<Longrightarrow> Parser_parse (drop (unat index) rx) remaining (c_parser c) = Some (r, k, p) \<Longrightarrow>
    MqttClient_dispatch env r (c\<lparr>c_parser := p\<rparr>) = Some (True, c') \<Longrightarrow>
    dispatched env rx (remaining - k) (index + k) c' d \<Longrightarrow> dispatched env rx remaining index c d"

definition incoming_dispatched :: "'w Env \<Rightarrow> 'w Client \<Rightarrow> 'w Client \<Rightarrow> bool" where
  "incoming_dispatched env c d \<longleftrightarrow>
     (let ((remaining, rxBuffer), c) = ask (e_read env EMC_RX_BUFFER_SIZE) c;
          (now, c) = ask (e_millis env) c
      in dispatched env rxBuffer remaining 0 (c\<lparr>c_lastServerActivity := now\<rparr>) d)"

text \<open>The client at the point of \<open>loop\<close> where it reads from the transport, if it gets there.\<close>

definition loop_reads :: "'w Env \<Rightarrow> 'w Client \<Rightarrow> 'w Client option" where
  "loop_reads env c =
     (if c_state c = disconnectingMqtt1 then do {
        c \<leftarrow> semaphore_take c;
        c \<leftarrow>
          (if fst (c_outbox c) = [] then do {
             (added, c) \<leftarrow> MqttClient_addPacket env (\<lambda>mem. Packet_simple mem DISCONNECT) c;
             if \<not> added then report env 0 c
             else Some (MqttClient_setState disconnectingMqtt2 c)
           }
           else Some c);
        MqttClient_checkOutbox env c
      }
      else if c_state c = connectingMqtt \<and> e_waitForConnack env then do {
        c \<leftarrow> semaphore_take (snd (ask (e_connected env) c));
        (sent, c) \<leftarrow> MqttClient_sendPacket env c;
        Some c
      }
      else do {
        c \<leftarrow> semaphore_take (snd (ask (e_connected env) c));
        MqttClient_checkOutbox env c
      })"

definition loop_dispatched :: "'w Env \<Rightarrow> 'w Client \<Rightarrow> 'w Client \<Rightarrow> bool" where
  "loop_dispatched env c d \<longleftrightarrow>
     active (c_state c) \<and> (\<exists>c'. loop_reads env c = Some c' \<and> incoming_dispatched env c' d)"

lemma due_receive:
  "MqttClient_receive env rx remaining index c = Some c' \<Longrightarrow> careful env \<Longrightarrow> n \<noteq> 0 \<Longrightarrow>
    (\<And>d. dispatched env rx remaining index c d \<Longrightarrow> \<not> settles n d) \<Longrightarrow> due n c0 c \<Longrightarrow> due n c0 c'"
proof (induction rule: MqttClient_receive.raw_induct [rotated, consumes 1, case_names step])
  case (step f env rx remaining index c c')
  show ?case
  proof (cases "0 < sint remaining")
    case False
    with step show ?thesis by simp
  next
    case True
    then obtain r k p continue c1 where
      parse: "Parser_parse (drop (unat index) rx) remaining (c_parser c) = Some (r, k, p)"
      and disp: "MqttClient_dispatch env r (c\<lparr>c_parser := p\<rparr>) = Some (continue, c1)"
      and rest: "(if continue then f env rx (remaining - k) (index + k) c1 else Some c1) = Some c'"
      using step.hyps by (auto simp: bind_eq_Some)
    have c1: "due n c0 c1"
    proof (cases "r = packet")
      case True
      with dispatched.this [OF \<open>0 < sint remaining\<close>] parse step.prems(3) have "\<not> settles n (c\<lparr>c_parser := p\<rparr>)" by blast
      from due_dispatch [OF step.prems(1,2) _ this, of c0] step.prems(4) disp True show ?thesis
        by (simp add: post_def)
    next
      case False
      with disp step.prems(4) show ?thesis
        by (auto simp: MqttClient_dispatch_def Let_def split: if_splits)
    qed
    show ?thesis
    proof (cases continue)
      case False
      with rest c1 show ?thesis by simp
    next
      case continue: True
      have "\<not> settles n d" if "dispatched env rx (remaining - k) (index + k) c1 d" for d
        using dispatched.later [OF True parse _ that] disp continue step.prems(3) by simp
      from step.IH [OF _ step.prems(1,2) this c1] rest continue show ?thesis by simp
    qed
  qed
qed

lemma due_checkIncoming:
  assumes "careful env" and "n \<noteq> 0" and "due n c0 c" and "\<And>d. incoming_dispatched env c d \<Longrightarrow> \<not> settles n d"
  shows "post (MqttClient_checkIncoming env c) (due n c0)"
  using due_receive [OF _ assms(1,2)] assms(3,4)
  by (auto simp: MqttClient_checkIncoming_def incoming_dispatched_def ask_eq Let_def wp post_def split: prod.split)

lemma post_known: "post m P \<Longrightarrow> (\<And>x. m = Some x \<Longrightarrow> P x \<Longrightarrow> Q x) \<Longrightarrow> post m Q"
  by (auto simp: post_def)

lemma due_exchange:
  assumes env: "careful env" and n: "n \<noteq> 0" and c: "due n c0 c"
    and "\<And>c' d. MqttClient_checkOutbox env c = Some c' \<Longrightarrow> incoming_dispatched env c' d \<Longrightarrow> \<not> settles n d"
  shows "post (loop_exchange env c) (due n c0)"
  unfolding loop_exchange_def post_bind
  by (rule post_known [OF due_checkOutbox [OF n c]], rule post_mono [OF due_checkIncoming [OF env n]])
    (use assms(4) in \<open>auto simp: wp intro!: due_checkTimeout post_mono [OF due_checkPing]\<close>)

lemma due_with_semaphore:
  "(\<not> c_taken c \<Longrightarrow> post (f (c\<lparr>c_taken := True\<rparr>)) (due n c0)) \<Longrightarrow> post (with_semaphore f c) (due n c0)"
  by (auto simp: with_semaphore_def wp elim: post_mono)

lemma due_tcpLost: "due n c0 c \<Longrightarrow> due n c0 (tcpLost c)"
  by (simp add: tcpLost_def)

lemma due_connecting: "due n c0 c \<Longrightarrow> due n c0 (loop_connectingTcp2 env c)"
  by (simp add: loop_connectingTcp2_def ask_eq Let_def due_tcpLost)

lemma due_connected:
  assumes env: "careful env" and n: "n \<noteq> 0" and c: "due n c0 c"
    and "\<And>c' d. do { c \<leftarrow> semaphore_take (snd (ask (e_connected env) c)); MqttClient_checkOutbox env c } = Some c' \<Longrightarrow>
      incoming_dispatched env c' d \<Longrightarrow> \<not> settles n d"
  shows "post (loop_connected env c) (due n c0)"
  unfolding loop_connected_def with_semaphore_def
  using c assms(4)
  by (auto simp: ask_eq wp due_tcpLost semaphore_take_def intro!: post_mono [OF due_exchange [OF env n]])

lemma due_connectingMqtt:
  assumes env: "careful env" and n: "n \<noteq> 0" and c: "due n c0 c" and "e_waitForConnack env"
    and "\<And>c' d. do { c \<leftarrow> semaphore_take (snd (ask (e_connected env) c)); (sent, c) \<leftarrow> MqttClient_sendPacket env c; Some c } = Some c' \<Longrightarrow>
      incoming_dispatched env c' d \<Longrightarrow> \<not> settles n d"
  shows "post (loop_connectingMqtt env c) (due n c0)"
proof -
  let ?w = "snd (e_connected env (c_world c))"
  have "post (do { (sent, c) \<leftarrow> MqttClient_sendPacket env (c\<lparr>c_world := ?w, c_taken := True\<rparr>);
      c \<leftarrow> MqttClient_checkIncoming env c; MqttClient_checkPing env c }) (due n c0)" if "\<not> c_taken c"
    unfolding post_bind
  proof (rule post_known [OF due_sendPacket])
    show "due n c0 (c\<lparr>c_world := ?w, c_taken := True\<rparr>)" using c by simp
    fix x assume x: "MqttClient_sendPacket env (c\<lparr>c_world := ?w, c_taken := True\<rparr>) = Some x"
      "case x of (sent, c') \<Rightarrow> due n c0 c'"
    obtain sent c1 where x1: "x = (sent, c1)" by (cases x)
    have "post (MqttClient_checkIncoming env c1) (due n c0)"
      by (rule due_checkIncoming [OF env n]) (use x x1 assms(5) that in \<open>auto simp: ask_eq semaphore_take_def\<close>)
    then show "post (case x of (sent, c) \<Rightarrow> MqttClient_checkIncoming env c \<bind> (\<lambda>c. MqttClient_checkPing env c)) (due n c0)"
      using x1 by (auto simp: wp intro!: due_checkPing elim: post_mono)
  qed
  then have "post (with_semaphore (\<lambda>c. do { (sent, c) \<leftarrow> MqttClient_sendPacket env c;
      c \<leftarrow> MqttClient_checkIncoming env c; MqttClient_checkPing env c }) (c\<lparr>c_world := ?w\<rparr>)) (due n c0)"
    by (intro due_with_semaphore) simp
  with c assms(4) show ?thesis
    unfolding loop_connectingMqtt_def by (simp only: if_True ask_eq prod.case Let_def post_if post_Some due_tcpLost due_frame simp_thms)
qed

lemma due_disconnectingMqtt1:
  assumes env: "careful env" and n: "n \<noteq> 0" and c: "due n c0 c" "c_state c = disconnectingMqtt1"
    and "\<And>c' d. loop_reads env c = Some c' \<Longrightarrow> incoming_dispatched env c' d \<Longrightarrow> \<not> settles n d"
  shows "post (loop_disconnectingMqtt1 env c) (due n c0)"
  unfolding loop_disconnectingMqtt1_def
proof (rule due_with_semaphore)
  let ?queue = "if fst (c_outbox (c\<lparr>c_taken := True\<rparr>)) = [] then do {
      (added, c) \<leftarrow> MqttClient_addPacket env (\<lambda>mem. Packet_simple mem DISCONNECT) (c\<lparr>c_taken := True\<rparr>);
      if \<not> added then report env 0 c else Some (MqttClient_setState disconnectingMqtt2 c)
    } else Some (c\<lparr>c_taken := True\<rparr>)"
  assume free: "\<not> c_taken c"
  have "post ?queue (due n c0)"
    using c(1) by (auto simp: wp due_report [OF env] intro!: post_mono [OF due_addPacket(1) [OF builds_simple]])
  moreover have reads: "loop_reads env c = Option.bind ?queue (MqttClient_checkOutbox env)"
    unfolding loop_reads_def semaphore_take_def using c(2) free by (simp only: if_True if_False Option.bind.simps simp_thms)
  have "post (loop_exchange env d) (due n c0)" if "?queue = Some d" "due n c0 d" for d
    by (rule due_exchange [OF env n that(2)]) (use assms(5) reads that(1) in \<open>simp only: Option.bind.simps\<close>, blast)
  ultimately show "post (do { c \<leftarrow> ?queue; loop_exchange env c }) (due n c0)"
    unfolding post_bind by (rule post_known)
qed

lemma due_disconnectingTcp2:
  assumes env: "careful env" and c: "due n c0 c"
  shows "post (loop_disconnectingTcp2 env c) (due n c0)"
proof -
  define d where "d = snd (ask (e_disconnected env) c)"
  have "post (with_semaphore (\<lambda>c. Some (MqttClient_clearQueueData 0 c)) d) (due n c0)"
    by (rule due_with_semaphore) (use c in \<open>simp add: wp due_clear d_def ask_eq\<close>)
  then have "post (do { c \<leftarrow> with_semaphore (\<lambda>c. Some (MqttClient_clearQueueData 0 c)) d;
      let c = MqttClient_setState disconnected (c\<lparr>c_bytesSent := 0\<rparr>);
      notify env g_onDisconnectCallback (OnDisconnect (c_disconnectReason c)) c }) (due n c0)"
    unfolding post_bind Let_def by (rule post_mono) (auto intro!: due_callback(2) [OF env])
  with c show ?thesis
    unfolding loop_disconnectingTcp2_def by (simp add: ask_eq wp d_def)
qed

lemma due_loop:
  assumes env: "careful env" and n: "n \<noteq> 0" and c: "due n c0 c"
    and unsettled: "\<And>d. loop_dispatched env c d \<Longrightarrow> \<not> settles n d"
  shows "post (MqttClient_loop env c) (due n c0)"
proof -
  have reads: "\<not> settles n d" if "active (c_state c)" "loop_reads env c = Some c'" "incoming_dispatched env c' d" for c' d
    using unsettled that by (auto simp: loop_dispatched_def)
  have conn: "post (loop_connected env c) (due n c0)"
    if "active (c_state c)" "c_state c \<noteq> disconnectingMqtt1" "\<not> (c_state c = connectingMqtt \<and> e_waitForConnack env)"
    by (rule due_connected [OF env n c]) (use reads [OF that(1)] that(2,3) in \<open>auto simp: loop_reads_def\<close>)
  show ?thesis
  proof (cases "c_state c")
    case connectingTcp1
    with c show ?thesis
      by (simp add: MqttClient_loop_def wp loop_connectingTcp1_def ask_eq Let_def due_tcpLost due_connecting)
  next
    case connectingMqtt
    show ?thesis
    proof (cases "e_waitForConnack env")
      case True
      have "post (loop_connectingMqtt env c) (due n c0)"
        by (rule due_connectingMqtt [OF env n c True])
          (use reads connectingMqtt True in \<open>auto simp: loop_reads_def active_def\<close>)
      then show ?thesis by (simp add: MqttClient_loop_def connectingMqtt)
    next
      case False
      with conn connectingMqtt show ?thesis by (simp add: MqttClient_loop_def loop_connectingMqtt_def active_def)
    qed
  next
    case disconnectingMqtt1
    with due_disconnectingMqtt1 [OF env n c] reads show ?thesis by (simp add: MqttClient_loop_def active_def)
  next
    case disconnectingTcp1
    with c show ?thesis by (simp add: MqttClient_loop_def wp loop_disconnectingTcp1_def)
  qed (use c conn in \<open>simp_all add: MqttClient_loop_def wp due_connecting due_disconnectingTcp2 [OF env] active_def\<close>)
qed

subsection \<open>Runs\<close>

text \<open>A run in which no packet is handled that settles the debt, and the user does not delete the session.\<close>

fun unsettled :: "'w Env \<Rightarrow> u16 \<Rightarrow> Action list \<Rightarrow> 'w Client \<Rightarrow> bool" where
  "unsettled env n [] c \<longleftrightarrow> True"
| "unsettled env n (a # as) c \<longleftrightarrow> valid_action a \<and> a \<noteq> Call (ClearQueue True) \<and>
     (\<forall>d. a = Loop \<and> loop_dispatched env c d \<longrightarrow> \<not> settles n d) \<and>
     (\<forall>c'. perform env a c = Some c' \<longrightarrow> unsettled env n as c')"

lemma careful_reacts: "careful env \<Longrightarrow> reacts_by_calls env"
  by (force simp: careful_def reacts_by_calls_def)

lemma due_run:
  assumes env: "transport_ok env" "careful env" and n: "n \<noteq> 0"
  shows "client_inv c \<Longrightarrow> due n c0 c \<Longrightarrow> unsettled env n as c \<Longrightarrow> ok (run_actions env as c) (due n c0)"
proof (induction as arbitrary: c)
  case Nil
  then show ?case by (simp add: wp)
next
  case (Cons a as)
  have "ok (perform env a c) (keeps c)"
    using perform_stable [OF env(1) careful_reacts [OF env(2)] Cons.prems(1), of a] Cons.prems(3) by simp
  then obtain c1 where c1: "perform env a c = Some c1" "client_inv c1" by (auto simp: ok_def keeps_def)
  have "post (perform env a c) (due n c0)"
  proof (cases a)
    case Loop
    with due_loop [OF env(2) n Cons.prems(2)] Cons.prems(3) show ?thesis by simp
  next
    case (Call b)
    with due_perform [OF env(2) _ _ Cons.prems(2), of b] Cons.prems(3) show ?thesis by simp
  qed
  with c1 Cons.IH [of c1] Cons.prems(3) show ?case by (simp add: post_def)
qed

subsection \<open>Property\<close>

text \<open>C6: A QoS 2 message is delivered once. While the outbox holds the PUBREC with its id, whatever arrives,
  whatever the user and its callbacks call and however often the connection is lost and made again, no message with
  that id is delivered and the PUBREC stays, to be sent again: until a packet is handled that settles
  it, its PUBREL or one that ends the session, or the user deletes the session.\<close>

theorem delivered_once:
  assumes "transport_ok env" and "careful env" and "client_inv c" and "n \<noteq> 0"
    and "\<exists>x \<in> set (fst (c_outbox c)). op_packetType x = PUBREC \<and> op_packetId x = n" and "unsettled env n as c"
  shows "\<exists>c' es. run_actions env as c = Some c' \<and> c_events c' = c_events c @ es \<and>
    (\<forall>e \<in> set es. \<not> delivers n e) \<and> (\<exists>x \<in> set (fst (c_outbox c')). op_packetType x = PUBREC \<and> op_packetId x = n)"
proof -
  have "due n c c" using assms(3,5) by (simp add: due_def owes_def pubrec_of_def client_inv_def)
  from due_run [OF assms(1,2,4,3) this assms(6)] show ?thesis
    by (auto simp: ok_def due_def owes_def pubrec_of_def)
qed

text \<open>A duplicate of a message that the client has answered with a PUBREC arrives: it is not delivered again.\<close>

theorem delivered_once_witness:
  "\<exists>c'. run_actions (sink\<lparr>e_read := \<lambda>n w. ((8, [0x3C, 6, 0, 1, 116, 0, 1, 65]), w)\<rparr>) [Loop]
      ((sample_client ([sample_ack 0x50], 1))\<lparr>c_state := connected, c_config := (Config_init [97])\<lparr>g_onMessageCallback := True\<rparr>\<rparr>) =
    Some c' \<and> (\<forall>e \<in> set (c_events c'). \<not> delivers 1 e) \<and> fst (c_outbox c') \<noteq> []"
proof -
  let ?wire = "[0x3C, 6, 0, 1, 116, 0, 1, 65] :: u8 list"
  let ?env = "sink\<lparr>e_read := \<lambda>n w. ((8, ?wire), w)\<rparr>"
  let ?c = "(sample_client ([sample_ack 0x50], 1))\<lparr>c_state := connected, c_config := (Config_init [97])\<lparr>g_onMessageCallback := True\<rparr>\<rparr>"
  have "wire_publish True 1 [116] [65] 2 False = ?wire"
    by (simp add: wire_publish_def wire_packet_def publish_body_def publish_header_def wire_string_def wire_u16_def hi8_def lo8_def
        encodeRemainingLength.simps)
  moreover have "r_parse Parser_init = fixedHeader" by (simp add: Parser_init_def)
  ultimately obtain p where p: "Parser_parse ?wire 8 Parser_init = Some (packet, 8, p)" "published (publish_header True 2 False) 1 [116] [65] p"
    using receive_publish [of Parser_init 2 True "[116]" 1 "[65]" False "[]"] parser_ok_init
    by (auto simp: fits_def length_publish_body parser_ok_def)
  have type: "typeBits p = PUBLISH"
    using p(2) publish_header_bits(1) [of 2 True False] by (simp add: published_def Let_def)
  have heard: "typeBits (c_parser d) = PUBLISH" if "dispatched ?env ?wire 8 0 c d" "c_parser c = Parser_init" for c d
    using that(1)
  proof cases
    case this
    with p(1) that(2) type show ?thesis by simp
  next
    case (later r k q c1)
    from later(4) have "0 < sint (8 - k)" by cases
    with later(2) p(1) that(2) show ?thesis by simp
  qed
  then have quiet: "\<not> settles 1 d" if "loop_dispatched ?env ?c d" for d
  proof -
    from that obtain c1 where c1: "loop_reads ?env ?c = Some c1" "incoming_dispatched ?env c1 d"
      by (auto simp: loop_dispatched_def)
    have "MqttClient_checkOutbox ?env (?c\<lparr>c_taken := True\<rparr>) = Some (?c\<lparr>c_taken := True\<rparr>)"
      by (subst MqttClient_checkOutbox.simps) (simp add: MqttClient_sendPacket_def q_current_def at_def)
    then have "c1 = ?c\<lparr>c_taken := True\<rparr>"
      using c1(1) by (simp add: loop_reads_def ask_eq semaphore_take_def sink_def sample_client_def MqttClient_init_def)
    with c1(2) have "dispatched ?env ?wire 8 0 (?c\<lparr>c_taken := True, c_lastServerActivity := 0\<rparr>) d"
      by (simp add: incoming_dispatched_def ask_eq sink_def e_millis_def)
    from heard [OF this] show ?thesis
      by (simp add: settles_def sample_client_def MqttClient_init_def)
  qed
  have "transport_ok ?env" using sink_ok(1) by (simp add: transport_ok_def sink_def)
  moreover have "careful ?env"
    unfolding careful_def by (intro allI exI [of _ "[]"]) (simp add: reaction_def)
  moreover have "client_inv ?c"
  proof -
    have "outbox_ok ([sample_ack 0x50], 1)"
      by (simp add: outbox_ok_def sendable_def whole_def awaiting_def sample_ack_def sample_defs)
    moreover have "config_ok ((Config_init [97])\<lparr>g_onMessageCallback := True\<rparr>)"
      using config_ok_init by (simp add: config_ok_def)
    ultimately show ?thesis
      using sample_inv [of "([sample_ack 0x50], 1)"] parser_ok_init
      by (simp add: client_inv_def sample_client_def MqttClient_init_def)
  qed
  moreover have "\<exists>x \<in> set (fst (c_outbox ?c)). op_packetType x = PUBREC \<and> op_packetId x = 1" by simp
  moreover have "unsettled ?env 1 [Loop] ?c" using quiet by simp
  ultimately obtain c' es where "run_actions ?env [Loop] ?c = Some c'" "c_events c' = c_events ?c @ es"
    "\<forall>e \<in> set es. \<not> delivers 1 e" "\<exists>x \<in> set (fst (c_outbox c')). op_packetType x = PUBREC \<and> op_packetId x = 1"
    using delivered_once [of ?env ?c 1 "[Loop]"] by (auto simp del: run_actions.simps)
  moreover have "c_events ?c = []" by (simp add: sample_client_def MqttClient_init_def)
  ultimately show ?thesis by (intro exI [of _ c']) auto
qed

end
