(* ===== verification/ClientPosix.thy ===== *)
theory ClientPosix
  imports ClientWorld ClientProtocol
begin

text \<open>
  \<open>src/src/Transport/ClientPosix.h\<close> and \<open>src/src/Transport/ClientPosix.cpp\<close>: the transport for Linux,
  and \<open>src/src/Transport/ClientPosixIPAddress.cpp\<close>. The record \<open>ClientPosix\<close> has the members of the class.
  The calls of the operating system are the parameter \<open>Os\<close>, functions that answer and move on its
  state \<open>'o\<close>; a byte buffer is the list of its bytes, an address what a 32-bit load of it gives on a
  little-endian machine.
\<close>

subsection \<open>Addresses\<close>

text \<open>An \<open>IPAddress\<close> is its only member \<open>_address\<close>; the constructor from four bytes.\<close>

type_synonym IPAddress = u32

definition IPAddress_init :: IPAddress where
  "IPAddress_init = 0"

definition IPAddress_of_bytes :: "u8 \<Rightarrow> u8 \<Rightarrow> u8 \<Rightarrow> u8 \<Rightarrow> IPAddress" where
  "IPAddress_of_bytes p0 p1 p2 p3 =
     push_bit 24 (ucast p0) OR push_bit 16 (ucast p1) OR push_bit 8 (ucast p2) OR ucast p3"

text \<open>\<open>htonl\<close> and \<open>htons\<close> of a little-endian machine, and the bytes of a 32-bit value in its memory.\<close>

definition htonl :: "u32 \<Rightarrow> u32" where
  "htonl x = push_bit 24 (x AND 0xFF) OR push_bit 16 (drop_bit 8 x AND 0xFF) OR
     push_bit 8 (drop_bit 16 x AND 0xFF) OR drop_bit 24 x AND 0xFF"

definition htons :: "u16 \<Rightarrow> u16" where
  "htons x = push_bit 8 x OR drop_bit 8 x"

definition memory_bytes :: "u32 \<Rightarrow> u8 list" where
  "memory_bytes x = map (\<lambda>k. ucast (drop_bit (8 * k) x)) [0, 1, 2, 3]"

lemma memory_bytes_inject: "memory_bytes x = memory_bytes y \<longleftrightarrow> x = y"
proof
  assume eq: "memory_bytes x = memory_bytes y"
  have "bit (ucast (drop_bit (8 * k) x) :: u8) n = bit (ucast (drop_bit (8 * k) y) :: u8) n" if "k < 4" for k n
    using that eq by (auto simp: memory_bytes_def less_Suc_eq numeral_eq_Suc)
  then have at: "bit x (8 * k + n) = bit y (8 * k + n)" if "k < 4" "n < 8" for k n
    using that by (auto simp: bit_simps)
  show "x = y"
  proof (rule bit_word_eqI)
    fix n assume "n < LENGTH(32)"
    then show "bit x n = bit y n" using at [of "n div 8" "n mod 8"] by simp
  qed
qed simp

lemma memory_bytes_htonl: "memory_bytes (htonl x) = rev (memory_bytes x)"
proof -
  have "(ucast (drop_bit 0 (htonl x)) :: u8) = ucast (drop_bit 24 x)"
    by (rule bit_word_eqI) (auto simp: htonl_def mask8 bit_simps)
  moreover have "(ucast (drop_bit 8 (htonl x)) :: u8) = ucast (drop_bit 16 x)"
    by (rule bit_word_eqI) (auto simp: htonl_def mask8 bit_simps)
  moreover have "(ucast (drop_bit 16 (htonl x)) :: u8) = ucast (drop_bit 8 x)"
    by (rule bit_word_eqI) (auto simp: htonl_def mask8 bit_simps)
  moreover have "(ucast (drop_bit 24 (htonl x)) :: u8) = ucast (drop_bit 0 x)"
    by (rule bit_word_eqI) (auto simp: htonl_def mask8 bit_simps)
  ultimately show ?thesis by (simp add: memory_bytes_def)
qed

lemma htonl_htonl [simp]: "htonl (htonl x) = x"
proof -
  have "memory_bytes (htonl (htonl x)) = memory_bytes x" by (simp add: memory_bytes_htonl)
  then show ?thesis by (simp only: memory_bytes_inject)
qed

lemma htonl_0_iff [simp]: "htonl x = 0 \<longleftrightarrow> x = 0"
  by (metis htonl_htonl htonl_def drop_bit_of_0 push_bit_of_0 and_zero_eq zero_and_eq or.right_neutral)

lemma htonl_0 [simp]: "htonl 0 = 0"
  by simp

lemma IPAddress_network_order: "memory_bytes (htonl (IPAddress_of_bytes p0 p1 p2 p3)) = [p0, p1, p2, p3]"
proof -
  let ?x = "IPAddress_of_bytes p0 p1 p2 p3"
  have "(ucast (drop_bit 0 ?x) :: u8) = p3" "(ucast (drop_bit 8 ?x) :: u8) = p2"
    "(ucast (drop_bit 16 ?x) :: u8) = p1" "(ucast (drop_bit 24 ?x) :: u8) = p0"
    by (rule bit_word_eqI, auto simp: IPAddress_of_bytes_def bit_simps dest: bit_imp_le_length)+
  then show ?thesis unfolding memory_bytes_htonl by (simp add: memory_bytes_def)
qed

subsection \<open>The transport\<close>

abbreviation (input) AF_INET :: nat where "AF_INET \<equiv> 2"

record sockaddr_in =
  sin_family :: nat
  sin_addr :: u32
  sin_port :: u16

text \<open>
  The calls into the operating system. \<open>recv\<close> answers with its return value and the contents of the
  buffer, \<open>getaddrinfo\<close> with its return value and the field \<open>sin_addr\<close> of each address of its list.
  The sizes of a socket address and of the flag, which are always the same, are left out.
\<close>

record 'o Os =
  os_socket :: "'o \<Rightarrow> int \<times> 'o"
  os_setsockopt :: "int \<Rightarrow> 'o \<Rightarrow> int \<times> 'o"
  os_connect :: "int \<Rightarrow> sockaddr_in \<Rightarrow> 'o \<Rightarrow> int \<times> 'o"
  os_send :: "int \<Rightarrow> u8 list \<Rightarrow> 'o \<Rightarrow> int \<times> 'o"
  os_recv :: "int \<Rightarrow> size_t \<Rightarrow> 'o \<Rightarrow> (int \<times> u8 list) \<times> 'o"
  os_close :: "int \<Rightarrow> 'o \<Rightarrow> 'o"
  os_getaddrinfo :: "cstring option \<Rightarrow> 'o \<Rightarrow> (int \<times> u32 list) \<times> 'o"
  os_millis :: "'o \<Rightarrow> int \<times> 'o"
  os_alloc :: "'o \<Rightarrow> (bool \<times> Memory) \<times> 'o"

record 'o ClientPosix =
  px_sockfd :: int
  px_host :: sockaddr_in
  px_os :: 'o

definition ClientPosix_init :: "'o \<Rightarrow> 'o ClientPosix" where
  "ClientPosix_init os = \<lparr>px_sockfd = -1, px_host = \<lparr>sin_family = 0, sin_addr = 0, sin_port = 0\<rparr>, px_os = os\<rparr>"

definition os_call :: "('o \<Rightarrow> 'x \<times> 'o) \<Rightarrow> 'o ClientPosix \<Rightarrow> 'x \<times> 'o ClientPosix" where
  "os_call f w = (case f (px_os w) of (x, s) \<Rightarrow> (x, w\<lparr>px_os := s\<rparr>))"

definition ClientPosix_connected :: "'o ClientPosix \<Rightarrow> bool" where
  "ClientPosix_connected w = (px_sockfd w \<ge> 0)"

definition ClientPosix_disconnected :: "'o ClientPosix \<Rightarrow> bool" where
  "ClientPosix_disconnected w = (px_sockfd w < 0)"

definition ClientPosix_stop :: "'o Os \<Rightarrow> 'o ClientPosix \<Rightarrow> 'o ClientPosix" where
  "ClientPosix_stop os w =
     (if px_sockfd w \<ge> 0 then w\<lparr>px_os := os_close os (px_sockfd w) (px_os w), px_sockfd := -1\<rparr> else w)"

text \<open>The destructor.\<close>

definition ClientPosix_destroy :: "'o Os \<Rightarrow> 'o ClientPosix \<Rightarrow> 'o ClientPosix" where
  "ClientPosix_destroy os w = ClientPosix_stop os w"

definition ClientPosix_connectIp :: "'o Os \<Rightarrow> IPAddress \<Rightarrow> u16 \<Rightarrow> 'o ClientPosix \<Rightarrow> bool \<times> 'o ClientPosix" where
  "ClientPosix_connectIp os ip port w =
     (let w = (if ClientPosix_connected w then ClientPosix_stop os w else w);
          (sockfd, w) = os_call (os_socket os) w;
          w = w\<lparr>px_sockfd := sockfd\<rparr>;
          (ret, w) = os_call (os_setsockopt os (px_sockfd w)) w;
          w = w\<lparr>px_host := \<lparr>sin_family = AF_INET, sin_addr = htonl ip, sin_port = htons port\<rparr>\<rparr>;
          (ret, w) = os_call (os_connect os (px_sockfd w) (px_host w)) w
      in if ret < 0 then (False, w) else (True, w))"

text \<open>The loop over the addresses of a host ends at the first one that is not zero.\<close>

fun firstAddress :: "IPAddress \<Rightarrow> u32 list \<Rightarrow> IPAddress" where
  "firstAddress returnIP [] = returnIP"
| "firstAddress returnIP (s_addr # p) =
     (let returnIP = htonl s_addr in if returnIP \<noteq> 0 then returnIP else firstAddress returnIP p)"

definition ClientPosix_hostToIP :: "'o Os \<Rightarrow> cstring option \<Rightarrow> 'o ClientPosix \<Rightarrow> IPAddress \<times> 'o ClientPosix" where
  "ClientPosix_hostToIP os hostname w =
     (let returnIP = 0;
          ((rv, servinfo), w) = os_call (os_getaddrinfo os hostname) w
      in if rv \<noteq> 0 then (returnIP, w) else (firstAddress returnIP servinfo, w))"

definition ClientPosix_connectHost ::
    "'o Os \<Rightarrow> cstring option \<Rightarrow> u16 \<Rightarrow> 'o ClientPosix \<Rightarrow> bool \<times> 'o ClientPosix" where
  "ClientPosix_connectHost os hostname port w =
     (let (ipAddress, w) = ClientPosix_hostToIP os hostname w
      in if ipAddress = 0 then (False, w) else ClientPosix_connectIp os ipAddress port w)"

text \<open>The results are converted to the types of \<open>Transport\<close>.\<close>

definition ClientPosix_write :: "'o Os \<Rightarrow> u8 list \<Rightarrow> 'o ClientPosix \<Rightarrow> size_t \<times> 'o ClientPosix" where
  "ClientPosix_write os buf w =
     (let (ret, w) = os_call (os_send os (px_sockfd w) buf) w in (word_of_int ret, w))"

definition ClientPosix_read :: "'o Os \<Rightarrow> size_t \<Rightarrow> 'o ClientPosix \<Rightarrow> (u32 \<times> u8 list) \<times> 'o ClientPosix" where
  "ClientPosix_read os n w =
     (let ((ret, buf), w) = os_call (os_recv os (px_sockfd w) n) w in ((word_of_int ret, buf), w))"

text \<open>
  The client on this transport (\<open>espMqttClient\<close> on Linux): \<open>_transport\<close> points at the member \<open>_client\<close>.
  The user code and the build flags are arguments.
\<close>

definition posix_env :: "'o Os \<Rightarrow> (Event \<Rightarrow> 'o ClientPosix Client \<Rightarrow> 'o ClientPosix Client option) \<Rightarrow>
    bool \<Rightarrow> bool \<Rightarrow> 'o ClientPosix Env" where
  "posix_env os react waitForConnack allowNotConnectedPublish =
     \<lparr>e_connectIp = ClientPosix_connectIp os, e_connectHost = ClientPosix_connectHost os,
      e_write = ClientPosix_write os, e_read = ClientPosix_read os, e_stop = ClientPosix_stop os,
      e_connected = \<lambda>w. (ClientPosix_connected w, w), e_disconnected = \<lambda>w. (ClientPosix_disconnected w, w),
      e_clock = os_call (os_millis os), e_wideClock = True, e_alloc = os_call (os_alloc os), e_react = react,
      e_waitForConnack = waitForConnack, e_allowNotConnectedPublish = allowNotConnectedPublish\<rparr>"

subsection \<open>What the transport leaves alone\<close>

text \<open>Two states of the operating system with no \<open>socket\<close>, \<open>connect\<close>, \<open>close\<close> in between.\<close>

inductive quiet :: "'o Os \<Rightarrow> 'o \<Rightarrow> 'o \<Rightarrow> bool" for os where
  refl: "quiet os s s"
| send: "quiet os s s' \<Longrightarrow> quiet os s (snd (os_send os fd buf s'))"
| recv: "quiet os s s' \<Longrightarrow> quiet os s (snd (os_recv os fd n s'))"
| millis: "quiet os s s' \<Longrightarrow> quiet os s (snd (os_millis os s'))"
| alloc: "quiet os s s' \<Longrightarrow> quiet os s (snd (os_alloc os s'))"

lemma quiet_trans: "quiet os s2 s3 \<Longrightarrow> quiet os s1 s2 \<Longrightarrow> quiet os s1 s3"
  by (induction rule: quiet.induct) (auto intro: quiet.intros)

definition same_socket :: "'o Os \<Rightarrow> 'o ClientPosix \<Rightarrow> 'o ClientPosix \<Rightarrow> bool" where
  "same_socket os w w' \<longleftrightarrow>
     px_sockfd w' = px_sockfd w \<and> px_host w' = px_host w \<and> quiet os (px_os w) (px_os w')"

lemma os_call_eq: "os_call f w = (fst (f (px_os w)), w\<lparr>px_os := snd (f (px_os w))\<rparr>)"
  by (simp add: os_call_def split: prod.split)

lemmas posix_simps = posix_env_def os_call_eq ClientPosix_write_def ClientPosix_read_def ClientPosix_stop_def
  ClientPosix_connected_def ClientPosix_disconnected_def Let_def

interpretation posix_socket: steady "posix_env os react wait allow" "same_socket os" for os react wait allow
  by unfold_locales
    (auto simp: same_socket_def posix_simps case_prod_unfold intro: quiet_trans quiet.intros)

interpretation posix: closing "posix_env os react wait allow" "\<lambda>w. px_sockfd w < 0" for os react wait allow
  by unfold_locales (auto simp: posix_simps case_prod_unfold)

subsection \<open>What the operating system promises\<close>

text \<open>
  \<open>opens s\<close> are the open file descriptors of the process in the state \<open>s\<close>: \<open>socket\<close> gives one that
  was not open or fails, \<open>close\<close> closes its argument, nothing else opens or closes one. \<open>send\<close> and
  \<open>recv\<close> return -1 or the number of bytes, of those they were given or stored.
\<close>

definition os_ok :: "'o Os \<Rightarrow> ('o \<Rightarrow> int set) \<Rightarrow> bool" where
  "os_ok os opens \<longleftrightarrow>
     (\<forall>s. fst (os_socket os s) < 0 \<and> opens (snd (os_socket os s)) = opens s \<or>
        fst (os_socket os s) \<ge> 0 \<and> fst (os_socket os s) \<notin> opens s \<and>
        opens (snd (os_socket os s)) = insert (fst (os_socket os s)) (opens s)) \<and>
     (\<forall>fd s. opens (os_close os fd s) = opens s - {fd}) \<and>
     (\<forall>fd s. opens (snd (os_setsockopt os fd s)) = opens s) \<and>
     (\<forall>fd a s. opens (snd (os_connect os fd a s)) = opens s) \<and>
     (\<forall>h s. opens (snd (os_getaddrinfo os h s)) = opens s) \<and>
     (\<forall>s. opens (snd (os_millis os s)) = opens s) \<and> (\<forall>s. opens (snd (os_alloc os s)) = opens s) \<and>
     (\<forall>fd buf s. opens (snd (os_send os fd buf s)) = opens s \<and> - 1 \<le> fst (os_send os fd buf s) \<and>
        fst (os_send os fd buf s) \<le> int (length buf)) \<and>
     (\<forall>fd n s. opens (snd (os_recv os fd n s)) = opens s \<and> - 1 \<le> fst (fst (os_recv os fd n s)) \<and>
        fst (fst (os_recv os fd n s)) \<le> int (length (snd (fst (os_recv os fd n s)))))"

lemma word_of_int_count: "- 1 \<le> r \<Longrightarrow> r \<le> int n \<Longrightarrow> 0 < sint (word_of_int r :: u32) \<Longrightarrow> unat (word_of_int r :: u32) \<le> n"
proof (cases "r = - 1")
  case False
  assume r: "- 1 \<le> r" "r \<le> int n"
  with False have "unat (word_of_int r :: u32) = nat r mod 2 ^ 32"
    by (simp add: unat_eq_nat_uint uint_word_of_int nat_mod_distrib)
  also have "nat r mod 2 ^ 32 \<le> n" using r by (simp add: mod_le_divisor order_trans [OF mod_less_eq_dividend] nat_le_iff)
  finally show "unat (word_of_int r :: u32) \<le> n" .
qed simp

lemma posix_transport: "os_ok os opens \<Longrightarrow> transport_ok (posix_env os react wait allow)"
  by (auto simp: transport_ok_def os_ok_def posix_simps case_prod_unfold intro!: word_of_int_count)

lemma quiet_opens: "quiet os s s' \<Longrightarrow> os_ok os opens \<Longrightarrow> opens s' = opens s"
  by (induction rule: quiet.induct) (simp_all add: os_ok_def)

text \<open>The client holds at most one descriptor, the one in \<open>_sockfd\<close>.\<close>

definition owns :: "('o \<Rightarrow> int set) \<Rightarrow> int set \<Rightarrow> 'o ClientPosix \<Rightarrow> bool" where
  "owns opens base w \<longleftrightarrow>
     (if px_sockfd w < 0 then opens (px_os w) = base
      else px_sockfd w \<notin> base \<and> opens (px_os w) = insert (px_sockfd w) base)"

lemma owns_same: "os_ok os opens \<Longrightarrow> same_socket os w w' \<Longrightarrow> owns opens base w \<Longrightarrow> owns opens base w'"
  by (simp add: same_socket_def owns_def quiet_opens split: if_splits)

lemma owns_stop: "os_ok os opens \<Longrightarrow> owns opens base w \<Longrightarrow>
    owns opens base (ClientPosix_stop os w) \<and> px_sockfd (ClientPosix_stop os w) < 0"
  by (auto simp: owns_def ClientPosix_stop_def os_ok_def)

lemma owns_connectIp:
  assumes os: "os_ok os opens" and w: "owns opens base w"
  shows "owns opens base (snd (ClientPosix_connectIp os ip port w))"
proof -
  define w0 where "w0 = (if ClientPosix_connected w then ClientPosix_stop os w else w)"
  have w0: "opens (px_os w0) = base"
    using owns_stop [OF os w] w by (auto simp: w0_def owns_def ClientPosix_connected_def)
  define fd where "fd = fst (os_socket os (px_os w0))"
  have "fd < 0 \<and> opens (snd (os_socket os (px_os w0))) = base \<or>
      fd \<ge> 0 \<and> fd \<notin> base \<and> opens (snd (os_socket os (px_os w0))) = insert fd base"
    using os [unfolded os_ok_def, THEN conjunct1, rule_format, of "px_os w0"] unfolding fd_def w0 .
  moreover have "opens (snd (os_setsockopt os fd s)) = opens s" "opens (snd (os_connect os fd a s)) = opens s" for a s
    using os by (simp_all add: os_ok_def)
  ultimately show ?thesis
    unfolding ClientPosix_connectIp_def w0_def [symmetric] by (auto simp: os_call_eq owns_def Let_def fd_def [symmetric])
qed

lemma owns_connectHost:
  assumes os: "os_ok os opens" and w: "owns opens base w"
  shows "owns opens base (snd (ClientPosix_connectHost os hostname port w))"
proof -
  have "owns opens base (w\<lparr>px_os := snd (os_getaddrinfo os hostname (px_os w))\<rparr>)"
    using os w by (simp add: owns_def os_ok_def)
  then show ?thesis
    using owns_connectIp [OF os]
    by (simp add: ClientPosix_connectHost_def ClientPosix_hostToIP_def os_call_eq case_prod_unfold Let_def)
qed

lemma owns_loop:
  assumes os: "os_ok os opens" and env: "reacts_by_calls (posix_env os react wait allow)"
    and w: "owns opens base (c_world c)"
  shows "post (MqttClient_loop (posix_env os react wait allow) c) (\<lambda>c'. owns opens base (c_world c'))"
proof -
  let ?env = "posix_env os react wait allow"
  consider "c_state c = connectingTcp1" | "c_state c = disconnectingTcp1"
    | "c_state c \<noteq> connectingTcp1" "c_state c \<noteq> disconnectingTcp1" by blast
  then show ?thesis
  proof cases
    case 1
    have "owns opens base (snd (e_connectIp ?env ip port (c_world c)))"
      "owns opens base (snd (e_connectHost ?env host port (c_world c)))" for ip host port
      using owns_connectIp [OF os w] owns_connectHost [OF os w] by (simp_all add: posix_env_def)
    then show ?thesis
      by (intro post_mono [OF posix_socket.related.loop_connects [OF 1 posix_socket.R_refl]]) (auto intro: owns_same [OF os] split: if_splits)
  next
    case 2
    have "owns opens base (e_stop ?env (c_world c))"
      using owns_stop [OF os w] by (simp add: posix_env_def)
    then show ?thesis by (intro post_mono [OF loop_stops [OF 2]]) simp
  next
    case 3
    show ?thesis
      by (rule post_mono [OF posix_socket.loop_related [OF env 3]]) (rule owns_same [OF os _ w])
  qed
qed

lemma owns_run:
  assumes os: "os_ok os opens" and env: "reacts_by_calls (posix_env os react wait allow)"
  shows "owns opens base (c_world c) \<Longrightarrow>
    post (run_actions (posix_env os react wait allow) as c) (\<lambda>c'. owns opens base (c_world c'))"
proof (induction as arbitrary: c)
  case (Cons a as)
  have "post (perform (posix_env os react wait allow) a c) (\<lambda>c'. owns opens base (c_world c'))"
  proof (cases a)
    case Loop
    with owns_loop [OF os env Cons.prems] show ?thesis by simp
  next
    case (Call b)
    have "post (perform_call (posix_env os react wait allow) b c) (\<lambda>c'. same_socket os (c_world c) (c_world c'))"
      by (rule posix_socket.related.perform_call_world [OF env posix_socket.R_refl])
    then show ?thesis unfolding Call perform.simps by (rule post_mono) (rule owns_same [OF os _ Cons.prems])
  qed
  then show ?case unfolding run_actions.simps post_bind by (rule post_mono) (rule Cons.IH)
qed (simp add: wp)

text \<open>A client on this transport, between two calls: its invariant, and what it holds of the system.\<close>

definition posix_inv :: "('o \<Rightarrow> int set) \<Rightarrow> int set \<Rightarrow> 'o ClientPosix Client \<Rightarrow> bool" where
  "posix_inv opens base c \<longleftrightarrow> client_inv c \<and> rests (\<lambda>w. px_sockfd w < 0) c \<and> owns opens base (c_world c)"

lemma posix_inv_init:
  "config_ok g \<Longrightarrow> posix_inv opens (opens s) ((MqttClient_init clientId (ClientPosix_init s))\<lparr>c_config := g\<rparr>)"
  using init_inv [of g clientId "ClientPosix_init s"]
  by (simp add: posix_inv_def rests_def owns_def MqttClient_init_def ClientPosix_init_def)

lemma posix_inv_run:
  assumes os: "os_ok os opens" and env: "reacts_by_calls (posix_env os react wait allow)"
    and c: "posix_inv opens base c" and as: "\<forall>a \<in> set as. valid_action a"
  shows "ok (run_actions (posix_env os react wait allow) as c) (\<lambda>c'. posix_inv opens base c' \<and> c_config c' = c_config c)"
  using posix.run_rests [OF posix_transport [OF os] env _ _ as, of c] owns_run [OF os env, of base c as] c
  by (auto simp: posix_inv_def ok_def post_def)

lemma posix_inv_closed:
  "posix_inv opens base c \<Longrightarrow> MqttClient_disconnected c \<Longrightarrow> px_sockfd (c_world c) < 0"
  by (simp add: posix_inv_def rests_def resting_def MqttClient_disconnected_def split: if_splits)

lemma posix_inv_destroy:
  "os_ok os opens \<Longrightarrow> posix_inv opens base c \<Longrightarrow> opens (px_os (ClientPosix_destroy os (c_world c))) = base"
  using owns_stop [of os opens base "c_world c"] by (simp add: posix_inv_def ClientPosix_destroy_def owns_def)

text \<open>An operating system for the witnesses: its state is the set of open descriptors.\<close>

definition sample_os :: "int set Os" where
  "sample_os =
     \<lparr>os_socket = \<lambda>s. if 3 \<in> s then (-1, s) else (3, insert 3 s), os_setsockopt = \<lambda>fd s. (0, s),
      os_connect = \<lambda>fd a s. (0, s), os_send = \<lambda>fd buf s. (int (length buf), s),
      os_recv = \<lambda>fd n s. ((0, []), s), os_close = \<lambda>fd s. s - {fd},
      os_getaddrinfo = \<lambda>hostname s. ((0, [0, 0x0100007F]), s), os_millis = \<lambda>s. (0, s),
      os_alloc = \<lambda>s. ((True, ample), s)\<rparr>"

lemma sample_os_ok: "os_ok sample_os (\<lambda>s. s)"
  by (auto simp: os_ok_def sample_os_def)

lemma sample_posix: "reacts_by_calls (posix_env os (\<lambda>e c. Some c) wait allow)"
  by (rule silent_by_calls) (simp add: posix_env_def)

subsection \<open>Properties\<close>

text \<open>C27: On this transport, with any operating system that keeps its promises, no sequence of calls of
  the user and of \<open>loop\<close> makes the client fault or hang, and it leaks no file descriptor: beyond those
  that were open before, at most the one in \<open>_sockfd\<close> is open, none when the client is disconnected,
  and none after the transport is destroyed. The calls are those of \<open>valid_call\<close>: a QoS of at most 2 and
  lengths that fit the encoding; a PUBLISH with payload callback has a payload of at least one byte and a
  body of at most 16383 bytes, and its callback stores no more than it is allowed and does not call the
  client (for the others the code does fault, as \<open>chunked_large_overrun\<close> and \<open>client_never_faults\<close>
  show).\<close>

theorem posix_client_safe:
  assumes "os_ok os opens" and "reacts_by_calls (posix_env os react wait allow)" and "config_ok g"
    and "\<forall>a \<in> set as. valid_action a"
  shows "\<exists>c. run_actions (posix_env os react wait allow) as
        ((MqttClient_init clientId (ClientPosix_init s))\<lparr>c_config := g\<rparr>) = Some c \<and>
      opens (px_os (c_world c)) =
        (if px_sockfd (c_world c) < 0 then opens s else insert (px_sockfd (c_world c)) (opens s)) \<and>
      (MqttClient_disconnected c \<longrightarrow> px_sockfd (c_world c) < 0) \<and>
      opens (px_os (ClientPosix_destroy os (c_world c))) = opens s"
proof -
  obtain c where c: "run_actions (posix_env os react wait allow) as
      ((MqttClient_init clientId (ClientPosix_init s))\<lparr>c_config := g\<rparr>) = Some c" "posix_inv opens (opens s) c"
    using posix_inv_run [OF assms(1,2) posix_inv_init [OF assms(3)] assms(4)] by (auto simp: ok_def)
  with posix_inv_closed [OF c(2)] posix_inv_destroy [OF assms(1) c(2)] show ?thesis
    by (auto simp: posix_inv_def owns_def)
qed

theorem posix_client_safe_witness:
  "\<exists>c. run_actions (posix_env sample_os (\<lambda>e c. Some c) True True)
      [Call Connect, Loop, Loop, Call (Disconnect True), Loop, Loop]
      ((MqttClient_init [97] (ClientPosix_init {0}))\<lparr>c_config := Config_init [97]\<rparr>) = Some c \<and>
    px_os (ClientPosix_destroy sample_os (c_world c)) = {0}"
  using posix_client_safe [OF sample_os_ok sample_posix config_ok_init,
      of "[Call Connect, Loop, Loop, Call (Disconnect True), Loop, Loop]" True True "[97]" "{0}"] by auto

text \<open>A host name is resolved to the first address of its list that is not zero, and that address
  reaches \<open>connect\<close> unchanged, in network byte order; so does one that the user gives as four bytes.
  Without such an address no socket is opened.\<close>

lemma posix_resolves:
  assumes "os_getaddrinfo os hostname (px_os w) = ((0, addresses), s)"
  shows "(case find (\<lambda>a. a \<noteq> 0) addresses of
      None \<Rightarrow> ClientPosix_connectHost os hostname port w = (False, w\<lparr>px_os := s\<rparr>)
    | Some a \<Rightarrow> ClientPosix_connectHost os hostname port w =
          ClientPosix_connectIp os (htonl a) port (w\<lparr>px_os := s\<rparr>) \<and>
        px_host (snd (ClientPosix_connectHost os hostname port w)) =
          \<lparr>sin_family = AF_INET, sin_addr = a, sin_port = htons port\<rparr>) \<and>
    memory_bytes (sin_addr (px_host (snd (ClientPosix_connectIp os (IPAddress_of_bytes p0 p1 p2 p3) port w)))) =
      [p0, p1, p2, p3]"
proof -
  have first: "firstAddress 0 as = (case find (\<lambda>a. a \<noteq> 0) as of None \<Rightarrow> 0 | Some a \<Rightarrow> htonl a)" for as
    by (induction as) (auto simp: Let_def split: option.split)
  have host: "px_host (snd (ClientPosix_connectIp os ip port v)) =
      \<lparr>sin_family = AF_INET, sin_addr = htonl ip, sin_port = htons port\<rparr>" for ip v
    by (simp add: ClientPosix_connectIp_def os_call_eq Let_def)
  have "find (\<lambda>a. a \<noteq> 0) addresses = Some a \<Longrightarrow> a \<noteq> 0" for a
    by (auto simp: find_Some_iff)
  then show ?thesis
    using assms
    by (auto simp: ClientPosix_connectHost_def ClientPosix_hostToIP_def os_call_eq first host IPAddress_network_order
        split: option.split)
qed

lemma idle_loop:
  assumes "c_state c = connected" and "c_outbox c = ([], 0)" and "g_keepAlive (c_config c) = 0" and "\<not> c_taken c"
    and "ClientPosix_connected (c_world c)"
    and "ClientPosix_read os EMC_RX_BUFFER_SIZE (c_world c) = ((0, buf), w)"
  shows "MqttClient_loop (posix_env os react wait allow) c = Some (c\<lparr>c_world := w\<rparr>)"
proof -
  let ?env = "posix_env os react wait allow"
  have env: "e_read ?env = ClientPosix_read os" "e_connected ?env = (\<lambda>w. (ClientPosix_connected w, w))"
    by (simp_all add: posix_env_def)
  have out: "MqttClient_checkOutbox ?env d = Some d" if "c_outbox d = ([], 0)" for d
    by (subst MqttClient_checkOutbox.simps) (simp add: MqttClient_sendPacket_def q_current_def at_def that)
  have "loop_exchange ?env (c\<lparr>c_taken := True\<rparr>) = Some (c\<lparr>c_taken := True, c_world := w\<rparr>)"
    using assms(2,3,6)
    by (simp add: loop_exchange_def out MqttClient_checkIncoming_def ask_eq env MqttClient_checkPing_def
        MqttClient_checkTimeout_def)
  moreover have "c\<lparr>c_taken := False, c_world := w\<rparr> = c\<lparr>c_world := w\<rparr>"
    using assms(4) by (cases c) simp
  moreover have "c\<lparr>c_world := c_world c\<rparr> = c" by simp
  ultimately show ?thesis
    using assms(1,4,5)
    by (simp add: MqttClient_loop_def loop_connected_def ask_eq with_semaphore_def semaphore_take_def
        semaphore_give_def env)
qed

text \<open>C38: The transport does not notice that the server has closed the connection: \<open>recv\<close> then returns 0,
  which the client takes for no data. Without a keep-alive it stays connected for as many calls of
  \<open>loop\<close> as are made.\<close>

theorem peer_close_unnoticed:
  assumes "c_state c = connected" and "c_outbox c = ([], 0)" and "g_keepAlive (c_config c) = 0" and "\<not> c_taken c"
    and "ClientPosix_connected (c_world c)"
    and closed: "\<forall>fd n s. \<exists>buf s'. os_recv os fd n s = ((0, buf), s')"
  shows "\<exists>c'. run_actions (posix_env os react wait allow) (replicate n Loop) c = Some c' \<and>
    MqttClient_connected c' \<and> c_events c' = c_events c \<and> ClientPosix_connected (c_world c')"
proof -
  have steps: "c_state d = connected \<Longrightarrow> c_outbox d = ([], 0) \<Longrightarrow> g_keepAlive (c_config d) = 0 \<Longrightarrow> \<not> c_taken d \<Longrightarrow>
      ClientPosix_connected (c_world d) \<Longrightarrow>
      \<exists>c'. run_actions (posix_env os react wait allow) (replicate n Loop) d = Some c' \<and>
        MqttClient_connected c' \<and> c_events c' = c_events d \<and> ClientPosix_connected (c_world c')" for d
  proof (induction n arbitrary: d)
    case 0
    then show ?case by (simp add: MqttClient_connected_def)
  next
    case (Suc n)
    obtain buf s' where "os_recv os (px_sockfd (c_world d)) EMC_RX_BUFFER_SIZE (px_os (c_world d)) = ((0, buf), s')"
      using closed by metis
    then obtain w where w: "ClientPosix_read os EMC_RX_BUFFER_SIZE (c_world d) = ((0, buf), w)"
      by (simp add: ClientPosix_read_def os_call_def)
    then have "ClientPosix_connected w"
      using Suc.prems(5) by (auto simp: ClientPosix_read_def os_call_eq ClientPosix_connected_def case_prod_unfold)
    with Suc.IH [of "d\<lparr>c_world := w\<rparr>"] Suc.prems show ?case
      by (simp add: idle_loop [OF Suc.prems w])
  qed
  show ?thesis by (rule steps [OF assms(1-5)])
qed

theorem peer_close_unnoticed_witness:
  "\<exists>c. run_actions (posix_env sample_os (\<lambda>e c. Some c) True True) (replicate 1000 Loop)
      ((MqttClient_init [97] ((ClientPosix_init {3})\<lparr>px_sockfd := 3\<rparr>))
        \<lparr>c_state := connected, c_config := (Config_init [97])\<lparr>g_keepAlive := 0\<rparr>\<rparr>) = Some c \<and>
    MqttClient_connected c"
proof -
  let ?c = "(MqttClient_init [97] ((ClientPosix_init ({3} :: int set))\<lparr>px_sockfd := 3\<rparr>))
        \<lparr>c_state := connected, c_config := (Config_init [97])\<lparr>g_keepAlive := 0\<rparr>\<rparr>"
  have "c_outbox ?c = ([], 0)" "\<not> c_taken ?c" "ClientPosix_connected (c_world ?c)"
    by (simp_all add: MqttClient_init_def ClientPosix_connected_def)
  moreover have "\<forall>fd n s. \<exists>buf s'. os_recv sample_os fd n s = ((0, buf), s')" by (simp add: sample_os_def)
  ultimately show ?thesis
    using peer_close_unnoticed [of ?c sample_os "\<lambda>e c. Some c" True True 1000]
    by (auto simp del: run_actions.simps)
qed

end
