(* ===== verification/ClientEvents.thy ===== *)
theory ClientEvents
  imports ClientWorld ClientProtocol
begin

text \<open>
  When the client reports the end of a connection: in the call of \<open>loop\<close> in which it becomes disconnected,
  once, and nowhere else.
\<close>

subsection \<open>What is not the end of a connection\<close>

text \<open>\<open>since es0 es\<close>: no end of a connection was reported since \<open>es0\<close>.\<close>

definition since :: "Event list \<Rightarrow> Event list \<Rightarrow> bool" where
  "since es0 es \<longleftrightarrow> (\<exists>new. es = es0 @ new \<and> filter isDisconnect new = [])"

lemma since_refl [simp]: "since es es"
  by (simp add: since_def)

interpretation unreported: observer env "\<lambda>w es. since es0 es" for env :: "'w Env" and es0
  by unfold_locales (auto simp: since_def)

lemma call_unreported:
  assumes "reacts_by_calls env"
  shows "post (perform_call env a c) (\<lambda>c'. since (c_events c) (c_events c'))"
  by (rule unreported.perform_call_world [OF assms]) simp

lemma react_unreported:
  assumes "reacts_by_calls env"
  shows "post (e_react env e c) (\<lambda>c'. since (c_events c) (c_events c'))"
  by (rule unreported.react_world [OF assms]) simp

subsection \<open>The end of a connection\<close>

definition reports :: "'w Env \<Rightarrow> Action \<Rightarrow> 'w Client \<Rightarrow> Event list" where
  "reports env a c =
     (if a = Loop \<and> c_state c = disconnectingTcp2 \<and> fst (e_disconnected env (c_world c)) \<and> g_onDisconnectCallback (c_config c)
      then [OnDisconnect (c_disconnectReason c)] else [])"

lemma closed_reports:
  assumes env: "reacts_by_calls env" and c: "outbox_ok (c_outbox c)" "\<not> c_taken c" "c_state c = disconnectingTcp2"
    and "fst (e_disconnected env (c_world c))"
  shows "post (MqttClient_loop env c) (\<lambda>c'. since (c_events c @ reports env Loop c) (c_events c'))"
proof -
  obtain d where d: "MqttClient_loop env c = notify env g_onDisconnectCallback (OnDisconnect (c_disconnectReason c)) d"
    and fields: "c_events d = c_events c" "c_config d = c_config c"
    using loop_closes [OF c(3,2,1)] assms(5) by auto
  show ?thesis
    unfolding d notify_def reports_def
    by (auto simp: wp fields c(3) assms(5) intro!: post_mono [OF react_unreported [OF env]])
qed

lemma loop_reports:
  assumes env: "reacts_by_calls env" and c: "client_inv c"
  shows "post (MqttClient_loop env c) (\<lambda>c'. since (c_events c @ reports env Loop c) (c_events c'))"
proof -
  have inv: "outbox_ok (c_outbox c)" "\<not> c_taken c" using c by (simp_all add: client_inv_def)
  consider (connects) "c_state c = connectingTcp1" | (stops) "c_state c = disconnectingTcp1"
    | (closed) "c_state c = disconnectingTcp2" "fst (e_disconnected env (c_world c))"
    | (closing) "c_state c = disconnectingTcp2" "\<not> fst (e_disconnected env (c_world c))"
    | (other) "c_state c \<notin> {connectingTcp1, disconnectingTcp1, disconnectingTcp2}" by blast
  then show ?thesis
  proof cases
    case connects
    with unreported.loop_connects [OF connects] show ?thesis by (simp add: reports_def)
  next
    case stops
    then show ?thesis by (intro post_mono [OF loop_stops [OF stops]]) (simp add: reports_def)
  next
    case closed
    then show ?thesis by (rule closed_reports [OF env inv])
  next
    case closing
    with unreported.open_world [of "c_events c" c env] show ?thesis by (simp add: reports_def MqttClient_loop_def)
  next
    case other
    with unreported.loop_world [OF env _ other, of "c_events c"] show ?thesis by (simp add: reports_def)
  qed
qed

lemma perform_reports:
  assumes "transport_ok env" and env: "reacts_by_calls env" and c: "client_inv c" and a: "valid_action a"
  shows "\<exists>c' es. perform env a c = Some c' \<and> c_events c' = c_events c @ es \<and> filter isDisconnect es = reports env a c"
proof -
  obtain c' where c': "perform env a c = Some c'"
    using perform_stable [OF assms] by (auto simp: ok_def)
  have "post (perform env a c) (\<lambda>c'. since (c_events c @ reports env a c) (c_events c'))"
    using loop_reports [OF env c] call_unreported [OF env] by (cases a) (simp_all add: reports_def)
  with c' obtain es where "c_events c' = (c_events c @ reports env a c) @ es" "filter isDisconnect es = []"
    by (auto simp: post_def since_def)
  moreover have "filter isDisconnect (reports env a c) = reports env a c" by (simp add: reports_def)
  ultimately show ?thesis using c' by (intro exI [of _ c'] exI [of _ "reports env a c @ es"]) simp
qed

subsection \<open>Property\<close>

text \<open>C25: The end of a connection is reported once. A call of \<open>loop\<close> in the last state of the
  disconnection, when the transport is closed, calls the disconnect callback once, with the reason that the client has recorded; whatever
  else the user calls, arrives or fails, and whatever the callbacks call in turn, no other call reports it.\<close>

theorem disconnect_reported:
  assumes "transport_ok env" and "reacts_by_calls env" and "client_inv c" and "valid_action a"
  shows "\<exists>c' es. perform env a c = Some c' \<and> c_events c' = c_events c @ es \<and>
    filter isDisconnect es =
      (if a = Loop \<and> c_state c = disconnectingTcp2 \<and> fst (e_disconnected env (c_world c)) \<and> g_onDisconnectCallback (c_config c)
       then [OnDisconnect (c_disconnectReason c)] else [])"
  using perform_reports [OF assms] by (simp add: reports_def)

theorem disconnect_reported_witness:
  "\<exists>c'. perform (reacting sample_program sink) Loop
      ((sample_client ([], 0))\<lparr>c_state := disconnectingTcp2, c_config := (Config_init [97])\<lparr>g_onDisconnectCallback := True\<rparr>\<rparr>) = Some c' \<and>
    filter isDisconnect (c_events c') = [OnDisconnect TCP_DISCONNECTED]"
proof -
  let ?c = "(sample_client ([], 0))\<lparr>c_state := disconnectingTcp2, c_config := (Config_init [97])\<lparr>g_onDisconnectCallback := True\<rparr>\<rparr>"
  have "config_ok ((Config_init [97])\<lparr>g_onDisconnectCallback := True\<rparr>)"
    using config_ok_init by (simp add: config_ok_def)
  then have "client_inv ?c"
    using sample_inv [of "([], 0)"] by (simp add: client_inv_def active_def outbox_ok_def)
  moreover have "transport_ok (reacting sample_program sink)" by (simp add: sink_ok)
  moreover have "c_events ?c = []" "c_disconnectReason ?c = TCP_DISCONNECTED"
    by (simp_all add: sample_client_def MqttClient_init_def)
  moreover have "fst (e_disconnected (reacting sample_program sink) (c_world ?c))"
    by (simp add: reacting_def sink_def)
  ultimately show ?thesis
    using disconnect_reported [OF _ sample_program_ok, of sink ?c Loop] by auto
qed

end
