(* ===== verification/SimpleLinux.thy ===== *)
theory SimpleLinux
  imports ClientPosix ClientEvents
begin

text \<open>
  A whole program on the library: \<open>src/examples/simple-linux/main.cpp\<close>, two threads that share a client on
  the Linux transport. \<open>main\<close> sets the client up, starts the thread that calls \<open>loop\<close>, connects, and waits until
  the flag \<open>exitProgram\<close> is set, which the disconnect callback does. The threads take turns call by call, in any
  order; what the program prints is left out.
\<close>

subsection \<open>The user code\<close>







subsection \<open>The threads\<close>










subsection \<open>The user code keeps the rules\<close>






subsection \<open>Every interleaving\<close>









subsection \<open>A server that cannot be reached\<close>







subsection \<open>Property\<close>



end
