(* ===== verification/ClientSync.thy ===== *)
theory ClientSync
  imports ClientWorld ClientProtocol
begin

text \<open>
  The transports on Arduino, \<open>src/src/Transport/ClientSync.cpp\<close> and \<open>src/src/Transport/ClientSecureSync.cpp\<close>,
  and the client classes on them, \<open>src/src/espMqttClient.cpp\<close>.
  Each wraps an object of the network library, \<open>WiFiClient\<close> or \<open>WiFiClientSecure\<close>, which is the parameter
  \<open>NetworkClient\<close>: functions that answer a call and move on the state \<open>'n\<close> of the object. \<open>nc_setNoDelay\<close>
  is \<open>setNoDelay(true)\<close> on ESP8266 and the socket option TCP_NODELAY on ESP32.
\<close>

record 'n NetworkClient =
  nc_connectIp :: "u32 \<Rightarrow> u16 \<Rightarrow> 'n \<Rightarrow> int \<times> 'n"
  nc_connectHost :: "cstring option \<Rightarrow> u16 \<Rightarrow> 'n \<Rightarrow> int \<times> 'n"
  nc_setNoDelay :: "'n \<Rightarrow> 'n"
  nc_write :: "u8 list \<Rightarrow> 'n \<Rightarrow> size_t \<times> 'n"
  nc_read :: "size_t \<Rightarrow> 'n \<Rightarrow> (u32 \<times> u8 list) \<times> 'n"
  nc_stop :: "'n \<Rightarrow> 'n"
  nc_connected :: "'n \<Rightarrow> u8 \<times> 'n"

subsection \<open>\<open>ClientSync\<close>\<close>

definition ClientSync_connectIp :: "'n NetworkClient \<Rightarrow> u32 \<Rightarrow> u16 \<Rightarrow> 'n \<Rightarrow> bool \<times> 'n" where
  "ClientSync_connectIp client ip port w =
     (let (r, w) = nc_connectIp client ip port w;
          ret = (r \<noteq> 0)
      in if ret then (ret, nc_setNoDelay client w) else (ret, w))"

definition ClientSync_connectHost :: "'n NetworkClient \<Rightarrow> cstring option \<Rightarrow> u16 \<Rightarrow> 'n \<Rightarrow> bool \<times> 'n" where
  "ClientSync_connectHost client host port w =
     (let (r, w) = nc_connectHost client host port w;
          ret = (r \<noteq> 0)
      in if ret then (ret, nc_setNoDelay client w) else (ret, w))"

definition ClientSync_write :: "'n NetworkClient \<Rightarrow> u8 list \<Rightarrow> 'n \<Rightarrow> size_t \<times> 'n" where
  "ClientSync_write client buf w = nc_write client buf w"

definition ClientSync_read :: "'n NetworkClient \<Rightarrow> size_t \<Rightarrow> 'n \<Rightarrow> (u32 \<times> u8 list) \<times> 'n" where
  "ClientSync_read client n w = nc_read client n w"

definition ClientSync_stop :: "'n NetworkClient \<Rightarrow> 'n \<Rightarrow> 'n" where
  "ClientSync_stop client w = nc_stop client w"

definition ClientSync_connected :: "'n NetworkClient \<Rightarrow> 'n \<Rightarrow> bool \<times> 'n" where
  "ClientSync_connected client w = (let (r, w) = nc_connected client w in (r \<noteq> 0, w))"

definition ClientSync_disconnected :: "'n NetworkClient \<Rightarrow> 'n \<Rightarrow> bool \<times> 'n" where
  "ClientSync_disconnected client w = (let (r, w) = nc_connected client w in (\<not> (r \<noteq> 0), w))"

subsection \<open>\<open>ClientSecureSync\<close>\<close>

definition ClientSecureSync_connectIp :: "'n NetworkClient \<Rightarrow> u32 \<Rightarrow> u16 \<Rightarrow> 'n \<Rightarrow> bool \<times> 'n" where
  "ClientSecureSync_connectIp client ip port w =
     (let (r, w) = nc_connectIp client ip port w;
          ret = (r \<noteq> 0)
      in if ret then (ret, nc_setNoDelay client w) else (ret, w))"

definition ClientSecureSync_connectHost :: "'n NetworkClient \<Rightarrow> cstring option \<Rightarrow> u16 \<Rightarrow> 'n \<Rightarrow> bool \<times> 'n" where
  "ClientSecureSync_connectHost client host port w =
     (let (r, w) = nc_connectHost client host port w;
          ret = (r \<noteq> 0)
      in if ret then (ret, nc_setNoDelay client w) else (ret, w))"

definition ClientSecureSync_write :: "'n NetworkClient \<Rightarrow> u8 list \<Rightarrow> 'n \<Rightarrow> size_t \<times> 'n" where
  "ClientSecureSync_write client buf w = nc_write client buf w"

definition ClientSecureSync_read :: "'n NetworkClient \<Rightarrow> size_t \<Rightarrow> 'n \<Rightarrow> (u32 \<times> u8 list) \<times> 'n" where
  "ClientSecureSync_read client n w = nc_read client n w"

definition ClientSecureSync_stop :: "'n NetworkClient \<Rightarrow> 'n \<Rightarrow> 'n" where
  "ClientSecureSync_stop client w = nc_stop client w"

definition ClientSecureSync_connected :: "'n NetworkClient \<Rightarrow> 'n \<Rightarrow> bool \<times> 'n" where
  "ClientSecureSync_connected client w = (let (r, w) = nc_connected client w in (r \<noteq> 0, w))"

definition ClientSecureSync_disconnected :: "'n NetworkClient \<Rightarrow> 'n \<Rightarrow> bool \<times> 'n" where
  "ClientSecureSync_disconnected client w = (let (r, w) = nc_connected client w in (\<not> (r \<noteq> 0), w))"

subsection \<open>The clients on them\<close>

text \<open>
  \<open>espMqttClient\<close> and \<open>espMqttClientSecure\<close> (\<open>src/src/espMqttClient.cpp\<close>): a client whose \<open>_transport\<close> points
  at its member \<open>_client\<close>. Clock, memory, user code and build flags are those of \<open>base\<close>.
\<close>

definition espMqttClient_env :: "'n NetworkClient \<Rightarrow> 'n Env \<Rightarrow> 'n Env" where
  "espMqttClient_env client base = base
     \<lparr>e_connectIp := ClientSync_connectIp client, e_connectHost := ClientSync_connectHost client,
      e_write := ClientSync_write client, e_read := ClientSync_read client, e_stop := ClientSync_stop client,
      e_connected := ClientSync_connected client, e_disconnected := ClientSync_disconnected client\<rparr>"

definition espMqttClientSecure_env :: "'n NetworkClient \<Rightarrow> 'n Env \<Rightarrow> 'n Env" where
  "espMqttClientSecure_env client base = base
     \<lparr>e_connectIp := ClientSecureSync_connectIp client, e_connectHost := ClientSecureSync_connectHost client,
      e_write := ClientSecureSync_write client, e_read := ClientSecureSync_read client,
      e_stop := ClientSecureSync_stop client,
      e_connected := ClientSecureSync_connected client, e_disconnected := ClientSecureSync_disconnected client\<rparr>"

text \<open>The two transports differ in the object they wrap only.\<close>

lemma secure_same: "espMqttClientSecure_env = espMqttClient_env"
  unfolding espMqttClientSecure_env_def [abs_def] espMqttClient_env_def [abs_def]
    ClientSecureSync_connectIp_def [abs_def] ClientSync_connectIp_def [abs_def]
    ClientSecureSync_connectHost_def [abs_def] ClientSync_connectHost_def [abs_def]
    ClientSecureSync_write_def [abs_def] ClientSync_write_def [abs_def]
    ClientSecureSync_read_def [abs_def] ClientSync_read_def [abs_def]
    ClientSecureSync_stop_def [abs_def] ClientSync_stop_def [abs_def]
    ClientSecureSync_connected_def [abs_def] ClientSync_connected_def [abs_def]
    ClientSecureSync_disconnected_def [abs_def] ClientSync_disconnected_def [abs_def]
  by (rule refl)

subsection \<open>What the library promises\<close>

text \<open>
  \<open>closed w\<close> says that the object has no connection: then \<open>connected\<close> answers 0. It is so after \<open>stop\<close>,
  and only \<open>connect\<close> changes it. \<open>write\<close> and \<open>read\<close> count bytes they were given or stored. The clock and
  the allocations of \<open>base\<close> have nothing to do with it.
\<close>

definition library_ok :: "'n NetworkClient \<Rightarrow> 'n Env \<Rightarrow> ('n \<Rightarrow> bool) \<Rightarrow> bool" where
  "library_ok client base closed \<longleftrightarrow>
     (\<forall>w. closed (nc_stop client w)) \<and>
     (\<forall>w. closed w \<longrightarrow> fst (nc_connected client w) = 0 \<and> closed (snd (nc_connected client w))) \<and>
     (\<forall>w buf. closed w \<longrightarrow> closed (snd (nc_write client buf w))) \<and>
     (\<forall>w n. closed w \<longrightarrow> closed (snd (nc_read client n w))) \<and>
     (\<forall>w. closed w \<longrightarrow> closed (snd (e_clock base w)) \<and> closed (snd (e_alloc base w))) \<and>
     (\<forall>buf w. 0 < sint (fst (nc_write client buf w)) \<longrightarrow> unat (fst (nc_write client buf w)) \<le> length buf) \<and>
     (\<forall>n w. 0 < sint (fst (fst (nc_read client n w))) \<longrightarrow>
        unat (fst (fst (nc_read client n w))) \<le> length (snd (fst (nc_read client n w))))"

lemmas sync_simps = espMqttClient_env_def ClientSync_write_def ClientSync_read_def ClientSync_stop_def
  ClientSync_connected_def ClientSync_disconnected_def Let_def

lemma sync_closing: "library_ok client base closed \<Longrightarrow> closing (espMqttClient_env client base) closed"
  by unfold_locales (auto simp: library_ok_def sync_simps case_prod_unfold)

lemma sync_transport: "library_ok client base closed \<Longrightarrow> transport_ok (espMqttClient_env client base)"
  by (auto simp: library_ok_def transport_ok_def sync_simps)

text \<open>So on both transports no run faults or hangs, and a disconnected client holds no connection.\<close>

lemma sync_client_safe:
  assumes lib: "library_ok client base closed" and env: "reacts_by_calls (espMqttClient_env client base)"
    and "config_ok g" and "\<forall>a \<in> set as. valid_action a" and "closed w"
  shows "ok (run_actions (espMqttClient_env client base) as ((MqttClient_init clientId w)\<lparr>c_config := g\<rparr>))
    (\<lambda>c. client_inv c \<and> (MqttClient_disconnected c \<longrightarrow> closed (c_world c)))"
proof -
  have "rests closed ((MqttClient_init clientId w)\<lparr>c_config := g\<rparr>)"
    using assms(5) by (simp add: rests_def MqttClient_init_def)
  from closing.run_rests [OF sync_closing [OF lib] sync_transport [OF lib] env init_inv [OF assms(3)] this assms(4)]
  show ?thesis
    by (rule ok_mono) (auto simp: rests_def resting_def MqttClient_disconnected_def)
qed

text \<open>TCP_NODELAY is set exactly when the connection was made.\<close>

lemma sync_connect:
  "nc_connectIp client ip port w = (r, w') \<Longrightarrow>
    ClientSync_connectIp client ip port w = (if r = 0 then (False, w') else (True, nc_setNoDelay client w'))"
  "nc_connectHost client host port w = (r, w') \<Longrightarrow>
    ClientSync_connectHost client host port w = (if r = 0 then (False, w') else (True, nc_setNoDelay client w'))"
  by (simp_all add: ClientSync_connectIp_def ClientSync_connectHost_def)

subsection \<open>The setters of \<open>espMqttClientSecure\<close>\<close>

text \<open>
  What the TLS library's client has beyond \<open>NetworkClient\<close>: its settings, those of ESP8266 up to
  \<open>tls_setCertStore\<close>, and \<open>setInsecure\<close> with the rest on ESP32. Its objects are known by their address.
\<close>

type_synonym pointer = nat

record 'n TlsClient = "'n NetworkClient" +
  tls_setInsecure :: "'n \<Rightarrow> 'n"
  tls_setBufferSizes :: "int \<Rightarrow> int \<Rightarrow> 'n \<Rightarrow> 'n"
  tls_setFingerprint :: "u8 list \<Rightarrow> 'n \<Rightarrow> 'n"
  tls_setTrustAnchors :: "pointer \<Rightarrow> 'n \<Rightarrow> 'n"
  tls_setClientRSACert :: "pointer \<Rightarrow> pointer \<Rightarrow> 'n \<Rightarrow> 'n"
  tls_setClientECCert :: "pointer \<Rightarrow> pointer \<Rightarrow> u32 \<Rightarrow> u32 \<Rightarrow> 'n \<Rightarrow> 'n"
  tls_setCertStore :: "pointer \<Rightarrow> 'n \<Rightarrow> 'n"
  tls_setCACert :: "cstring option \<Rightarrow> 'n \<Rightarrow> 'n"
  tls_setCertificate :: "cstring option \<Rightarrow> 'n \<Rightarrow> 'n"
  tls_setPrivateKey :: "cstring option \<Rightarrow> 'n \<Rightarrow> 'n"
  tls_setPreSharedKey :: "cstring option \<Rightarrow> cstring option \<Rightarrow> 'n \<Rightarrow> 'n"

text \<open>Each setter passes its arguments on to the object of the library and returns the client.\<close>

definition espMqttClientSecure_setInsecure ::
    "'n TlsClient \<Rightarrow> 'n Client \<Rightarrow> 'n Client" where
  "espMqttClientSecure_setInsecure tls c = c\<lparr>c_world := tls_setInsecure tls (c_world c)\<rparr>"

definition espMqttClientSecure_setBufferSizes ::
    "'n TlsClient \<Rightarrow> int \<Rightarrow> int \<Rightarrow> 'n Client \<Rightarrow> 'n Client" where
  "espMqttClientSecure_setBufferSizes tls rx tx c = c\<lparr>c_world := tls_setBufferSizes tls rx tx (c_world c)\<rparr>"

definition espMqttClientSecure_setFingerprint ::
    "'n TlsClient \<Rightarrow> u8 list \<Rightarrow> 'n Client \<Rightarrow> 'n Client" where
  "espMqttClientSecure_setFingerprint tls fingerprint c = c\<lparr>c_world := tls_setFingerprint tls fingerprint (c_world c)\<rparr>"

definition espMqttClientSecure_setTrustAnchors ::
    "'n TlsClient \<Rightarrow> pointer \<Rightarrow> 'n Client \<Rightarrow> 'n Client" where
  "espMqttClientSecure_setTrustAnchors tls ta c = c\<lparr>c_world := tls_setTrustAnchors tls ta (c_world c)\<rparr>"

definition espMqttClientSecure_setClientRSACert ::
    "'n TlsClient \<Rightarrow> pointer \<Rightarrow> pointer \<Rightarrow> 'n Client \<Rightarrow> 'n Client" where
  "espMqttClientSecure_setClientRSACert tls cert sk c = c\<lparr>c_world := tls_setClientRSACert tls cert sk (c_world c)\<rparr>"

definition espMqttClientSecure_setClientECCert ::
    "'n TlsClient \<Rightarrow> pointer \<Rightarrow> pointer \<Rightarrow> u32 \<Rightarrow> u32 \<Rightarrow> 'n Client \<Rightarrow> 'n Client" where
  "espMqttClientSecure_setClientECCert tls cert sk allowed_usages cert_issuer_key_type c =
     c\<lparr>c_world := tls_setClientECCert tls cert sk allowed_usages cert_issuer_key_type (c_world c)\<rparr>"

definition espMqttClientSecure_setCertStore ::
    "'n TlsClient \<Rightarrow> pointer \<Rightarrow> 'n Client \<Rightarrow> 'n Client" where
  "espMqttClientSecure_setCertStore tls certStore c = c\<lparr>c_world := tls_setCertStore tls certStore (c_world c)\<rparr>"

definition espMqttClientSecure_setCACert ::
    "'n TlsClient \<Rightarrow> cstring option \<Rightarrow> 'n Client \<Rightarrow> 'n Client" where
  "espMqttClientSecure_setCACert tls rootCA c = c\<lparr>c_world := tls_setCACert tls rootCA (c_world c)\<rparr>"

definition espMqttClientSecure_setCertificate ::
    "'n TlsClient \<Rightarrow> cstring option \<Rightarrow> 'n Client \<Rightarrow> 'n Client" where
  "espMqttClientSecure_setCertificate tls clientCa c = c\<lparr>c_world := tls_setCertificate tls clientCa (c_world c)\<rparr>"

definition espMqttClientSecure_setPrivateKey ::
    "'n TlsClient \<Rightarrow> cstring option \<Rightarrow> 'n Client \<Rightarrow> 'n Client" where
  "espMqttClientSecure_setPrivateKey tls privateKey c = c\<lparr>c_world := tls_setPrivateKey tls privateKey (c_world c)\<rparr>"

definition espMqttClientSecure_setPreSharedKey ::
    "'n TlsClient \<Rightarrow> cstring option \<Rightarrow> cstring option \<Rightarrow> 'n Client \<Rightarrow> 'n Client" where
  "espMqttClientSecure_setPreSharedKey tls pskIdent psKey c = c\<lparr>c_world := tls_setPreSharedKey tls pskIdent psKey (c_world c)\<rparr>"

text \<open>A setting, as a value, and its setter.\<close>

datatype Setting =
    Insecure
  | BufferSizes int int
  | Fingerprint "u8 list"
  | TrustAnchors pointer
  | ClientRSACert pointer pointer
  | ClientECCert pointer pointer u32 u32
  | CertStore pointer
  | CACert "cstring option"
  | Certificate "cstring option"
  | PrivateKey "cstring option"
  | PreSharedKey "cstring option" "cstring option"

fun configure :: "'n TlsClient \<Rightarrow> Setting \<Rightarrow> 'n Client \<Rightarrow> 'n Client" where
  "configure tls Insecure = espMqttClientSecure_setInsecure tls"
| "configure tls (BufferSizes rx tx) = espMqttClientSecure_setBufferSizes tls rx tx"
| "configure tls (Fingerprint fingerprint) = espMqttClientSecure_setFingerprint tls fingerprint"
| "configure tls (TrustAnchors ta) = espMqttClientSecure_setTrustAnchors tls ta"
| "configure tls (ClientRSACert cert sk) = espMqttClientSecure_setClientRSACert tls cert sk"
| "configure tls (ClientECCert cert sk allowed_usages cert_issuer_key_type) = espMqttClientSecure_setClientECCert tls cert sk allowed_usages cert_issuer_key_type"
| "configure tls (CertStore certStore) = espMqttClientSecure_setCertStore tls certStore"
| "configure tls (CACert rootCA) = espMqttClientSecure_setCACert tls rootCA"
| "configure tls (Certificate clientCa) = espMqttClientSecure_setCertificate tls clientCa"
| "configure tls (PrivateKey privateKey) = espMqttClientSecure_setPrivateKey tls privateKey"
| "configure tls (PreSharedKey pskIdent psKey) = espMqttClientSecure_setPreSharedKey tls pskIdent psKey"

lemmas setting_defs = espMqttClientSecure_setInsecure_def espMqttClientSecure_setBufferSizes_def espMqttClientSecure_setFingerprint_def espMqttClientSecure_setTrustAnchors_def
  espMqttClientSecure_setClientRSACert_def espMqttClientSecure_setClientECCert_def espMqttClientSecure_setCertStore_def espMqttClientSecure_setCACert_def
  espMqttClientSecure_setCertificate_def espMqttClientSecure_setPrivateKey_def espMqttClientSecure_setPreSharedKey_def

lemma configure_world: "\<exists>w. configure tls x c = c\<lparr>c_world := w\<rparr>"
  by (cases x) (auto simp: setting_defs)

text \<open>
  So settings leave the client as it is, and if they keep its transport closed, as they do before the first
  connection, a secure client is safe with any of them.
\<close>

lemma secure_client_safe:
  assumes "library_ok (NetworkClient.truncate tls) base closed"
    and "reacts_by_calls (espMqttClientSecure_env (NetworkClient.truncate tls) base)"
    and "config_ok g" and "\<forall>a \<in> set as. valid_action a" and "closed w"
    and keep: "\<And>x c. closed (c_world c) \<Longrightarrow> closed (c_world (configure tls x c))"
  shows "ok (run_actions (espMqttClientSecure_env (NetworkClient.truncate tls) base) as
      (fold (configure tls) settings ((MqttClient_init clientId w)\<lparr>c_config := g\<rparr>)))
    (\<lambda>c. client_inv c \<and> (MqttClient_disconnected c \<longrightarrow> closed (c_world c)))"
proof -
  have settings: "\<exists>w'. fold (configure tls) settings c = c\<lparr>c_world := w'\<rparr>" for c
  proof (induction settings arbitrary: c)
    case Nil
    show ?case by (cases c) (simp add: exI)
  next
    case (Cons x xs)
    obtain w1 where w1: "configure tls x c = c\<lparr>c_world := w1\<rparr>" using configure_world [of tls x c] by (elim exE)
    obtain w2 where "fold (configure tls) xs (c\<lparr>c_world := w1\<rparr>) = c\<lparr>c_world := w1, c_world := w2\<rparr>"
      using Cons.IH by blast
    with w1 show ?case by auto
  qed
  obtain w' where w': "fold (configure tls) settings ((MqttClient_init clientId w)\<lparr>c_config := g\<rparr>) =
      (MqttClient_init clientId w')\<lparr>c_config := g\<rparr>"
    using settings [of "(MqttClient_init clientId w)\<lparr>c_config := g\<rparr>"] by (auto simp: MqttClient_init_def)
  have "closed (c_world (fold (configure tls) settings c))" if "closed (c_world c)" for c
    using that by (induction settings arbitrary: c) (simp_all add: keep)
  from this [of "(MqttClient_init clientId w)\<lparr>c_config := g\<rparr>"] w' assms(5) have "closed w'"
    by (simp add: MqttClient_init_def)
  with sync_client_safe [OF assms(1) assms(2) [unfolded secure_same] assms(3,4)] w' show ?thesis
    by (simp add: secure_same)
qed

end
