(* ===== verification/MemoryPool.thy ===== *)
theory MemoryPool
  imports Prelude
begin

text \<open>
  What the two memory pools of \<open>src/src/MemoryPool/src\<close> share: paths through a buffer of cells that
  hold links, the contract of an allocator, and a client of it that allocates, frees and writes to
  what it owns. A pool is a list of cells, an address is an index into it; the contents of a cell
  that the client has written are arbitrary.
\<close>

subsection \<open>Paths\<close>

fun path :: "('c \<Rightarrow> nat option) \<Rightarrow> 'c list \<Rightarrow> nat option \<Rightarrow> nat list \<Rightarrow> nat option \<Rightarrow> bool" where
  "path link buf p [] q \<longleftrightarrow> p = q"
| "path link buf p (a # as) q \<longleftrightarrow> p = Some a \<and> a < length buf \<and> path link buf (link (buf ! a)) as q"

lemma path_append: "path link buf p (as @ bs) q \<longleftrightarrow> (\<exists>r. path link buf p as r \<and> path link buf r bs q)"
  by (induction as arbitrary: p) auto

lemma path_start: "path link buf p as None \<Longrightarrow> p = (case as of [] \<Rightarrow> None | a # _ \<Rightarrow> Some a)"
  by (cases as) auto

lemma path_update [simp]: "u \<notin> set as \<Longrightarrow> path link (buf[u := v]) p as q = path link buf p as q"
  by (induction as arbitrary: p) auto

lemma path_bound: "path link buf p as q \<Longrightarrow> a \<in> set as \<Longrightarrow> a < length buf"
  by (induction as arbitrary: p) auto

text \<open>A link in the middle of a path leads to what follows.\<close>

lemma path_link:
  assumes "path link buf p (as @ a # bs) None"
  shows "a < length buf" and "link (buf ! a) = (case bs of [] \<Rightarrow> None | b # _ \<Rightarrow> Some b)"
proof -
  from assms have "a < length buf \<and> path link buf (link (buf ! a)) bs None"
    by (auto simp: path_append)
  then show "a < length buf" "link (buf ! a) = (case bs of [] \<Rightarrow> None | b # _ \<Rightarrow> Some b)"
    using path_start by auto
qed

subsection \<open>Clients of an allocator\<close>

text \<open>
  An allocation is named by its position among those that are still owned; a write goes to one of
  the cells that were asked for.
\<close>

datatype 'c pool_op =
    Malloc nat
  | Free nat
  | Store nat nat 'c

fun pool_run ::
    "(nat \<Rightarrow> 's \<Rightarrow> (nat option \<times> 's) option) \<Rightarrow> (nat option \<Rightarrow> 's \<Rightarrow> 's option) \<Rightarrow>
     (nat \<Rightarrow> 'c \<Rightarrow> 's \<Rightarrow> 's option) \<Rightarrow> (nat \<Rightarrow> nat) \<Rightarrow>
     'c pool_op list \<Rightarrow> (nat \<times> nat) list \<Rightarrow> 's \<Rightarrow> ((nat \<times> nat) list \<times> 's) option" where
  "pool_run malloc free store cells [] owned s = Some (owned, s)"
| "pool_run malloc free store cells (Malloc n # ops) owned s = do {
     (p, s) \<leftarrow> malloc n s;
     pool_run malloc free store cells ops (case p of None \<Rightarrow> owned | Some a \<Rightarrow> owned @ [(a, cells n)]) s
   }"
| "pool_run malloc free store cells (Free k # ops) owned s =
     (if k < length owned then do {
        s \<leftarrow> free (Some (fst (owned ! k))) s;
        pool_run malloc free store cells ops (take k owned @ drop (Suc k) owned) s
      }
      else pool_run malloc free store cells ops owned s)"
| "pool_run malloc free store cells (Store k i v # ops) owned s =
     (if k < length owned \<and> i < snd (owned ! k) then do {
        s \<leftarrow> store (fst (owned ! k) + i) v s;
        pool_run malloc free store cells ops owned s
      }
      else pool_run malloc free store cells ops owned s)"

text \<open>Two allocations do not overlap; a live allocation has at least the cells that were asked for.\<close>

definition apart :: "nat \<times> nat \<Rightarrow> nat \<times> nat \<Rightarrow> bool" where
  "apart = (\<lambda>(a, m) (b, n). a + m \<le> b \<or> b + n \<le> a)"

definition owns :: "(nat \<times> nat) list \<Rightarrow> (nat \<rightharpoonup> nat) \<Rightarrow> bool" where
  "owns owned L \<longleftrightarrow> distinct (map fst owned) \<and> dom L = set (map fst owned) \<and>
     (\<forall>x \<in> set owned. \<exists>m. L (fst x) = Some m \<and> snd x \<le> m)"

lemma owns_nth: "owns owned L \<Longrightarrow> k < length owned \<Longrightarrow> \<exists>m. L (fst (owned ! k)) = Some m \<and> snd (owned ! k) \<le> m"
  by (simp add: owns_def)

lemma owns_malloc:
  assumes "owns owned L" and "L a = None" and "n \<le> m"
  shows "owns (owned @ [(a, n)]) (L(a \<mapsto> m))"
proof -
  have new: "a \<notin> set (map fst owned)" using assms(1,2) by (metis domIff owns_def)
  then have "fst x \<noteq> a" if "x \<in> set owned" for x using that by auto
  with new assms show ?thesis by (simp add: owns_def)
qed

lemma owns_free:
  assumes "owns owned L" and "k < length owned"
  shows "owns (take k owned @ drop (Suc k) owned) (L(fst (owned ! k) := None))"
proof -
  define as x bs where "as = take k owned" and "x = owned ! k" and "bs = drop (Suc k) owned"
  have owned: "owned = as @ x # bs" using assms(2) by (simp add: as_def x_def bs_def id_take_nth_drop)
  have new: "fst x \<notin> set (map fst (as @ bs))" using assms(1) by (auto simp: owned owns_def)
  then have "fst y \<noteq> fst x" if "y \<in> set (as @ bs)" for y
    using that by (metis image_eqI list.set_map)
  moreover have "set (map fst owned) - {fst x} = set (map fst (as @ bs))"
    using new by (simp add: owned del: set_map)
  ultimately show ?thesis
    using assms(1) unfolding as_def [symmetric] x_def [symmetric] bs_def [symmetric]
    by (simp add: owns_def owned)
qed

subsection \<open>The contract\<close>

locale allocator =
  fixes live :: "'s \<Rightarrow> (nat \<rightharpoonup> nat) \<Rightarrow> bool"
    and malloc :: "nat \<Rightarrow> 's \<Rightarrow> (nat option \<times> 's) option"
    and free :: "nat option \<Rightarrow> 's \<Rightarrow> 's option"
    and store :: "nat \<Rightarrow> 'c \<Rightarrow> 's \<Rightarrow> 's option"
    and cells :: "nat \<Rightarrow> nat"
  assumes live_apart: "live s L \<Longrightarrow> L a = Some m \<Longrightarrow> L b = Some n \<Longrightarrow> a \<noteq> b \<Longrightarrow> apart (a, m) (b, n)"
    and malloc_live: "live s L \<Longrightarrow> \<exists>p s'. malloc n s = Some (p, s') \<and>
      (case p of None \<Rightarrow> live s' L | Some a \<Rightarrow> L a = None \<and> (\<exists>m \<ge> cells n. live s' (L(a \<mapsto> m))))"
    and free_live: "live s L \<Longrightarrow> L a = Some m \<Longrightarrow> \<exists>s'. free (Some a) s = Some s' \<and> live s' (L(a := None))"
    and store_live: "live s L \<Longrightarrow> L a = Some m \<Longrightarrow> i < m \<Longrightarrow> \<exists>s'. store (a + i) v s = Some s' \<and> live s' L"
begin

text \<open>No client that keeps to what it owns makes the pool fault, and what it owns never overlaps.\<close>

lemma run_live:
  "live s L \<Longrightarrow> owns owned L \<Longrightarrow>
    ok (pool_run malloc free store cells ops owned s) (\<lambda>(owned', s'). \<exists>L'. live s' L' \<and> owns owned' L')"
proof (induction ops arbitrary: owned s L)
  case Nil
  then show ?case by (auto simp: wp)
next
  case (Cons op ops)
  show ?case
  proof (cases op)
    case (Malloc n)
    obtain p s' where m: "malloc n s = Some (p, s')"
      and p: "case p of None \<Rightarrow> live s' L | Some a \<Rightarrow> L a = None \<and> (\<exists>m \<ge> cells n. live s' (L(a \<mapsto> m)))"
      using malloc_live [OF Cons.prems(1)] by blast
    show ?thesis
    proof (cases p)
      case None
      with Malloc m p Cons.IH [of s' L owned] Cons.prems(2) show ?thesis by simp
    next
      case (Some a)
      with p obtain k where k: "L a = None" "cells n \<le> k" "live s' (L(a \<mapsto> k))" by auto
      have "ok (pool_run malloc free store cells ops (owned @ [(a, cells n)]) s')
          (\<lambda>(owned', s'). \<exists>L'. live s' L' \<and> owns owned' L')"
        by (rule Cons.IH [OF k(3) owns_malloc [OF Cons.prems(2) k(1,2)]])
      with Malloc m Some show ?thesis by simp
    qed
  next
    case (Free k)
    show ?thesis
    proof (cases "k < length owned")
      case True
      obtain m where "L (fst (owned ! k)) = Some m" using owns_nth [OF Cons.prems(2) True] by blast
      from free_live [OF Cons.prems(1) this] obtain s' where "free (Some (fst (owned ! k))) s = Some s'"
        "live s' (L(fst (owned ! k) := None))" by blast
      with Free True Cons.IH [OF _ owns_free [OF Cons.prems(2) True], of s'] show ?thesis
        by (simp del: fun_upd_apply)
    qed (use Free Cons in simp)
  next
    case (Store k i v)
    show ?thesis
    proof (cases "k < length owned \<and> i < snd (owned ! k)")
      case True
      then obtain m where "L (fst (owned ! k)) = Some m" "i < m"
        using owns_nth [OF Cons.prems(2)] by fastforce
      from store_live [OF Cons.prems(1) this, of v] obtain s' where
        "store (fst (owned ! k) + i) v s = Some s'" "live s' L" by blast
      with Store True Cons.IH [OF _ Cons.prems(2)] show ?thesis by simp
    qed (use Store Cons in auto)
  qed
qed

lemma owned_apart:
  assumes "live s L" and "owns owned L" and "i < length owned" and "j < length owned" and "i \<noteq> j"
  shows "apart (owned ! i) (owned ! j)"
proof -
  obtain m n where mn: "L (fst (owned ! i)) = Some m" "snd (owned ! i) \<le> m"
    "L (fst (owned ! j)) = Some n" "snd (owned ! j) \<le> n"
    using owns_nth [OF assms(2)] assms(3,4) by metis
  have "fst (owned ! i) \<noteq> fst (owned ! j)"
    using assms(2-5) nth_eq_iff_index_eq [of "map fst owned" i j] by (simp add: owns_def)
  from live_apart [OF assms(1) mn(1,3) this] mn(2,4) show ?thesis
    by (auto simp: apart_def split: prod.splits)
qed

end

end
