(* ===== verification/FixedPool.thy ===== *)
theory FixedPool
  imports MemoryPool
begin

text \<open>
  \<open>src/src/MemoryPool/src/Fixed.h\<close>: a pool of blocks of one size. A block is represented by its first
  word, where a free block keeps the link to the next one; an address is the number of the block,
  so that \<open>b + adjustedBlocksize\<close> is the next number. The rest of a block is never accessed by the
  pool.
\<close>

record Fixed =
  f_buffer :: "nat option list"
  f_head :: "nat option"

text \<open>The constructor: the loop runs \<open>nrBlocks - 1\<close> times, and ends with \<open>b\<close> at the last block.\<close>

fun Fixed_link :: "nat \<Rightarrow> nat \<Rightarrow> nat option list \<Rightarrow> (nat \<times> nat option list) option" where
  "Fixed_link 0 b buf = Some (b, buf)"
| "Fixed_link (Suc i) b buf = do {
     buf \<leftarrow> poke buf b (Some (b + 1));
     Fixed_link i (b + 1) buf
   }"

definition Fixed_init :: "nat \<Rightarrow> Fixed option" where
  "Fixed_init nrBlocks = do {
     (b, buf) \<leftarrow> Fixed_link (nrBlocks - 1) 0 (replicate nrBlocks None);
     buf \<leftarrow> poke buf b None;
     Some \<lparr>f_buffer = buf, f_head = Some 0\<rparr>
   }"

definition Fixed_malloc :: "Fixed \<Rightarrow> (nat option \<times> Fixed) option" where
  "Fixed_malloc s =
     (case f_head s of
        Some retVal \<Rightarrow> do {
          link \<leftarrow> peek (f_buffer s) retVal;
          Some (Some retVal, s\<lparr>f_head := link\<rparr>)
        }
      | None \<Rightarrow> Some (None, s))"

definition Fixed_free :: "nat option \<Rightarrow> Fixed \<Rightarrow> Fixed option" where
  "Fixed_free ptr s =
     (case ptr of
        None \<Rightarrow> Some s
      | Some p \<Rightarrow> do {
          buf \<leftarrow> poke (f_buffer s) p (f_head s);
          Some (s\<lparr>f_buffer := buf, f_head := Some p\<rparr>)
        })"

text \<open>\<open>freeMemory\<close>: the loop along the links.\<close>

partial_function (option) Fixed_count :: "nat \<Rightarrow> nat option list \<Rightarrow> nat option \<Rightarrow> nat \<Rightarrow> nat option" where
  "Fixed_count blocksize buf i retVal =
     (case i of
        None \<Rightarrow> Some retVal
      | Some b \<Rightarrow> do {
          link \<leftarrow> peek buf b;
          Fixed_count blocksize buf link (retVal + blocksize)
        })"

declare Fixed_count.simps [code]

definition Fixed_freeMemory :: "nat \<Rightarrow> Fixed \<Rightarrow> nat option" where
  "Fixed_freeMemory blocksize s = Fixed_count blocksize (f_buffer s) (f_head s) 0"

text \<open>The user of a block writes to it, its first word included.\<close>

definition Fixed_store :: "nat \<Rightarrow> nat option \<Rightarrow> Fixed \<Rightarrow> Fixed option" where
  "Fixed_store p v s = map_option (\<lambda>buf. s\<lparr>f_buffer := buf\<rparr>) (poke (f_buffer s) p v)"

subsection \<open>The free list\<close>

text \<open>The blocks are those on the free list and those in use, each once; a block is one cell.\<close>

definition Fixed_models :: "nat \<Rightarrow> Fixed \<Rightarrow> (nat \<rightharpoonup> nat) \<Rightarrow> bool" where
  "Fixed_models n s L \<longleftrightarrow> length (f_buffer s) = n \<and>
     (\<exists>fl. path (\<lambda>l. l) (f_buffer s) (f_head s) fl None \<and> distinct fl \<and> set fl \<inter> dom L = {} \<and>
        set fl \<union> dom L = {..<n} \<and> (\<forall>a \<in> dom L. L a = Some 1))"

lemma Fixed_link_path:
  "b + i < length buf \<Longrightarrow> \<exists>buf'. Fixed_link i b buf = Some (b + i, buf') \<and> length buf' = length buf \<and>
    path (\<lambda>l. l) buf' (Some b) [b..<b + i] (Some (b + i)) \<and> (\<forall>a < b. buf' ! a = buf ! a)"
proof (induction i arbitrary: b buf)
  case 0
  then show ?case by simp
next
  case (Suc i)
  then obtain buf' where buf': "Fixed_link i (b + 1) (buf[b := Some (b + 1)]) = Some (b + 1 + i, buf')"
    "length buf' = length buf" "path (\<lambda>l. l) buf' (Some (b + 1)) [b + 1..<b + 1 + i] (Some (b + 1 + i))"
    "\<forall>a < b + 1. buf' ! a = buf[b := Some (b + 1)] ! a"
    using Suc.IH [of "b + 1" "buf[b := Some (b + 1)]"] by auto
  have "[b..<b + Suc i] = b # [b + 1..<b + 1 + i]" by (simp add: upt_conv_Cons)
  with buf' Suc.prems show ?case by auto
qed

lemma Fixed_init_models:
  assumes "0 < n"
  shows "\<exists>s. Fixed_init n = Some s \<and> Fixed_models n s Map.empty"
proof -
  obtain buf where buf: "Fixed_link (n - 1) 0 (replicate n None) = Some (n - 1, buf)" "length buf = n"
    "path (\<lambda>l. l) buf (Some 0) [0..<n - 1] (Some (n - 1))"
    using Fixed_link_path [of 0 "n - 1" "replicate n None"] assms by auto
  have "path (\<lambda>l. l) (buf[n - 1 := None]) (Some 0) ([0..<n - 1] @ [n - 1]) None"
    using buf assms by (auto simp: path_append)
  moreover have "[0..<n - 1] @ [n - 1] = [0..<n]" using assms by (cases n) simp_all
  ultimately show ?thesis
    using buf assms by (auto simp: Fixed_init_def Fixed_models_def intro!: exI [of _ "[0..<n]"])
qed

lemma Fixed_malloc_models:
  assumes "Fixed_models n s L"
  shows "\<exists>p s'. Fixed_malloc s = Some (p, s') \<and>
    (case p of None \<Rightarrow> Fixed_models n s' L \<and> dom L = {..<n}
     | Some a \<Rightarrow> L a = None \<and> Fixed_models n s' (L(a \<mapsto> 1)))"
proof -
  obtain fl where fl: "path (\<lambda>l. l) (f_buffer s) (f_head s) fl None" "distinct fl" "set fl \<inter> dom L = {}"
    "set fl \<union> dom L = {..<n}" "\<forall>a \<in> dom L. L a = Some 1" "length (f_buffer s) = n"
    using assms by (auto simp: Fixed_models_def)
  show ?thesis
  proof (cases fl)
    case Nil
    with fl have "f_head s = None" "dom L = {..<n}" by simp_all
    with assms show ?thesis by (simp add: Fixed_malloc_def)
  next
    case (Cons a as)
    with fl have head: "f_head s = Some a" "a < length (f_buffer s)" "path (\<lambda>l. l) (f_buffer s) (f_buffer s ! a) as None"
      and a: "a \<notin> dom L" "a \<notin> set as" by auto
    have "Fixed_models n (s\<lparr>f_head := f_buffer s ! a\<rparr>) (L(a \<mapsto> 1))"
      unfolding Fixed_models_def using fl head(3) a Cons by (intro conjI exI [of _ as]) auto
    with head a show ?thesis by (simp add: Fixed_malloc_def domIff)
  qed
qed

lemma Fixed_free_models:
  assumes "Fixed_models n s L" and "L a = Some m"
  shows "\<exists>s'. Fixed_free (Some a) s = Some s' \<and> Fixed_models n s' (L(a := None)) \<and> f_head s' = Some a"
proof -
  obtain fl where fl: "path (\<lambda>l. l) (f_buffer s) (f_head s) fl None" "distinct fl" "set fl \<inter> dom L = {}"
    "set fl \<union> dom L = {..<n}" "\<forall>a \<in> dom L. L a = Some 1" "length (f_buffer s) = n"
    using assms by (auto simp: Fixed_models_def)
  have a: "a \<notin> set fl" "a < n" using assms(2) fl(3,4) by auto
  have "Fixed_models n (s\<lparr>f_buffer := (f_buffer s)[a := f_head s], f_head := Some a\<rparr>) (L(a := None))"
    unfolding Fixed_models_def using fl a by (intro conjI exI [of _ "a # fl"]) auto
  with a fl(6) show ?thesis by (simp add: Fixed_free_def)
qed

lemma Fixed_store_models:
  assumes "Fixed_models n s L" and "L a = Some m"
  shows "\<exists>s'. Fixed_store a v s = Some s' \<and> Fixed_models n s' L"
proof -
  obtain fl where fl: "path (\<lambda>l. l) (f_buffer s) (f_head s) fl None" "distinct fl" "set fl \<inter> dom L = {}"
    "set fl \<union> dom L = {..<n}" "\<forall>a \<in> dom L. L a = Some 1" "length (f_buffer s) = n"
    using assms by (auto simp: Fixed_models_def)
  have a: "a \<notin> set fl" "a < n" using assms(2) fl(3,4) by auto
  have "Fixed_models n (s\<lparr>f_buffer := (f_buffer s)[a := v]\<rparr>) L"
    unfolding Fixed_models_def using fl a by (intro conjI exI [of _ fl]) auto
  with a fl(6) show ?thesis by (simp add: Fixed_store_def)
qed

lemma Fixed_count_path:
  "path (\<lambda>l. l) buf p fl None \<Longrightarrow> Fixed_count k buf p r = Some (r + k * length fl)"
  by (induction fl arbitrary: p r) (subst Fixed_count.simps, auto)+

lemma Fixed_freeMemory_models:
  assumes "Fixed_models n s L"
  shows "Fixed_freeMemory k s = Some (k * (n - card (dom L)))"
proof -
  obtain fl where fl: "path (\<lambda>l. l) (f_buffer s) (f_head s) fl None" "distinct fl" "set fl \<inter> dom L = {}"
    "set fl \<union> dom L = {..<n}"
    using assms by (auto simp: Fixed_models_def)
  then have "n = card (set fl) + card (dom L)"
    by (metis card_Un_disjoint card_lessThan finite_Un finite_lessThan)
  then show ?thesis
    using Fixed_count_path [OF fl(1), of k 0] distinct_card [OF fl(2)] by (simp add: Fixed_freeMemory_def)
qed

lemma Fixed_models_one: "Fixed_models n s L \<Longrightarrow> L a = Some m \<Longrightarrow> m = 1"
  unfolding Fixed_models_def by (metis domI option.inject)

interpretation fixed: allocator "Fixed_models n" "\<lambda>_. Fixed_malloc" Fixed_free Fixed_store "\<lambda>_. 1" for n
proof (unfold_locales, goal_cases)
  case (1 s L a m b k)
  then have "m = 1" "k = 1" using Fixed_models_one by blast+
  with 1(4) show ?case by (auto simp: apart_def)
next
  case (2 s L k)
  obtain p s' where "Fixed_malloc s = Some (p, s')" and "case p of None \<Rightarrow> Fixed_models n s' L \<and> dom L = {..<n}
      | Some a \<Rightarrow> L a = None \<and> Fixed_models n s' (L(a \<mapsto> 1))"
    using Fixed_malloc_models [OF 2] by blast
  then show ?case by (cases p) (auto simp del: fun_upd_apply)
next
  case (3 s L a m)
  then show ?case using Fixed_free_models by blast
next
  case (4 s L a m i v)
  then have "i = 0" using Fixed_models_one by fastforce
  with 4 show ?case using Fixed_store_models by simp
qed

subsection \<open>Property\<close>

text \<open>C33: The fixed pool never reads or writes outside its buffer and never hands out a block that is
  still owned, whatever a client stores in the blocks it owns and in whatever order it allocates and
  frees: \<open>freeMemory\<close> is always the number of blocks that are not owned times the block size, and an
  allocation fails only when there are none.\<close>

theorem fixed_pool_safe:
  assumes "0 < nrBlocks"
  shows "\<exists>s owned s'. Fixed_init nrBlocks = Some s \<and>
    pool_run (\<lambda>_. Fixed_malloc) Fixed_free Fixed_store (\<lambda>_. 1) ops [] s = Some (owned, s') \<and>
    distinct (map fst owned) \<and> fst ` set owned \<subseteq> {..<nrBlocks} \<and>
    Fixed_freeMemory blocksize s' = Some (blocksize * (nrBlocks - length owned)) \<and>
    (\<exists>p s''. Fixed_malloc s' = Some (p, s'') \<and> (p = None \<longleftrightarrow> length owned = nrBlocks))"
proof -
  obtain s where s: "Fixed_init nrBlocks = Some s" "Fixed_models nrBlocks s Map.empty"
    using Fixed_init_models [OF assms] by blast
  have "owns [] Map.empty" by (simp add: owns_def)
  from fixed.run_live [OF s(2) this, of ops] obtain owned s' L where
    run: "pool_run (\<lambda>_. Fixed_malloc) Fixed_free Fixed_store (\<lambda>_. 1) ops [] s = Some (owned, s')"
    and L: "Fixed_models nrBlocks s' L" "owns owned L"
    by (auto simp: ok_def)
  have d: "distinct (map fst owned)" "dom L = fst ` set owned" using L(2) by (simp_all add: owns_def)
  then have card: "card (dom L) = length owned" by (metis distinct_card length_map list.set_map)
  have sub: "dom L \<subseteq> {..<nrBlocks}" using L(1) by (auto simp: Fixed_models_def)
  obtain p s'' where m: "Fixed_malloc s' = Some (p, s'')"
    "case p of None \<Rightarrow> Fixed_models nrBlocks s'' L \<and> dom L = {..<nrBlocks} | Some a \<Rightarrow> L a = None \<and> Fixed_models nrBlocks s'' (L(a \<mapsto> 1))"
    using Fixed_malloc_models [OF L(1)] by blast
  have "p = None \<longleftrightarrow> length owned = nrBlocks"
  proof (cases p)
    case None
    then show ?thesis using m(2) card by simp
  next
    case (Some a)
    then have "a < nrBlocks" "a \<notin> dom L" using m(2) by (auto simp: Fixed_models_def domIff)
    then have "dom L \<subset> {..<nrBlocks}" using sub by auto
    then have "card (dom L) < nrBlocks" using psubset_card_mono [of "{..<nrBlocks}" "dom L"] by simp
    with Some card show ?thesis by simp
  qed
  with s(1) run d m(1) sub card Fixed_freeMemory_models [OF L(1)] show ?thesis by auto
qed

theorem fixed_pool_safe_witness:
  "\<exists>s owned s'. Fixed_init 2 = Some s \<and>
    pool_run (\<lambda>_. Fixed_malloc) Fixed_free Fixed_store (\<lambda>_. 1) [Malloc 8, Store 0 0 (Some 99), Malloc 8, Free 0] [] s =
      Some (owned, s') \<and> Fixed_freeMemory 8 s' = Some (8 * (2 - length owned))"
  using fixed_pool_safe [of 2 "[Malloc 8, Store 0 0 (Some 99), Malloc 8, Free 0]" 8] by force

end
