(* ===== verification/VariablePool.thy ===== *)
theory VariablePool
  imports MemoryPool
begin

text \<open>
  \<open>src/src/MemoryPool/src/Variable.h\<close>: a pool of blocks of any size. The buffer is seen as an array
  of \<open>BlockHeader\<close>s, the unit in which the code computes: every block starts with its header, and
  what a user has written to the units behind it reads as an arbitrary header. Pointers are indices
  into this array, and \<open>k\<close> is \<open>sizeof(BlockHeader)\<close>. All sizes are at most the length of the buffer, so
  that no sum of them wraps.
\<close>

record BlockHeader =
  h_next :: "nat option"
  h_size :: nat

record Variable =
  v_buffer :: "BlockHeader list"
  v_head :: "nat option"

text \<open>Rounding up to whole headers.\<close>

definition units :: "nat \<Rightarrow> nat \<Rightarrow> nat" where
  "units k n = n div k + (if n mod k \<noteq> 0 then 1 else 0)"

definition Variable_init :: "nat \<Rightarrow> nat \<Rightarrow> nat \<Rightarrow> Variable option" where
  "Variable_init k nrBlocks blocksize = do {
     let nrBlocksToAlloc = nrBlocks * (units k blocksize + 1);
     buf \<leftarrow> poke (replicate nrBlocksToAlloc \<lparr>h_next = None, h_size = 0\<rparr>) 0
       \<lparr>h_next = None, h_size = nrBlocksToAlloc\<rparr>;
     Some \<lparr>v_buffer = buf, v_head = Some 0\<rparr>
   }"

definition setNext :: "nat \<Rightarrow> nat option \<Rightarrow> BlockHeader list \<Rightarrow> BlockHeader list option" where
  "setNext a p buf = do { h \<leftarrow> peek buf a; poke buf a (h\<lparr>h_next := p\<rparr>) }"

definition setSize :: "nat \<Rightarrow> nat \<Rightarrow> BlockHeader list \<Rightarrow> BlockHeader list option" where
  "setSize a n buf = do { h \<leftarrow> peek buf a; poke buf a (h\<lparr>h_size := n\<rparr>) }"

definition setNextIf :: "nat option \<Rightarrow> nat option \<Rightarrow> BlockHeader list \<Rightarrow> BlockHeader list option" where
  "setNextIf previousBlock p buf =
     (case previousBlock of None \<Rightarrow> Some buf | Some a \<Rightarrow> setNext a p buf)"

text \<open>The loop of \<open>malloc\<close> along the free blocks, with the required size in units, header included.\<close>

partial_function (option) Variable_search ::
    "nat \<Rightarrow> nat option \<Rightarrow> nat option \<Rightarrow> BlockHeader list \<Rightarrow> (nat option \<times> BlockHeader list) option" where
  "Variable_search required currentBlock previousBlock buf =
     (case currentBlock of
        None \<Rightarrow> Some (None, buf)
      | Some c \<Rightarrow> do {
          h \<leftarrow> peek buf c;
          if h_size h = required then do {
            buf \<leftarrow> setNextIf previousBlock (h_next h) buf;
            Some (Some c, buf)
          }
          else if h_size h > required then do {
            let newBlock = c + required;
            buf \<leftarrow> setNextIf previousBlock (Some newBlock) buf;
            h \<leftarrow> peek buf c;
            buf \<leftarrow> setNext newBlock (h_next h) buf;
            h \<leftarrow> peek buf c;
            buf \<leftarrow> setSize newBlock (h_size h - required) buf;
            buf \<leftarrow> setNext c (Some newBlock) buf;
            Some (Some c, buf)
          }
          else Variable_search required (h_next h) (Some c) buf
        })"

declare Variable_search.simps [code]

definition Variable_malloc :: "nat \<Rightarrow> nat \<Rightarrow> Variable \<Rightarrow> (nat option \<times> Variable) option" where
  "Variable_malloc k n s =
     (if n = 0 then Some (None, s)
      else do {
        let required = units k n + 1;
        (currentBlock, buf) \<leftarrow> Variable_search required (v_head s) None (v_buffer s);
        case currentBlock of
          None \<Rightarrow> Some (None, s\<lparr>v_buffer := buf\<rparr>)
        | Some c \<Rightarrow> do {
            h \<leftarrow> peek buf c;
            let head = (if currentBlock = v_head s then h_next h else v_head s);
            buf \<leftarrow> setSize c required buf;
            buf \<leftarrow> setNext c None buf;
            Some (Some (c + 1), \<lparr>v_buffer = buf, v_head = head\<rparr>)
          }
      })"

text \<open>The three steps of \<open>free\<close> when the place of \<open>toFree\<close> is found; comparisons with null are false.\<close>

definition Variable_add :: "nat \<Rightarrow> nat \<Rightarrow> nat option \<Rightarrow> Variable \<Rightarrow> Variable option" where
  "Variable_add toFree previous next s =
     (if (case v_head s of None \<Rightarrow> False | Some h \<Rightarrow> toFree < h) then do {
        buf \<leftarrow> setNext toFree (v_head s) (v_buffer s);
        Some \<lparr>v_buffer = buf, v_head = Some toFree\<rparr>
      }
      else do {
        buf \<leftarrow> setNext previous (Some toFree) (v_buffer s);
        buf \<leftarrow> setNext toFree next buf;
        Some (s\<lparr>v_buffer := buf\<rparr>)
      })"

definition Variable_mergePrevious :: "nat \<Rightarrow> nat \<Rightarrow> Variable \<Rightarrow> (nat \<times> Variable) option" where
  "Variable_mergePrevious toFree previous s =
     (if (case v_head s of None \<Rightarrow> False | Some h \<Rightarrow> toFree > h) then do {
        p \<leftarrow> peek (v_buffer s) previous;
        if toFree = previous + h_size p then do {
          t \<leftarrow> peek (v_buffer s) toFree;
          buf \<leftarrow> setSize previous (h_size p + h_size t) (v_buffer s);
          buf \<leftarrow> setNext previous (h_next t) buf;
          Some (previous, s\<lparr>v_buffer := buf\<rparr>)
        }
        else Some (toFree, s)
      }
      else Some (toFree, s))"

definition Variable_mergeNext :: "nat \<Rightarrow> nat option \<Rightarrow> Variable \<Rightarrow> Variable option" where
  "Variable_mergeNext toFree next s = do {
     t \<leftarrow> peek (v_buffer s) toFree;
     case next of
       None \<Rightarrow> Some s
     | Some b \<Rightarrow>
         if toFree + h_size t = b then do {
           n \<leftarrow> peek (v_buffer s) b;
           buf \<leftarrow> setSize toFree (h_size t + h_size n) (v_buffer s);
           buf \<leftarrow> setNext toFree (h_next n) buf;
           Some (s\<lparr>v_buffer := buf\<rparr>)
         }
         else Some s
   }"

partial_function (option) Variable_insert :: "nat \<Rightarrow> nat \<Rightarrow> nat option \<Rightarrow> Variable \<Rightarrow> Variable option" where
  "Variable_insert toFree previous next s =
     (if (case next of None \<Rightarrow> True | Some b \<Rightarrow> toFree < b) then do {
        s \<leftarrow> Variable_add toFree previous next s;
        (toFree, s) \<leftarrow> Variable_mergePrevious toFree previous s;
        Variable_mergeNext toFree next s
      }
      else do {
        b \<leftarrow> next;
        h \<leftarrow> peek (v_buffer s) b;
        Variable_insert toFree b (h_next h) s
      })"

declare Variable_insert.simps [code]

definition Variable_free :: "nat option \<Rightarrow> Variable \<Rightarrow> Variable option" where
  "Variable_free ptr s =
     (case ptr of
        None \<Rightarrow> Some s
      | Some 0 \<Rightarrow> None
      | Some (Suc toFree) \<Rightarrow>
          if v_head s = None then Some (s\<lparr>v_head := Some toFree\<rparr>)
          else Variable_insert toFree 0 (v_head s) s)"

text \<open>\<open>freeMemory\<close> and \<open>maxBlockSize\<close>, which differ in what they do with the size of each free block.\<close>

partial_function (option) Variable_fold ::
    "(nat \<Rightarrow> nat \<Rightarrow> nat) \<Rightarrow> BlockHeader list \<Rightarrow> nat option \<Rightarrow> nat \<Rightarrow> nat option" where
  "Variable_fold f buf currentBlock retVal =
     (case currentBlock of
        None \<Rightarrow> Some retVal
      | Some c \<Rightarrow> do {
          h \<leftarrow> peek buf c;
          Variable_fold f buf (h_next h) (f (h_size h - 1) retVal)
        })"

declare Variable_fold.simps [code]

definition Variable_freeMemory :: "nat \<Rightarrow> Variable \<Rightarrow> nat option" where
  "Variable_freeMemory k s = map_option (\<lambda>n. n * k) (Variable_fold (\<lambda>n retVal. retVal + n) (v_buffer s) (v_head s) 0)"

definition Variable_maxBlockSize :: "nat \<Rightarrow> Variable \<Rightarrow> nat option" where
  "Variable_maxBlockSize k s =
     map_option (\<lambda>n. n * k) (Variable_fold (\<lambda>n retVal. if n > retVal then n else retVal) (v_buffer s) (v_head s) 0)"

text \<open>The user writes to a unit of a block.\<close>

definition Variable_store :: "nat \<Rightarrow> BlockHeader \<Rightarrow> Variable \<Rightarrow> Variable option" where
  "Variable_store a v s = map_option (\<lambda>buf. s\<lparr>v_buffer := buf\<rparr>) (poke (v_buffer s) a v)"


subsection \<open>The list of free blocks\<close>

lemma setNext_Some [simp]: "a < length buf \<Longrightarrow> setNext a p buf = Some (buf[a := (buf ! a)\<lparr>h_next := p\<rparr>])"
  by (simp add: setNext_def)

lemma setSize_Some [simp]: "a < length buf \<Longrightarrow> setSize a n buf = Some (buf[a := (buf ! a)\<lparr>h_size := n\<rparr>])"
  by (simp add: setSize_def)

lemma header_written [simp]:
  "v\<lparr>h_next := a, h_size := n\<rparr> = \<lparr>h_next = a, h_size = n\<rparr>"
  "v\<lparr>h_size := n, h_next := a\<rparr> = \<lparr>h_next = a, h_size = n\<rparr>" for v :: BlockHeader
  by (cases v; simp)+

definition ptr :: "(nat \<times> nat) list \<Rightarrow> nat option" where
  "ptr fl = (case fl of [] \<Rightarrow> None | b # _ \<Rightarrow> Some (fst b))"

definition ordered :: "(nat \<times> nat) list \<Rightarrow> bool" where
  "ordered fl \<longleftrightarrow> sorted_wrt (<) (map fst fl)"

text \<open>The links from \<open>p\<close> on go through the blocks of \<open>fl\<close>, in order, and their headers hold their sizes.\<close>

definition free_list :: "BlockHeader list \<Rightarrow> nat option \<Rightarrow> (nat \<times> nat) list \<Rightarrow> bool" where
  "free_list buf p fl \<longleftrightarrow> path h_next buf p (map fst fl) None \<and> (\<forall>b \<in> set fl. h_size (buf ! fst b) = snd b)"

definition unchanged :: "nat set \<Rightarrow> BlockHeader list \<Rightarrow> BlockHeader list \<Rightarrow> bool" where
  "unchanged A buf buf' \<longleftrightarrow> length buf' = length buf \<and> (\<forall>x. x \<notin> A \<longrightarrow> buf' ! x = buf ! x)"

lemma ptr_simps [simp]: "ptr [] = None" "ptr (b # fl) = Some (fst b)"
  by (simp_all add: ptr_def)

lemma ordered_simps [simp]:
  "ordered []" "ordered (b # fl) \<longleftrightarrow> (\<forall>x \<in> set fl. fst b < fst x) \<and> ordered fl"
  "ordered (as @ bs) \<longleftrightarrow> ordered as \<and> ordered bs \<and> (\<forall>x \<in> set as. \<forall>y \<in> set bs. fst x < fst y)"
  by (auto simp: ordered_def sorted_wrt_append)

lemma free_list_Nil [simp]: "free_list buf p [] \<longleftrightarrow> p = None"
  by (simp add: free_list_def)

lemma free_list_Cons [simp]:
  "free_list buf p (b # fl) \<longleftrightarrow> p = Some (fst b) \<and> fst b < length buf \<and> h_size (buf ! fst b) = snd b \<and>
     free_list buf (h_next (buf ! fst b)) fl"
  by (auto simp: free_list_def)

lemma free_list_ptr: "free_list buf p fl \<Longrightarrow> p = ptr fl"
  by (cases fl) auto

lemma free_list_update [simp]: "\<forall>b \<in> set fl. fst b \<noteq> x \<Longrightarrow> free_list (buf[x := v]) p fl = free_list buf p fl"
  by (induction fl arbitrary: p) auto

lemma free_list_bound: "free_list buf p fl \<Longrightarrow> b \<in> set fl \<Longrightarrow> fst b < length buf"
  by (induction fl arbitrary: p) auto

lemma free_list_suffix: "free_list buf p (us @ vs) \<Longrightarrow> free_list buf (ptr vs) vs"
  by (induction us arbitrary: p) (auto dest: free_list_ptr)

text \<open>Redirecting the last link of a first part.\<close>

lemma free_list_redirect:
  assumes "free_list buf p (us @ q # vs)" and "ordered (us @ [q])" and "v = (buf ! fst q)\<lparr>h_next := r, h_size := n\<rparr>"
    and "free_list (buf[fst q := v]) r ws"
  shows "free_list (buf[fst q := v]) p (us @ (fst q, n) # ws)"
  using assms(1,2)
proof (induction us arbitrary: p)
  case Nil
  then show ?case using assms(3,4) by simp
next
  case (Cons u us)
  then show ?case by auto
qed

lemma free_list_relink:
  assumes "free_list buf p (us @ q # vs)" and "ordered (us @ [q])"
    and "free_list (buf[fst q := (buf ! fst q)\<lparr>h_next := r\<rparr>]) r ws"
  shows "free_list (buf[fst q := (buf ! fst q)\<lparr>h_next := r\<rparr>]) p (us @ q # ws)"
proof -
  have "(buf ! fst q)\<lparr>h_next := r\<rparr> = (buf ! fst q)\<lparr>h_next := r, h_size := snd q\<rparr>"
    using free_list_suffix [OF assms(1)] by (cases "buf ! fst q") simp
  from free_list_redirect [OF assms(1,2) this assms(3)] show ?thesis by simp
qed


subsection \<open>malloc on the free list\<close>

text \<open>The last of the blocks that the search has passed.\<close>

definition passed :: "(nat \<times> nat) list \<Rightarrow> nat option \<Rightarrow> nat option" where
  "passed us prev = (if us = [] then prev else Some (fst (last us)))"

lemma search_passes:
  "free_list buf p (us @ vs) \<Longrightarrow> \<forall>b \<in> set us. snd b < required \<Longrightarrow>
    Variable_search required p prev buf = Variable_search required (ptr vs) (passed us prev) buf"
proof (induction us arbitrary: p prev)
  case Nil
  then show ?case using free_list_ptr by (auto simp: passed_def)
next
  case (Cons u us)
  then have u: "p = Some (fst u)" "fst u < length buf" "h_size (buf ! fst u) < required"
    "free_list buf (h_next (buf ! fst u)) (us @ vs)" by auto
  have "Variable_search required p prev buf = Variable_search required (h_next (buf ! fst u)) (Some (fst u)) buf"
    using u(1-3) by (subst Variable_search.simps) simp
  also have "\<dots> = Variable_search required (ptr vs) (passed us (Some (fst u))) buf"
    using Cons.IH [OF u(4)] Cons.prems(2) by simp
  finally show ?case by (simp add: passed_def)
qed

text \<open>What is left of the block that the search has found.\<close>

definition rest :: "nat \<Rightarrow> nat \<times> nat \<Rightarrow> (nat \<times> nat) list" where
  "rest required b = (if snd b = required then [] else [(fst b + required, snd b - required)])"

lemma relink_passed:
  assumes "free_list buf p (us @ c # vs)" and "ordered (us @ c # vs)"
    and "free_list buf r ws" and "\<forall>u \<in> set us. \<forall>w \<in> set ws. fst u < fst w"
  shows "\<exists>buf'. setNextIf (passed us None) r buf = Some buf' \<and>
    free_list buf' (if us = [] then r else p) (us @ ws) \<and> unchanged (fst ` set us) buf buf'"
proof (cases us rule: rev_cases)
  case Nil
  then show ?thesis using assms(3) by (simp add: setNextIf_def passed_def unchanged_def)
next
  case (snoc us0 q)
  let ?buf = "buf[fst q := (buf ! fst q)\<lparr>h_next := r\<rparr>]"
  have q: "fst q < length buf" using free_list_bound [OF assms(1)] snoc by simp
  have "free_list ?buf r ws" using assms(3,4) snoc by (subst free_list_update) auto
  then have "free_list ?buf p (us0 @ q # ws)"
    using assms(1,2) snoc by (intro free_list_relink [where vs = "c # vs"]) simp_all
  with q snoc show ?thesis by (auto simp: setNextIf_def passed_def unchanged_def)
qed

lemma setNextIf_passed:
  assumes "free_list buf p (us @ vs)" and "\<forall>u \<in> set us. fst u \<noteq> x"
  shows "\<exists>b. setNextIf (passed us None) r buf = Some b \<and>
    setNextIf (passed us None) r (buf[x := v]) = Some (b[x := v]) \<and> length b = length buf"
proof (cases us rule: rev_cases)
  case Nil
  then show ?thesis by (simp add: setNextIf_def passed_def)
next
  case (snoc us0 q)
  then have "fst q < length buf" "fst q \<noteq> x" using free_list_bound [OF assms(1)] assms(2) by simp_all
  with snoc show ?thesis by (simp add: setNextIf_def passed_def list_update_swap [of x])
qed

lemma search_takes:
  assumes fl: "free_list buf p (us @ c # vs)" and ord: "ordered (us @ c # vs)"
    and fit: "required \<le> snd c" "0 < required" and room: "fst c + snd c \<le> length buf"
    and apart: "\<forall>v \<in> set vs. fst c + snd c \<le> fst v"
  shows "\<exists>buf'. Variable_search required (Some (fst c)) (passed us None) buf = Some (Some (fst c), buf') \<and>
    free_list buf' (if us = [] then h_next (buf' ! fst c) else p) (us @ rest required c @ vs) \<and>
    unchanged (fst ` set us \<union> {fst c} \<union> fst ` set (rest required c)) buf buf'"
proof -
  have c: "fst c < length buf" "h_size (buf ! fst c) = snd c" "free_list buf (h_next (buf ! fst c)) vs"
    using free_list_suffix [OF fl] by simp_all
  have out: "fst c \<notin> fst ` set us" using ord by auto
  show ?thesis
  proof (cases "snd c = required")
    case True
    obtain buf' where buf': "setNextIf (passed us None) (h_next (buf ! fst c)) buf = Some buf'"
      "free_list buf' (if us = [] then h_next (buf ! fst c) else p) (us @ vs)" "unchanged (fst ` set us) buf buf'"
      using relink_passed [OF fl ord c(3)] ord by auto
    have "buf' ! fst c = buf ! fst c" using buf'(3) out by (simp add: unchanged_def)
    with buf' True c show ?thesis
      by (subst Variable_search.simps) (auto simp: rest_def unchanged_def)
  next
    case False
    then have less: "required < snd c" using fit by simp
    let ?new = "fst c + required" and ?nb = "\<lparr>h_next = h_next (buf ! fst c), h_size = snd c - required\<rparr>"
    have new: "?new < length buf" "?new \<noteq> fst c" using less fit room by simp_all
    have notin: "fst b \<noteq> ?new" if "b \<in> set (us @ c # vs)" for b
      using that less fit apart ord by fastforce
    have "free_list (buf[?new := ?nb]) p (us @ c # vs)" using fl notin by simp
    moreover have "free_list (buf[?new := ?nb]) (Some ?new) ((?new, snd c - required) # vs)"
      using c(3) new notin by simp
    moreover have "\<forall>u \<in> set us. \<forall>w \<in> set ((?new, snd c - required) # vs). fst u < fst w"
      using ord by auto
    ultimately obtain buf' where buf': "setNextIf (passed us None) (Some ?new) (buf[?new := ?nb]) = Some buf'"
      "free_list buf' (if us = [] then Some ?new else p) (us @ (?new, snd c - required) # vs)"
      "unchanged (fst ` set us) (buf[?new := ?nb]) buf'"
      using relink_passed [OF _ ord] by blast
    have "\<forall>u \<in> set us. fst u \<noteq> ?new" using notin by simp
    then obtain b0 where b0: "setNextIf (passed us None) (Some ?new) buf = Some b0" "buf' = b0[?new := ?nb]"
      "length b0 = length buf"
      using setNextIf_passed [OF fl, of ?new "Some ?new" ?nb] buf'(1) by auto
    have same: "buf' ! fst c = buf ! fst c" "length buf' = length buf"
      using buf'(3) out new(2) by (simp_all add: unchanged_def)
    then have "b0 ! fst c = buf ! fst c" using b0(2) new(2) by simp
    with b0 c False less new have "Variable_search required (Some (fst c)) (passed us None) buf =
        Some (Some (fst c), buf'[fst c := (buf ! fst c)\<lparr>h_next := Some ?new\<rparr>])"
      by (subst Variable_search.simps) (simp add: Let_def)
    moreover have "free_list (buf'[fst c := (buf ! fst c)\<lparr>h_next := Some ?new\<rparr>]) (if us = [] then Some ?new else p)
        (us @ rest required c @ vs)"
      using buf'(2) ord less False apart fit by (subst free_list_update) (auto simp: rest_def)
    moreover have "unchanged (fst ` set us \<union> {fst c} \<union> fst ` set (rest required c)) buf (buf'[fst c := (buf ! fst c)\<lparr>h_next := Some ?new\<rparr>])"
      using buf'(3) same(2) False by (simp add: unchanged_def rest_def)
    ultimately show ?thesis using same(2) c(1) by auto
  qed
qed


subsection \<open>Layouts\<close>

text \<open>
  The specification: a pool is a list of blocks, from the start of the buffer to its end, each with
  its size in units and whether it is free; no two free blocks are neighbours.
\<close>

type_synonym layout = "(nat \<times> bool) list"

definition extent :: "layout \<Rightarrow> nat" where
  "extent bs = sum_list (map fst bs)"

fun coalesced :: "layout \<Rightarrow> bool" where
  "coalesced (x # y # bs) \<longleftrightarrow> \<not> (snd x \<and> snd y) \<and> coalesced (y # bs)"
| "coalesced _ \<longleftrightarrow> True"

text \<open>The free blocks, or those in use, with their addresses.\<close>

fun starts :: "bool \<Rightarrow> nat \<Rightarrow> layout \<Rightarrow> (nat \<times> nat) list" where
  "starts free a [] = []"
| "starts free a ((n, f) # bs) = (if f = free then (a, n) # starts free (a + n) bs else starts free (a + n) bs)"

definition Variable_layout :: "Variable \<Rightarrow> layout \<Rightarrow> bool" where
  "Variable_layout s bs \<longleftrightarrow> length (v_buffer s) = extent bs \<and> (\<forall>b \<in> set bs. 0 < fst b) \<and> coalesced bs \<and>
     free_list (v_buffer s) (v_head s) (starts True 0 bs) \<and>
     (\<forall>b \<in> set (starts False 0 bs). v_buffer s ! fst b = \<lparr>h_next = None, h_size = snd b\<rparr>)"

text \<open>First fit, and the return of a block, which joins it with its free neighbours.\<close>

fun fit :: "nat \<Rightarrow> layout \<Rightarrow> (nat \<times> layout) option" where
  "fit r [] = None"
| "fit r ((n, f) # bs) =
     (if f \<and> r \<le> n then Some (0, (r, False) # (if n = r then bs else (n - r, True) # bs))
      else map_option (\<lambda>(a, bs'). (n + a, (n, f) # bs')) (fit r bs))"

fun absorb :: "nat \<Rightarrow> layout \<Rightarrow> layout" where
  "absorb n ((m, True) # bs) = (n + m, True) # bs"
| "absorb n bs = (n, True) # bs"

fun release :: "nat \<Rightarrow> layout \<Rightarrow> layout" where
  "release a [] = []"
| "release a ((n, f) # bs) =
     (if f then absorb n (release (a - n) bs)
      else if a = 0 then absorb n bs
      else (n, f) # release (a - n) bs)"

lemma extent_simps [simp]:
  "extent [] = 0" "extent (b # bs) = fst b + extent bs" "extent (as @ bs) = extent as + extent bs"
  by (simp_all add: extent_def)

lemma coalesced_Cons: "coalesced (b # bs) \<longleftrightarrow> coalesced bs \<and> \<not> (bs \<noteq> [] \<and> snd b \<and> snd (hd bs))"
  by (cases bs) auto

lemma coalesced_append [simp]:
  "coalesced (as @ bs) \<longleftrightarrow> coalesced as \<and> coalesced bs \<and>
     \<not> (as \<noteq> [] \<and> bs \<noteq> [] \<and> snd (last as) \<and> snd (hd bs))"
  by (induction as) (auto simp: coalesced_Cons hd_append)

lemma starts_append [simp]: "starts g a (as @ bs) = starts g a as @ starts g (a + extent as) bs"
  by (induction g a as rule: starts.induct) (simp_all add: add.assoc)

lemma starts_bounds: "b \<in> set (starts g a bs) \<Longrightarrow> a \<le> fst b \<and> fst b + snd b \<le> a + extent bs"
  by (induction g a bs rule: starts.induct) (fastforce split: if_splits)+

lemma starts_ordered: "\<forall>b \<in> set bs. 0 < fst b \<Longrightarrow> ordered (starts g a bs)"
  by (induction g a bs rule: starts.induct) (auto dest!: starts_bounds)

lemma starts_positive: "\<forall>b \<in> set bs. 0 < fst b \<Longrightarrow> x \<in> set (starts g a bs) \<Longrightarrow> 0 < snd x"
  by (induction g a bs rule: starts.induct) (auto split: if_splits)

text \<open>A block shares its cells with no other block, free or in use.\<close>

lemma starts_apart:
  "\<forall>b \<in> set bs. 0 < fst b \<Longrightarrow> x \<in> set (starts g a bs) \<Longrightarrow> y \<in> set (starts h a bs) \<Longrightarrow>
    x = y \<and> g = h \<or> apart x y"
proof (induction g a bs rule: starts.induct)
  case (2 g a n f bs)
  then show ?case
    by (auto simp: apart_def split: if_splits dest: starts_bounds)
qed simp

lemma fit_None: "fit r bs = None \<longleftrightarrow> (\<forall>b \<in> set (starts True a bs). snd b < r)"
  by (induction True a bs rule: starts.induct) (auto split: if_splits)

lemma fit_Some:
  "fit r bs = Some (a, bs') \<Longrightarrow> \<exists>xs m ys. bs = xs @ (m, True) # ys \<and> a = extent xs \<and> r \<le> m \<and>
     (\<forall>b \<in> set (starts True c xs). snd b < r) \<and> bs' = xs @ (r, False) # (if m = r then ys else (m - r, True) # ys)"
proof (induction bs arbitrary: a bs' c)
  case (Cons b bs)
  obtain n f where b: "b = (n, f)" by (cases b)
  show ?case
  proof (cases "f \<and> r \<le> n")
    case True
    with Cons.prems b show ?thesis by (intro exI [of _ "[]"]) auto
  next
    case False
    with Cons.prems b obtain a0 bs0 where f: "fit r bs = Some (a0, bs0)" "a = n + a0" "bs' = b # bs0" by auto
    from Cons.IH [OF f(1), of "c + n"] obtain xs m ys where "bs = xs @ (m, True) # ys" "a0 = extent xs" "r \<le> m"
      "\<forall>b \<in> set (starts True (c + n) xs). snd b < r" "bs0 = xs @ (r, False) # (if m = r then ys else (m - r, True) # ys)"
      by blast
    with f b False show ?thesis by (intro exI [of _ "b # xs"] exI [of _ m] exI [of _ ys]) auto
  qed
qed simp


subsection \<open>malloc\<close>

lemma apart_starts: "apart x y \<Longrightarrow> 0 < snd x \<Longrightarrow> 0 < snd y \<Longrightarrow> fst x \<noteq> fst y"
  by (auto simp: apart_def split: prod.splits)

text \<open>A header in use is not touched by a change of free blocks and of another block.\<close>

lemma used_unchanged:
  assumes pos: "\<forall>b \<in> set bs. 0 < fst b" and y: "y \<in> set (starts False 0 bs)" and x: "x \<in> set (starts g 0 bs)"
    and same: "unchanged A buf buf'" and sub: "A \<subseteq> fst ` set (starts True 0 bs) \<union> {fst x}"
  shows "y = x \<and> \<not> g \<or> fst y \<notin> A \<and> buf' ! fst y = buf ! fst y"
proof (cases "y = x \<and> \<not> g")
  case False
  have "fst y \<noteq> fst z" if z: "z \<in> set (starts h 0 bs)" "\<not> (y = z \<and> \<not> h)" for z h
  proof -
    have "apart y z" using starts_apart [OF pos y z(1)] z(2) by auto
    then show ?thesis using apart_starts starts_positive [OF pos y] starts_positive [OF pos z(1)] by blast
  qed
  with False x sub have "fst y \<notin> A" by blast
  with same show ?thesis by (simp add: unchanged_def)
qed simp

lemma Variable_malloc_layout:
  assumes lay: "Variable_layout s bs" and n: "0 < n"
  shows "case fit (units k n + 1) bs of
       None \<Rightarrow> Variable_malloc k n s = Some (None, s)
     | Some (a, bs') \<Rightarrow> \<exists>s'. Variable_malloc k n s = Some (Some (a + 1), s') \<and> Variable_layout s' bs'"
proof -
  define r where "r = units k n + 1"
  note l = lay [unfolded Variable_layout_def]
  show ?thesis
  proof (cases "fit (units k n + 1) bs")
    case None
    then have small: "\<forall>b \<in> set (starts True 0 bs). snd b < r" using fit_None by (simp add: r_def)
    have "Variable_search r (v_head s) None (v_buffer s) = Some (None, v_buffer s)"
      using search_passes [of "v_buffer s" "v_head s" "starts True 0 bs" "[]" r None] l small
      by (simp add: Variable_search.simps [of r None])
    then show ?thesis using None n by (simp add: Variable_malloc_def r_def)
  next
    case (Some q)
    obtain a bs' where q: "q = (a, bs')" by (cases q)
    obtain xs m ys where bs: "bs = xs @ (m, True) # ys" and a: "a = extent xs" and rm: "r \<le> m"
      and small: "\<forall>b \<in> set (starts True 0 xs). snd b < r"
      and bs': "bs' = xs @ (r, False) # (if m = r then ys else (m - r, True) # ys)"
      using fit_Some [of "units k n + 1" bs a bs' 0] Some q by (auto simp: r_def)
    define us vs c where "us = starts True 0 xs" and "vs = starts True (a + m) ys" and "c = (a, m)"
    have Suc_r: "Suc (units k n) = r" by (simp add: r_def)
    have cs: "fst c = a" "snd c = m" by (simp_all add: c_def)
    have fl: "starts True 0 bs = us @ c # vs" by (simp add: bs us_def vs_def c_def a)
    have pos: "\<forall>b \<in> set bs. 0 < fst b" "0 < r" "\<forall>b \<in> set bs'. 0 < fst b"
      using l rm by (auto simp: r_def bs bs')
    have ord: "ordered (us @ c # vs)" using starts_ordered [OF pos(1), of True 0] by (simp add: fl)
    have room: "fst c + snd c \<le> length (v_buffer s)" using l by (simp add: c_def a bs)
    have behind: "\<forall>v \<in> set vs. fst c + snd c \<le> fst v" by (auto simp: c_def vs_def dest: starts_bounds)
    have free: "free_list (v_buffer s) (v_head s) (us @ c # vs)" using l fl by simp
    then have free': "free_list (v_buffer s) (v_head s) (us @ (c # vs))" by simp
    obtain buf where buf: "Variable_search r (Some a) (passed us None) (v_buffer s) = Some (Some a, buf)"
      "free_list buf (if us = [] then h_next (buf ! a) else v_head s) (us @ rest r c @ vs)"
      "unchanged (fst ` set us \<union> {a} \<union> fst ` set (rest r c)) (v_buffer s) buf"
      using search_takes [OF free ord _ pos(2) room behind, unfolded cs] rm by auto
    have search: "Variable_search r (v_head s) None (v_buffer s) = Some (Some a, buf)"
      using search_passes [OF free', of r None] small buf(1) by (simp add: us_def c_def)
    have "a < length buf" using room buf(3) rm pos(2) by (simp add: c_def unchanged_def)
    moreover have "(Some a = v_head s) = (us = [])"
      using free_list_ptr [OF free] ord by (cases us) (auto simp: c_def)
    ultimately have malloc: "Variable_malloc k n s = Some (Some (a + 1),
        \<lparr>v_buffer = buf[a := \<lparr>h_next = None, h_size = r\<rparr>], v_head = (if us = [] then h_next (buf ! a) else v_head s)\<rparr>)"
      using n search Suc_r by (simp add: Variable_malloc_def Let_def)
    define s' where "s' = \<lparr>v_buffer = buf[a := \<lparr>h_next = None, h_size = r\<rparr>], v_head = (if us = [] then h_next (buf ! a) else v_head s)\<rparr>"
    have fl': "starts True 0 bs' = us @ rest r c @ vs"
      using rm by (auto simp: bs' us_def vs_def c_def a rest_def)
    have used: "starts False 0 bs' = starts False 0 xs @ (a, r) # starts False (a + m) ys"
      using rm by (auto simp: bs' a)
    have in_use: "set (starts False 0 bs') \<subseteq> insert (a, r) (set (starts False 0 bs))"
      by (auto simp: used bs a)
    have keep: "v_buffer s' ! fst y = \<lparr>h_next = None, h_size = snd y\<rparr>" if y: "y \<in> set (starts False 0 bs')" for y
    proof -
      have "y = (a, r) \<or> fst y \<notin> fst ` set us \<union> {a} \<union> fst ` set (rest r c) \<and> buf ! fst y = v_buffer s ! fst y"
        using used_unchanged [OF pos(3) y, of "(a, r)" False, OF _ buf(3)] by (auto simp: fl' used)
      with y in_use l \<open>a < length buf\<close> show ?thesis by (auto simp: s'_def)
    qed
    have "free_list (buf[a := \<lparr>h_next = None, h_size = r\<rparr>]) (v_head s') (us @ rest r c @ vs)"
      using buf(2) ord pos(2) behind rm by (subst free_list_update) (auto simp: s'_def c_def rest_def)
    moreover have "extent bs' = extent bs" "coalesced bs'" using l rm by (auto simp: bs bs' coalesced_Cons)
    ultimately have "Variable_layout s' bs'"
      using l pos(3) keep buf(3) fl' by (simp add: Variable_layout_def s'_def unchanged_def)
    then show ?thesis using malloc Some q by (simp add: s'_def)
  qed
qed


subsection \<open>free on the free list\<close>

lemma insert_passes:
  "free_list (v_buffer s) p (us @ vs) \<Longrightarrow> \<forall>b \<in> set us. fst b < t \<Longrightarrow>
    Variable_insert t prev p s = Variable_insert t (case us of [] \<Rightarrow> prev | _ \<Rightarrow> fst (last us)) (ptr vs) s"
proof (induction us arbitrary: p prev)
  case Nil
  then show ?case using free_list_ptr by simp
next
  case (Cons u us)
  then have u: "p = Some (fst u)" "fst u < length (v_buffer s)" "fst u < t"
    "free_list (v_buffer s) (h_next (v_buffer s ! fst u)) (us @ vs)" by auto
  have "Variable_insert t prev p s = Variable_insert t (fst u) (h_next (v_buffer s ! fst u)) s"
    using u(1-3) by (subst Variable_insert.simps) simp
  also have "\<dots> = Variable_insert t (case us of [] \<Rightarrow> fst u | _ \<Rightarrow> fst (last us)) (ptr vs) s"
    using Cons.IH [OF u(4)] Cons.prems(2) by simp
  finally show ?case by (cases us) simp_all
qed

text \<open>Step 1: the block is linked in.\<close>

lemma add_links:
  assumes fl: "free_list (v_buffer s) (v_head s) (us @ vs)" and some: "us @ vs \<noteq> []"
    and ord: "ordered (us @ (t, n) # vs)" and t: "t < length (v_buffer s)" "h_size (v_buffer s ! t) = n"
    and prev: "us \<noteq> [] \<Longrightarrow> prev = fst (last us)"
  shows "\<exists>s'. Variable_add t prev (ptr vs) s = Some s' \<and>
    free_list (v_buffer s') (v_head s') (us @ (t, n) # vs) \<and> unchanged (fst ` set us \<union> {t}) (v_buffer s) (v_buffer s')"
proof (cases us rule: rev_cases)
  case Nil
  with some obtain v vs' where vs: "vs = v # vs'" by (cases vs) auto
  with Nil fl ord have "v_head s = Some (fst v)" "t < fst v" by simp_all
  moreover have "free_list ((v_buffer s)[t := (v_buffer s ! t)\<lparr>h_next := v_head s\<rparr>]) (v_head s) vs"
    using fl ord Nil by (subst free_list_update) auto
  ultimately show ?thesis
    using Nil t by (simp add: Variable_add_def unchanged_def)
next
  case (snoc us0 q)
  let ?v = "(v_buffer s ! t)\<lparr>h_next := ptr vs\<rparr>" and ?w = "(v_buffer s ! fst q)\<lparr>h_next := Some t\<rparr>"
  have q: "fst q < length (v_buffer s)" "fst q < t" "prev = fst q"
    using free_list_bound [OF fl, of q] ord snoc prev by simp_all
  have fl': "free_list (v_buffer s) (v_head s) (us0 @ q # vs)" using fl snoc by simp
  have "\<forall>b \<in> set (us0 @ q # vs). fst b \<noteq> t" using ord snoc by fastforce
  then have "free_list ((v_buffer s)[t := ?v]) (v_head s) (us0 @ q # vs)" using fl' by simp
  moreover have "free_list ((v_buffer s)[t := ?v, fst q := ((v_buffer s)[t := ?v] ! fst q)\<lparr>h_next := Some t\<rparr>]) (Some t) ((t, n) # vs)"
  proof -
    have "\<forall>b \<in> set ((t, n) # vs). fst b \<noteq> fst q" using ord snoc by fastforce
    moreover have "free_list ((v_buffer s)[t := ?v]) (ptr vs) vs"
      using free_list_suffix [OF fl] ord by (subst free_list_update) auto
    ultimately show ?thesis using t by simp
  qed
  ultimately have "free_list ((v_buffer s)[t := ?v, fst q := ((v_buffer s)[t := ?v] ! fst q)\<lparr>h_next := Some t\<rparr>])
      (v_head s) (us0 @ q # (t, n) # vs)"
    using ord snoc by (intro free_list_relink) auto
  moreover have "\<not> (case v_head s of None \<Rightarrow> False | Some h \<Rightarrow> t < h)"
    using free_list_ptr [OF fl] ord snoc by (cases us0) auto
  ultimately show ?thesis
    using q t snoc by (simp add: Variable_add_def unchanged_def list_update_swap [of t "fst q"])
qed

text \<open>Step 2: it is joined with the free block before it.\<close>

lemma merge_previous:
  assumes fl: "free_list (v_buffer s) (v_head s) (us @ (t, n) # vs)" and ord: "ordered (us @ (t, n) # vs)"
    and prev: "us \<noteq> [] \<Longrightarrow> prev = fst (last us)"
  shows "\<exists>t' s'. Variable_mergePrevious t prev s = Some (t', s') \<and> unchanged (fst ` set us) (v_buffer s) (v_buffer s') \<and>
    (if us \<noteq> [] \<and> fst (last us) + snd (last us) = t
     then t' = fst (last us) \<and> free_list (v_buffer s') (v_head s') (butlast us @ (t', snd (last us) + n) # vs)
     else t' = t \<and> s' = s)"
proof (cases us rule: rev_cases)
  case Nil
  with fl show ?thesis by (simp add: Variable_mergePrevious_def unchanged_def)
next
  case (snoc us0 q)
  have t: "t < length (v_buffer s)" "h_size (v_buffer s ! t) = n" and behind: "free_list (v_buffer s) (h_next (v_buffer s ! t)) vs"
    using free_list_suffix [OF fl] by simp_all
  have q: "fst q < length (v_buffer s)" "fst q < t" "prev = fst q" "h_size (v_buffer s ! fst q) = snd q"
    using free_list_bound [OF fl, of q] ord snoc prev free_list_suffix [of "v_buffer s" "v_head s" us0 "q # (t, n) # vs"] fl
    by simp_all
  have head: "case v_head s of None \<Rightarrow> False | Some h \<Rightarrow> t > h"
    using free_list_ptr [OF fl] ord snoc by (cases us0) auto
  show ?thesis
  proof (cases "fst q + snd q = t")
    case False
    then show ?thesis using head q t snoc by (simp add: Variable_mergePrevious_def unchanged_def)
  next
    case True
    let ?v = "\<lparr>h_next = h_next (v_buffer s ! t), h_size = snd q + n\<rparr>"
    have "free_list ((v_buffer s)[fst q := ?v]) (h_next (v_buffer s ! t)) vs"
      using behind ord snoc by (subst free_list_update) auto
    then have "free_list ((v_buffer s)[fst q := ?v]) (v_head s) (us0 @ (fst q, snd q + n) # vs)"
      using fl ord snoc by (intro free_list_redirect [where vs = "(t, n) # vs"]) auto
    then show ?thesis
      using head q t snoc True by (simp add: Variable_mergePrevious_def unchanged_def)
  qed
qed

text \<open>Step 3: it is joined with the free block behind it.\<close>

lemma merge_next:
  assumes fl: "free_list (v_buffer s) (v_head s) (us @ (t, n) # vs)" and ord: "ordered (us @ (t, n) # vs)"
  shows "\<exists>s'. Variable_mergeNext t (ptr vs) s = Some s' \<and> unchanged {t} (v_buffer s) (v_buffer s') \<and>
    (if vs \<noteq> [] \<and> t + n = fst (hd vs)
     then free_list (v_buffer s') (v_head s') (us @ (t, n + snd (hd vs)) # tl vs) else s' = s)"
proof (cases "vs \<noteq> [] \<and> t + n = fst (hd vs)")
  case False
  moreover have "t < length (v_buffer s)" "h_size (v_buffer s ! t) = n" using free_list_suffix [OF fl] by simp_all
  ultimately show ?thesis by (cases vs) (auto simp: Variable_mergeNext_def unchanged_def)
next
  case True
  then obtain v vs' where vs: "vs = v # vs'" "fst v = t + n" by (cases vs) auto
  have t: "t < length (v_buffer s)" "h_size (v_buffer s ! t) = n" "fst v < length (v_buffer s)"
    "h_size (v_buffer s ! fst v) = snd v" "free_list (v_buffer s) (h_next (v_buffer s ! fst v)) vs'"
    using free_list_suffix [OF fl] vs by simp_all
  let ?v = "\<lparr>h_next = h_next (v_buffer s ! fst v), h_size = n + snd v\<rparr>"
  have "free_list ((v_buffer s)[t := ?v]) (h_next (v_buffer s ! fst v)) vs'"
    using t(5) ord vs by (subst free_list_update) auto
  then have "free_list ((v_buffer s)[t := ?v]) (v_head s) (us @ (t, n + snd v) # vs')"
    using free_list_redirect [OF fl, where v = ?v and n = "n + snd v" and ws = vs'] ord by simp
  then show ?thesis using t vs by (simp add: Variable_mergeNext_def unchanged_def)
qed


subsection \<open>free\<close>

lemma absorb_absorb: "absorb k (absorb n ys) = absorb (k + n) ys"
  by (induction n ys rule: absorb.induct) (simp_all add: add.assoc)

text \<open>Where \<open>release\<close> finds the block, and what it makes of it.\<close>

definition joined :: "layout \<Rightarrow> nat \<Rightarrow> layout \<times> nat" where
  "joined xs n = (if xs \<noteq> [] \<and> snd (last xs) then (butlast xs, fst (last xs) + n) else (xs, n))"

lemma release_at:
  assumes "coalesced (xs @ (n, False) # ys)" and "\<forall>b \<in> set xs. 0 < fst b"
  shows "release (extent xs) (xs @ (n, False) # ys) = fst (joined xs n) @ absorb (snd (joined xs n)) ys"
  using assms
proof (induction xs)
  case Nil
  then show ?case by (simp add: joined_def)
next
  case (Cons x xs)
  obtain k f where x: "x = (k, f)" by (cases x)
  have IH: "release (extent xs) (xs @ (n, False) # ys) = fst (joined xs n) @ absorb (snd (joined xs n)) ys"
    using Cons by (auto simp: coalesced_Cons)
  show ?case
  proof (cases f)
    case False
    then show ?thesis using IH Cons.prems(2) x by (simp add: joined_def)
  next
    case True
    show ?thesis
    proof (cases xs)
      case Nil
      then show ?thesis using True x by (simp add: joined_def absorb_absorb)
    next
      case (Cons y zs)
      then have "\<not> snd y" using Cons.prems(1) True x by simp
      then obtain j where y: "y = (j, False)" by (cases y) simp
      then have "\<exists>ws. fst (joined xs n) = y # ws" using Cons by (auto simp: joined_def)
      then show ?thesis using IH True x y Cons by (auto simp: joined_def)
    qed
  qed
qed

lemma starts_last:
  assumes "\<forall>b \<in> set xs. 0 < fst b"
  shows "if xs \<noteq> [] \<and> snd (last xs)
    then starts True 0 xs = starts True 0 (butlast xs) @ [(extent (butlast xs), fst (last xs))] \<and>
      extent (butlast xs) + fst (last xs) = extent xs
    else starts True 0 xs \<noteq> [] \<longrightarrow> fst (last (starts True 0 xs)) + snd (last (starts True 0 xs)) \<noteq> extent xs"
proof (cases xs rule: rev_cases)
  case (snoc zs z)
  obtain k f where z: "z = (k, f)" by (cases z)
  show ?thesis
  proof (cases f)
    case False
    have "fst b + snd b \<le> extent zs" if "b \<in> set (starts True 0 zs)" for b using starts_bounds [OF that] by simp
    then have "starts True 0 zs \<noteq> [] \<longrightarrow> fst (last (starts True 0 zs)) + snd (last (starts True 0 zs)) \<le> extent zs"
      by simp
    with assms snoc z False show ?thesis by auto
  qed (use snoc z in simp)
qed simp

lemma starts_hd:
  assumes "\<forall>b \<in> set ys. 0 < fst b"
  shows "if ys \<noteq> [] \<and> snd (hd ys)
    then starts True a ys = (a, fst (hd ys)) # starts True (a + fst (hd ys)) (tl ys)
    else starts True a ys \<noteq> [] \<longrightarrow> fst (hd (starts True a ys)) \<noteq> a"
proof (cases ys)
  case (Cons z zs)
  obtain k f where z: "z = (k, f)" by (cases z)
  show ?thesis
  proof (cases f)
    case False
    have "a + k \<le> fst b" if "b \<in> set (starts True (a + k) zs)" for b using starts_bounds [OF that] by simp
    then have "starts True (a + k) zs \<noteq> [] \<longrightarrow> a + k \<le> fst (hd (starts True (a + k) zs))" by simp
    with assms Cons z False show ?thesis by auto
  qed (use Cons z in simp)
qed simp

lemma starts_absorb:
  "starts False a (absorb n ys) = starts False (a + n) ys"
  "starts True a (absorb n ys) =
    (if ys \<noteq> [] \<and> snd (hd ys) then (a, n + fst (hd ys)) # starts True (a + (n + fst (hd ys))) (tl ys)
     else (a, n) # starts True (a + n) ys)"
  by (induction n ys rule: absorb.induct) (simp_all add: add.assoc)

lemma coalesced_absorb: "coalesced ys \<Longrightarrow> coalesced (absorb n ys) \<and> (\<exists>m zs. absorb n ys = (m, True) # zs)"
  by (induction n ys rule: absorb.induct) (auto simp: coalesced_Cons)

lemma extent_absorb: "extent (absorb n ys) = n + extent ys"
  by (induction n ys rule: absorb.induct) simp_all

lemma absorb_positive: "0 < n \<Longrightarrow> \<forall>b \<in> set ys. 0 < fst b \<Longrightarrow> \<forall>b \<in> set (absorb n ys). 0 < fst b"
  by (induction n ys rule: absorb.induct) auto

text \<open>The three steps together.\<close>

lemma insert_frees:
  assumes fl: "free_list (v_buffer s) (v_head s) (us @ vs)" and some: "us @ vs \<noteq> []"
    and ord: "ordered (us @ (t, n) # vs)" and t: "t < length (v_buffer s)" "h_size (v_buffer s ! t) = n"
  defines "q \<equiv> (if us \<noteq> [] \<and> fst (last us) + snd (last us) = t then (butlast us, fst (last us), snd (last us) + n) else (us, t, n))"
  shows "\<exists>s'. Variable_insert t 0 (v_head s) s = Some s' \<and> unchanged (fst ` set us \<union> {t}) (v_buffer s) (v_buffer s') \<and>
    free_list (v_buffer s') (v_head s')
      (fst q @ (if vs \<noteq> [] \<and> t + n = fst (hd vs) then (fst (snd q), snd (snd q) + snd (hd vs)) # tl vs
                else (fst (snd q), snd (snd q)) # vs))"
proof -
  define prev where "prev = (case us of [] \<Rightarrow> 0 | _ \<Rightarrow> fst (last us))"
  have prev: "us \<noteq> [] \<Longrightarrow> prev = fst (last us)" by (cases us) (simp_all add: prev_def)
  obtain s1 where s1: "Variable_add t prev (ptr vs) s = Some s1"
    "free_list (v_buffer s1) (v_head s1) (us @ (t, n) # vs)" "unchanged (fst ` set us \<union> {t}) (v_buffer s) (v_buffer s1)"
    using add_links [OF fl some ord t prev] by blast
  obtain t2 s2 where s2: "Variable_mergePrevious t prev s1 = Some (t2, s2)"
    "unchanged (fst ` set us) (v_buffer s1) (v_buffer s2)"
    and t2: "if us \<noteq> [] \<and> fst (last us) + snd (last us) = t
     then t2 = fst (last us) \<and> free_list (v_buffer s2) (v_head s2) (butlast us @ (t2, snd (last us) + n) # vs)
     else t2 = t \<and> s2 = s1"
    using merge_previous [OF s1(2) ord prev] by blast
  have q: "free_list (v_buffer s2) (v_head s2) (fst q @ (t2, snd (snd q)) # vs)" "t2 = fst (snd q)"
    "t2 + snd (snd q) = t + n" "t2 \<in> fst ` set us \<union> {t}"
    using t2 s1(2) by (auto simp: q_def split: if_splits)
  have "ordered (fst q @ (t2, snd (snd q)) # vs)"
  proof (cases us rule: rev_cases)
    case Nil
    with ord q(2) show ?thesis by (simp add: q_def)
  next
    case (snoc us0 u)
    with ord q(2) show ?thesis by (fastforce simp: q_def)
  qed
  from merge_next [OF q(1) this] obtain s3 where s3: "Variable_mergeNext t2 (ptr vs) s2 = Some s3"
    "unchanged {t2} (v_buffer s2) (v_buffer s3)"
    "if vs \<noteq> [] \<and> t + n = fst (hd vs)
     then free_list (v_buffer s3) (v_head s3) (fst q @ (t2, snd (snd q) + snd (hd vs)) # tl vs) else s3 = s2"
    using q(3) by auto
  have before: "\<forall>b \<in> set us. fst b < t" and behind: "case ptr vs of None \<Rightarrow> True | Some b \<Rightarrow> t < b"
    using ord by (auto simp: ptr_def split: list.split)
  have "Variable_insert t 0 (v_head s) s = Variable_insert t prev (ptr vs) s"
    using insert_passes [OF fl before, of 0] by (simp add: prev_def)
  also have "\<dots> = Some s3"
    using behind s1(1) s2(1) s3(1) by (subst Variable_insert.simps) simp
  finally have "Variable_insert t 0 (v_head s) s = Some s3" .
  moreover have "unchanged (fst ` set us \<union> {t}) (v_buffer s) (v_buffer s3)"
    using s1(3) s2(2) s3(2) q(4) by (auto simp: unchanged_def)
  ultimately show ?thesis using s3(3) q by (auto split: if_splits)
qed


lemma release_extent:
  assumes "coalesced (xs @ (n, False) # ys)" and "\<forall>b \<in> set xs. 0 < fst b"
  shows "extent (release (extent xs) (xs @ (n, False) # ys)) = extent (xs @ (n, False) # ys)"
  unfolding release_at [OF assms] by (cases xs rule: rev_cases) (simp_all add: joined_def extent_absorb)

lemma release_used:
  assumes "coalesced (xs @ (n, False) # ys)" and "\<forall>b \<in> set xs. 0 < fst b"
  shows "set (starts False 0 (release (extent xs) (xs @ (n, False) # ys))) =
    set (starts False 0 xs) \<union> set (starts False (extent xs + n) ys)"
  unfolding release_at [OF assms]
  by (cases xs rule: rev_cases) (auto simp: joined_def starts_absorb add.assoc split: if_splits)

lemma Variable_free_layout:
  assumes lay: "Variable_layout s bs" and bs: "bs = xs @ (n, False) # ys"
  shows "\<exists>s'. Variable_free (Some (Suc (extent xs))) s = Some s' \<and> Variable_layout s' (release (extent xs) bs)"
proof -
  define t us vs where "t = extent xs" and "us = starts True 0 xs" and "vs = starts True (t + n) ys"
  define bs' where "bs' = release t bs"
  note l = lay [unfolded Variable_layout_def]
  have pos: "\<forall>b \<in> set bs. 0 < fst b" "\<forall>b \<in> set xs. 0 < fst b" "\<forall>b \<in> set ys. 0 < fst b" "0 < n"
    using l by (auto simp: bs)
  have co: "coalesced (xs @ (n, False) # ys)" using l bs by simp
  have bs': "bs' = fst (joined xs n) @ absorb (snd (joined xs n)) ys"
    unfolding bs'_def t_def bs by (rule release_at [OF co pos(2)])
  have frees: "starts True 0 bs = us @ vs" by (simp add: bs us_def vs_def t_def)
  have used: "set (starts False 0 bs) = insert (t, n) (set (starts False 0 xs) \<union> set (starts False (t + n) ys))"
    by (simp add: bs t_def)
  have used': "set (starts False 0 bs') = set (starts False 0 xs) \<union> set (starts False (t + n) ys)"
    unfolding bs'_def t_def bs by (rule release_used [OF co pos(2)])
  have glue: "xs \<noteq> [] \<Longrightarrow> extent (butlast xs) + (fst (last xs) + r) = extent xs + r" for r
    by (cases xs rule: rev_cases) simp_all
  have frees': "starts True 0 bs' = (let q = (if us \<noteq> [] \<and> fst (last us) + snd (last us) = t
        then (butlast us, fst (last us), snd (last us) + n) else (us, t, n))
     in fst q @ (if vs \<noteq> [] \<and> t + n = fst (hd vs) then (fst (snd q), snd (snd q) + snd (hd vs)) # tl vs
        else (fst (snd q), snd (snd q)) # vs))"
    using starts_last [OF pos(2)] starts_hd [OF pos(3), of "t + n"]
    by (auto simp: bs' joined_def starts_absorb us_def vs_def t_def Let_def add.assoc glue split: if_splits)
  have mid: "(t, n) \<in> set (starts False 0 bs)" by (simp add: used)
  have t: "t < length (v_buffer s)" "v_buffer s ! t = \<lparr>h_next = None, h_size = n\<rparr>"
    using l mid pos(4) by (auto simp: bs t_def)
  obtain s' where s': "Variable_free (Some (Suc t)) s = Some s'"
    "unchanged (fst ` set us \<union> {t}) (v_buffer s) (v_buffer s')"
    "free_list (v_buffer s') (v_head s') (starts True 0 bs')"
  proof (cases "us @ vs = []")
    case True
    then have "v_head s = None" using l frees by simp
    then have "Variable_free (Some (Suc t)) s = Some (s\<lparr>v_head := Some t\<rparr>)" by (simp add: Variable_free_def)
    moreover have "starts True 0 bs' = [(t, n)]" using frees' True by simp
    ultimately show ?thesis using that t by (simp add: unchanged_def)
  next
    case False
    have "free_list (v_buffer s) (v_head s) (us @ vs)" using l frees by simp
    from free_list_ptr [OF this] False have "v_head s \<noteq> None" by (cases "us @ vs") auto
    moreover have "ordered (us @ (t, n) # vs)"
      using starts_ordered [OF pos(2), of True 0] starts_ordered [OF pos(3), of True "t + n"]
        starts_bounds [of _ True 0 xs] starts_bounds [of _ True "t + n" ys] starts_positive [OF pos(2)] pos(4)
      by (fastforce simp: us_def vs_def t_def)
    ultimately show ?thesis
      using that insert_frees [of s us vs t n] False l frees t frees' by (auto simp: Variable_free_def Let_def)
  qed
  have "v_buffer s' ! fst y = \<lparr>h_next = None, h_size = snd y\<rparr>" if y: "y \<in> set (starts False 0 bs')" for y
  proof -
    have old: "y \<in> set (starts False 0 bs)" using y used used' by blast
    have other: "y \<noteq> (t, n)"
    proof
      assume "y = (t, n)"
      then show False
        using y used' starts_bounds [of y False 0 xs] starts_bounds [of y False "t + n" ys] pos(4) by (auto simp: t_def)
    qed
    have "fst ` set us \<union> {t} \<subseteq> fst ` set (starts True 0 bs) \<union> {fst (t, n)}" by (auto simp: frees)
    from used_unchanged [OF pos(1) old mid s'(2) this] other have "v_buffer s' ! fst y = v_buffer s ! fst y" by simp
    with old l show ?thesis by simp
  qed
  moreover have "extent bs' = extent bs" "coalesced bs'" "\<forall>b \<in> set bs'. 0 < fst b"
  proof -
    obtain zs m where z: "joined xs n = (zs, m)" by (cases "joined xs n")
    have "extent zs + m = extent xs + n" "0 < m" "set zs \<subseteq> set xs" "coalesced zs"
      "zs = [] \<or> \<not> snd (last zs)"
      using z pos(2,4) co
      by (cases xs rule: rev_cases; auto simp: joined_def split: if_splits)+
    then show "extent bs' = extent bs" "coalesced bs'" "\<forall>b \<in> set bs'. 0 < fst b"
      using z coalesced_absorb [of ys m] co extent_absorb [of m ys] absorb_positive [OF _ pos(3), of m] pos(2)
      by (auto simp: bs' bs coalesced_Cons)
  qed
  ultimately have "Variable_layout s' bs'"
    using l s'(2,3) by (simp add: Variable_layout_def unchanged_def)
  with s'(1) show ?thesis by (auto simp: bs'_def t_def)
qed


subsection \<open>The contract of an allocator\<close>

text \<open>An allocation is a block in use without its header.\<close>

definition Variable_live :: "nat \<Rightarrow> Variable \<Rightarrow> (nat \<rightharpoonup> nat) \<Rightarrow> bool" where
  "Variable_live N s L \<longleftrightarrow> (\<exists>bs. Variable_layout s bs \<and> extent bs = N \<and>
     (\<forall>a m. L a = Some m \<longleftrightarrow> (\<exists>x. a = Suc x \<and> (x, Suc m) \<in> set (starts False 0 bs))))"

lemma starts_split: "(x, n) \<in> set (starts g a bs) \<Longrightarrow> \<exists>xs ys. bs = xs @ (n, g) # ys \<and> x = a + extent xs"
proof (induction g a bs rule: starts.induct)
  case (2 g a m f bs)
  show ?case
  proof (cases "(x, n) = (a, m) \<and> f = g")
    case True
    then show ?thesis by (intro exI [of _ "[]"] exI [of _ bs]) simp
  next
    case False
    with 2 obtain xs ys where "bs = xs @ (n, g) # ys" "x = a + m + extent xs" by (auto split: if_splits)
    then show ?thesis by (intro exI [of _ "(m, f) # xs"] exI [of _ ys]) simp
  qed
qed simp

lemma starts_unique:
  assumes "\<forall>b \<in> set bs. 0 < fst b" and "x \<in> set (starts g 0 bs)" and "y \<in> set (starts h 0 bs)" and "fst x = fst y"
  shows "x = y \<and> g = h"
  using starts_apart [OF assms(1-3)] apart_starts starts_positive [OF assms(1,2)] starts_positive [OF assms(1,3)] assms(4)
  by blast

lemma fit_used:
  assumes "fit r bs = Some (a, bs')" and "0 < r" and "\<forall>b \<in> set bs. 0 < fst b"
  shows "set (starts False 0 bs') = insert (a, r) (set (starts False 0 bs))" and "extent bs' = extent bs"
    and "\<forall>m. (a, m) \<notin> set (starts False 0 bs)"
proof -
  obtain xs m ys where bs: "bs = xs @ (m, True) # ys" and a: "a = extent xs" and rm: "r \<le> m"
    and bs': "bs' = xs @ (r, False) # (if m = r then ys else (m - r, True) # ys)"
    using fit_Some [OF assms(1)] by blast
  show "set (starts False 0 bs') = insert (a, r) (set (starts False 0 bs))" "extent bs' = extent bs"
    using rm by (auto simp: bs bs' a)
  have "(a, m) \<in> set (starts True 0 bs)" by (simp add: bs a)
  then show "\<forall>m. (a, m) \<notin> set (starts False 0 bs)"
    using starts_unique [OF assms(3)] by fastforce
qed

lemma units_zero [simp]: "units k 0 = 0"
  by (simp add: units_def)

lemma Variable_malloc_live:
  assumes "Variable_live N s L"
  shows "\<exists>p s'. Variable_malloc k n s = Some (p, s') \<and>
    (case p of None \<Rightarrow> Variable_live N s' L | Some a \<Rightarrow> L a = None \<and> Variable_live N s' (L(a \<mapsto> units k n)))"
proof (cases "n = 0")
  case True
  with assms show ?thesis by (simp add: Variable_malloc_def)
next
  case False
  obtain bs where bs: "Variable_layout s bs" "extent bs = N"
    "\<And>a m. L a = Some m \<longleftrightarrow> (\<exists>x. a = Suc x \<and> (x, Suc m) \<in> set (starts False 0 bs))"
    using assms by (auto simp: Variable_live_def)
  show ?thesis
  proof (cases "fit (units k n + 1) bs")
    case None
    with Variable_malloc_layout [OF bs(1), of n k] False assms show ?thesis by auto
  next
    case (Some q)
    obtain a bs' where q: "q = (a, bs')" by (cases q)
    from Variable_malloc_layout [OF bs(1), of n k] Some q False obtain s' where
      s': "Variable_malloc k n s = Some (Some (Suc a), s')" "Variable_layout s' bs'" by auto
    have pos: "\<forall>b \<in> set bs. 0 < fst b" using bs(1) by (simp add: Variable_layout_def)
    have "fit (units k n + 1) bs = Some (a, bs')" using Some q by simp
    note f = fit_used [OF this _ pos]
    have "L (Suc a) = None" using bs(3) f(3) by (cases "L (Suc a)") auto
    moreover have "Variable_live N s' (L(Suc a \<mapsto> units k n))"
      unfolding Variable_live_def using s'(2) bs(2,3) f by (intro exI [of _ bs']) auto
    ultimately show ?thesis using s'(1) by auto
  qed
qed

lemma Variable_free_live:
  assumes "Variable_live N s L" and "L a = Some m"
  shows "\<exists>s'. Variable_free (Some a) s = Some s' \<and> Variable_live N s' (L(a := None))"
proof -
  obtain bs where bs: "Variable_layout s bs" "extent bs = N"
    "\<And>a m. L a = Some m \<longleftrightarrow> (\<exists>x. a = Suc x \<and> (x, Suc m) \<in> set (starts False 0 bs))"
    using assms by (auto simp: Variable_live_def)
  obtain x where x: "a = Suc x" "(x, Suc m) \<in> set (starts False 0 bs)" using assms(2) bs(3) by auto
  obtain xs ys where split: "bs = xs @ (Suc m, False) # ys" "x = extent xs" using starts_split [OF x(2)] by auto
  obtain s' where s': "Variable_free (Some a) s = Some s'" "Variable_layout s' (release x bs)"
    using Variable_free_layout [OF bs(1) split(1)] x(1) split(2) by auto
  have pos: "\<forall>b \<in> set bs. 0 < fst b" and co: "coalesced bs" using bs(1) by (simp_all add: Variable_layout_def)
  have "set (starts False 0 (release x bs)) = set (starts False 0 xs) \<union> set (starts False (x + Suc m) ys)"
    using release_used [of xs "Suc m" ys] pos co split by simp
  moreover have "set (starts False 0 bs) = insert (x, Suc m) (set (starts False 0 xs) \<union> set (starts False (x + Suc m) ys))"
    by (simp add: split)
  moreover have "b \<in> set (starts False 0 xs) \<union> set (starts False (x + Suc m) ys) \<Longrightarrow> fst b \<noteq> x" for b
    using starts_bounds [of b False 0 xs] starts_bounds [of b False "x + Suc m" ys] starts_positive [of xs b False 0] pos
    by (auto simp: split)
  ultimately have used: "(y, j) \<in> set (starts False 0 (release x bs)) \<longleftrightarrow> (y, j) \<in> set (starts False 0 bs) \<and> y \<noteq> x" for y j
    by fastforce
  have "extent (release x bs) = N" using release_extent pos co split bs(2) by simp
  with s' used bs(3) x(1) show ?thesis
    unfolding Variable_live_def by (intro exI [of _ s'] conjI exI [of _ "release x bs"]) auto
qed

lemma Variable_store_live:
  assumes "Variable_live N s L" and "L a = Some m" and "i < m"
  shows "\<exists>s'. Variable_store (a + i) v s = Some s' \<and> Variable_live N s' L"
proof -
  obtain bs where bs: "Variable_layout s bs" "extent bs = N"
    "\<And>a m. L a = Some m \<longleftrightarrow> (\<exists>x. a = Suc x \<and> (x, Suc m) \<in> set (starts False 0 bs))"
    using assms by (auto simp: Variable_live_def)
  obtain x where x: "a = Suc x" "(x, Suc m) \<in> set (starts False 0 bs)" using assms(2) bs(3) by auto
  have pos: "\<forall>b \<in> set bs. 0 < fst b" using bs(1) by (simp add: Variable_layout_def)
  have inside: "fst b \<noteq> a + i \<and> a + i \<noteq> fst b" if "b \<in> set (starts g 0 bs)" for b g
    using starts_apart [OF pos x(2) that] assms(3) x(1) by (auto simp: apart_def split: prod.splits)
  have "a + i < length (v_buffer s)"
    using starts_bounds [OF x(2)] x(1) assms(3) bs(1) by (simp add: Variable_layout_def)
  moreover have "Variable_layout (s\<lparr>v_buffer := (v_buffer s)[a + i := v]\<rparr>) bs"
    using bs(1) inside by (simp add: Variable_layout_def)
  ultimately show ?thesis
    using bs by (auto simp: Variable_store_def Variable_live_def)
qed


interpretation variable: allocator "Variable_live N" "Variable_malloc k" Variable_free Variable_store "units k" for N k
proof (unfold_locales, goal_cases)
  case (1 s L a m b n)
  then obtain bs x y where pos: "\<forall>b \<in> set bs. 0 < fst b" and a: "a = Suc x" "(x, Suc m) \<in> set (starts False 0 bs)"
    and b: "b = Suc y" "(y, Suc n) \<in> set (starts False 0 bs)"
    by (fastforce simp: Variable_live_def Variable_layout_def)
  from starts_apart [OF pos a(2) b(2)] 1(4) show ?case
    by (auto simp: apart_def a(1) b(1))
next
  case (2 s L n)
  obtain p s' where "Variable_malloc k n s = Some (p, s')"
    "case p of None \<Rightarrow> Variable_live N s' L | Some a \<Rightarrow> L a = None \<and> Variable_live N s' (L(a \<mapsto> units k n))"
    using Variable_malloc_live [OF 2] by blast
  then show ?case by (cases p) (auto simp del: fun_upd_apply)
next
  case (3 s L a m)
  then show ?case by (rule Variable_free_live)
next
  case (4 s L a m i v)
  then show ?case by (rule Variable_store_live)
qed

subsection \<open>The free memory\<close>

lemma Variable_fold_list:
  "free_list buf p fl \<Longrightarrow> Variable_fold f buf p r = Some (fold (\<lambda>b. f (snd b - 1)) fl r)"
  by (induction fl arbitrary: p r) (subst Variable_fold.simps, simp)+

lemma fold_add: "fold (\<lambda>b r. r + g b) xs (r :: nat) = r + sum_list (map g xs)"
  by (induction xs arbitrary: r) simp_all

lemma fold_max: "fold (\<lambda>b r. if g b > r then g b else r) xs (r :: nat) = fold (\<lambda>b r. max (g b) r) xs r"
  by (induction xs arbitrary: r) (simp_all add: max_def)

lemma fold_max_le: "fold (\<lambda>b r. max (g b) r) xs (r :: nat) \<le> m \<longleftrightarrow> r \<le> m \<and> (\<forall>b \<in> set xs. g b \<le> m)"
  by (induction xs arbitrary: r) auto

definition free_units :: "layout \<Rightarrow> nat list" where
  "free_units bs = map (\<lambda>b. snd b - 1) (starts True 0 bs)"

lemma Variable_freeMemory_layout:
  "Variable_layout s bs \<Longrightarrow> Variable_freeMemory k s = Some (sum_list (free_units bs) * k)"
  using Variable_fold_list [of "v_buffer s" "v_head s" "starts True 0 bs" "\<lambda>n retVal. retVal + n" 0]
    fold_add [of "\<lambda>b. snd b - 1" "starts True 0 bs" 0]
  by (simp add: Variable_layout_def Variable_freeMemory_def free_units_def)

lemma Variable_maxBlockSize_layout:
  "Variable_layout s bs \<Longrightarrow> Variable_maxBlockSize k s = Some (fold max (free_units bs) 0 * k)"
  using Variable_fold_list [of "v_buffer s" "v_head s" "starts True 0 bs" "\<lambda>n retVal. if n > retVal then n else retVal" 0]
    fold_max [of "\<lambda>b. snd b - 1" "starts True 0 bs" 0]
  by (simp add: Variable_layout_def Variable_maxBlockSize_def free_units_def fold_map comp_def)


lemma units_le:
  assumes "0 < k"
  shows "units k n \<le> m \<longleftrightarrow> n \<le> m * k"
proof -
  have split: "n = n div k * k + n mod k" by simp
  have "n mod k < k" using assms by simp
  show ?thesis
  proof (cases "n mod k = 0")
    case True
    then have "n = n div k * k" using split by simp
    then have "n \<le> m * k \<longleftrightarrow> n div k * k \<le> m * k" by simp
    with True assms show ?thesis by (simp add: units_def)
  next
    case False
    have "n \<le> m * k \<longleftrightarrow> n div k < m"
      using False split div_less_iff_less_mult [OF assms, of n m] by (cases "n = m * k") auto
    with False show ?thesis by (simp add: units_def Suc_le_eq)
  qed
qed

lemma fit_possible:
  assumes "0 < k" and "0 < n"
  shows "fit (units k n + 1) bs \<noteq> None \<longleftrightarrow> n \<le> fold max (free_units bs) 0 * k"
proof -
  have pos: "0 < units k n" using units_le [OF assms(1), of n 0] assms(2) by simp
  have "fit (units k n + 1) bs = None \<longleftrightarrow> (\<forall>b \<in> set (starts True 0 bs). snd b - 1 \<le> units k n - 1)"
    using pos fit_None [of "units k n + 1" bs 0] by auto
  also have "\<dots> \<longleftrightarrow> fold max (free_units bs) 0 \<le> units k n - 1"
    using fold_max_le [of "\<lambda>x. x" "free_units bs" 0 "units k n - 1"] by (auto simp: free_units_def)
  finally show ?thesis
    using pos units_le [OF assms(1), of n "fold max (free_units bs) 0"] by auto
qed

lemma Variable_init_layout:
  assumes "0 < nrBlocks"
  shows "\<exists>s. Variable_init k nrBlocks blocksize = Some s \<and>
    Variable_layout s [(nrBlocks * (units k blocksize + 1), True)]"
  using assms by (auto simp: Variable_init_def Variable_layout_def Let_def)

lemma all_free:
  "coalesced bs \<Longrightarrow> starts False a bs = [] \<Longrightarrow> bs \<noteq> [] \<Longrightarrow> bs = [(extent bs, True)]"
proof (induction bs arbitrary: a)
  case (Cons b bs)
  obtain n f where b: "b = (n, f)" by (cases b)
  with Cons.prems have f: "f" "starts False (a + n) bs = []" "coalesced bs" "bs = [] \<or> \<not> snd (hd bs)"
    by (auto simp: coalesced_Cons split: if_splits)
  have "bs = []"
  proof (rule ccontr)
    assume "bs \<noteq> []"
    with Cons.IH [OF f(3,2)] have "snd (hd bs)" by (metis list.sel(1) snd_conv)
    with f(4) \<open>bs \<noteq> []\<close> show False by simp
  qed
  with b f(1) show ?case by simp
qed simp

subsection \<open>Properties\<close>

text \<open>C31: The variable pool implements first fit on the list of its blocks: \<open>malloc\<close> takes the first
  free block that is large enough, splits off what is not needed, returns the address behind the
  header, and leaves the pool alone when there is none; \<open>free\<close> makes the block free and joins it with
  its free neighbours. \<open>freeMemory\<close> and \<open>maxBlockSize\<close> are the sum and the maximum of the free blocks
  without their headers, and \<open>malloc\<close> succeeds exactly if no more is asked for than \<open>maxBlockSize\<close>.\<close>

theorem variable_pool_refines:
  assumes "Variable_layout s bs" and "0 < k" and "0 < n"
  shows "(case fit (units k n + 1) bs of
       None \<Rightarrow> Variable_malloc k n s = Some (None, s)
     | Some (a, bs') \<Rightarrow> \<exists>s'. Variable_malloc k n s = Some (Some (a + 1), s') \<and> Variable_layout s' bs') \<and>
    (\<forall>xs m ys. bs = xs @ (m, False) # ys \<longrightarrow>
       (\<exists>s'. Variable_free (Some (extent xs + 1)) s = Some s' \<and> Variable_layout s' (release (extent xs) bs))) \<and>
    Variable_freeMemory k s = Some (sum_list (free_units bs) * k) \<and>
    (\<exists>max. Variable_maxBlockSize k s = Some max \<and> (fit (units k n + 1) bs \<noteq> None \<longleftrightarrow> n \<le> max))"
  using Variable_malloc_layout [OF assms(1,3), of k] Variable_free_layout [OF assms(1)]
    Variable_freeMemory_layout [OF assms(1)] Variable_maxBlockSize_layout [OF assms(1)]
    fit_possible [OF assms(2,3)]
  by (intro conjI allI impI exI [of _ "fold max (free_units bs) 0 * k"]) simp_all

theorem variable_pool_refines_witness:
  "\<exists>s s'. Variable_init 8 1 16 = Some s \<and> Variable_malloc 8 8 s = Some (Some 1, s') \<and>
    Variable_layout s' [(2, False), (1, True)]"
proof -
  obtain s where s: "Variable_init 8 1 16 = Some s" "Variable_layout s [(3, True)]"
    using Variable_init_layout [of 1 8 16] by (auto simp: units_def)
  from variable_pool_refines [OF s(2), of 8 8] s(1) show ?thesis by (auto simp: units_def numeral_2_eq_2)
qed

text \<open>C32: Whatever a client stores in what it owns, and in whatever order it allocates and frees, the
  variable pool never reads or writes outside its buffer, hands out blocks of the requested size that
  lie inside the buffer and do not overlap, and when everything has been freed again it is one free
  block as at the start: no memory is lost and no fragmentation remains.\<close>

theorem variable_pool_safe:
  assumes "0 < nrBlocks"
  shows "\<exists>s owned s'. Variable_init k nrBlocks blocksize = Some s \<and>
    pool_run (Variable_malloc k) Variable_free Variable_store (units k) ops [] s = Some (owned, s') \<and>
    (\<forall>i < length owned. \<forall>j < length owned. i \<noteq> j \<longrightarrow> apart (owned ! i) (owned ! j)) \<and>
    (\<forall>(a, n) \<in> set owned. 0 < a \<and> a + n \<le> length (v_buffer s)) \<and>
    (owned = [] \<longrightarrow> Variable_layout s' [(length (v_buffer s), True)])"
proof -
  define N where "N = nrBlocks * (units k blocksize + 1)"
  obtain s where s: "Variable_init k nrBlocks blocksize = Some s" "Variable_layout s [(N, True)]"
    using Variable_init_layout [OF assms] by (auto simp: N_def)
  have N: "length (v_buffer s) = N" "0 < N" using s(2) by (simp_all add: Variable_layout_def)
  have "Variable_live N s Map.empty" "owns [] Map.empty"
    using s(2) by (auto simp: Variable_live_def owns_def)
  from variable.run_live [OF this, of k ops] obtain owned s' L where
    run: "pool_run (Variable_malloc k) Variable_free Variable_store (units k) ops [] s = Some (owned, s')"
    and L: "Variable_live N s' L" "owns owned L"
    by (auto simp: ok_def)
  obtain bs where bs: "Variable_layout s' bs" "extent bs = N"
    "\<And>a m. L a = Some m \<longleftrightarrow> (\<exists>x. a = Suc x \<and> (x, Suc m) \<in> set (starts False 0 bs))"
    using L(1) by (auto simp: Variable_live_def)
  have inside: "0 < fst b \<and> fst b + snd b \<le> N" if "b \<in> set owned" for b
  proof -
    have "\<exists>m. L (fst b) = Some m \<and> snd b \<le> m" using L(2) that by (simp add: owns_def)
    then obtain m where m: "L (fst b) = Some m" "snd b \<le> m" by blast
    with bs(3) obtain x where "fst b = Suc x" "(x, Suc m) \<in> set (starts False 0 bs)" by auto
    with starts_bounds [of "(x, Suc m)" False 0 bs] bs(2) m(2) show ?thesis by simp
  qed
  have "bs = [(N, True)]" if "owned = []"
  proof -
    have "L = Map.empty" using L(2) that by (simp add: owns_def)
    then have none: "(x, Suc m) \<notin> set (starts False 0 bs)" for x m using bs(3) [of "Suc x" m] by auto
    have pos: "\<forall>b \<in> set bs. 0 < fst b" and co: "coalesced bs" using bs(1) by (simp_all add: Variable_layout_def)
    have "(x, m) \<notin> set (starts False 0 bs)" for x m
      using none [of x "m - 1"] starts_positive [OF pos, of "(x, m)" False 0] by auto
    then have "b \<notin> set (starts False 0 bs)" for b by (cases b) simp
    then have "starts False 0 bs = []" using last_in_set by blast
    moreover have "bs \<noteq> []" using bs(2) N(2) by auto
    ultimately show ?thesis using all_free [OF co] bs(2) by blast
  qed
  with s(1) run bs(1) N(1) inside variable.owned_apart [OF L] show ?thesis
    by (intro exI [of _ s] exI [of _ owned] exI [of _ s']) auto
qed

theorem variable_pool_safe_witness:
  "\<exists>s owned s'. Variable_init 8 2 16 = Some s \<and>
    pool_run (Variable_malloc 8) Variable_free Variable_store (units 8)
      [Malloc 8, Malloc 20, Store 0 0 \<lparr>h_next = Some 99, h_size = 7\<rparr>, Free 0, Malloc 4, Free 0] [] s = Some (owned, s') \<and>
    (owned = [] \<longrightarrow> Variable_layout s' [(length (v_buffer s), True)])"
  using variable_pool_safe [of 2 8 16 "[Malloc 8, Malloc 20, Store 0 0 \<lparr>h_next = Some 99, h_size = 7\<rparr>, Free 0, Malloc 4, Free 0]"]
  by force

end
